(* ===== verification/Prelude.thy ===== *)
theory Prelude
  imports Main "HOL-Library.Word" "HOL-Library.Sublist"
begin

text \<open>
  Shared vocabulary of the development: the machine integer types of the C sources
  (riscv32: \<open>int\<close>, \<open>long\<close> and pointers are 32 bits wide, \<open>long long\<close> is 64), the
  collections of rewrite rules the component theories extend, and generic lemmas on lists
  and words.
\<close>

unbundle bit_operations_syntax

type_synonym u8 = "8 word"
type_synonym u16 = "16 word"
type_synonym u32 = "32 word"
type_synonym u64 = "64 word"

named_theorems const_defs \<open>numeric constants of the sources, unfolded on demand\<close>
named_theorems cstr_simps \<open>evaluation of the C string functions\<close>
named_theorems bus_simps \<open>evaluation of register reads and writes\<close>

definition INT_MAX :: int where
  [const_defs]: "INT_MAX = 2147483647"

definition INT_MIN :: int where
  [const_defs]: "INT_MIN = - 2147483648"

definition LLONG_MAX :: int where
  [const_defs]: "LLONG_MAX = 9223372036854775807"

definition LLONG_MIN :: int where
  [const_defs]: "LLONG_MIN = - 9223372036854775808"

text \<open>Saturation of a parsed number to a range, as the \<open>strto*\<close> family does.\<close>

definition saturate :: "int \<Rightarrow> int \<Rightarrow> int \<Rightarrow> int" where
  "saturate lo hi x = (if x < lo then lo else if hi < x then hi else x)"

lemma saturate_id [simp]: "lo \<le> x \<Longrightarrow> x \<le> hi \<Longrightarrow> saturate lo hi x = x"
  by (simp add: saturate_def)

lemma saturate_bounds: "lo \<le> hi \<Longrightarrow> lo \<le> saturate lo hi x \<and> saturate lo hi x \<le> hi"
  by (simp add: saturate_def)

subsection \<open>Lists\<close>

lemma take_append_le [simp]: "n \<le> length xs \<Longrightarrow> take n (xs @ ys) = take n xs"
  by simp

lemma drop_append_le [simp]: "n \<le> length xs \<Longrightarrow> drop n (xs @ ys) = drop n xs @ ys"
  by simp

lemma take_add_append: "take (length xs + n) (xs @ ys) = xs @ take n ys"
  by simp

lemma filter_absent: "c \<notin> set xs \<Longrightarrow> filter (\<lambda>x. x \<noteq> c) xs = xs"
  by (induction xs) auto

lemma append_split: "xs @ ys = zs @ ws \<Longrightarrow> length zs \<le> length xs \<Longrightarrow> \<exists>b. xs = zs @ b \<and> b @ ys = ws"
  by (auto simp: append_eq_append_conv2)

lemma prefix_refl_append [simp]: "prefix xs (xs @ ys)"
  by simp

lemma prefix_appendI: "prefix xs ys \<Longrightarrow> prefix (zs @ xs) (zs @ ys)"
  by simp

end
