(* ===== verification/Cstring.thy ===== *)
theory Cstring
  imports Prelude
begin

text \<open>
  The \<open>string.h\<close>/\<open>stdlib.h\<close> functions the sources call, over HOL strings (lists of
  8-bit characters). A C string is its bytes up to the first NUL (\<open>c_str\<close>), a pointer into
  it is an index, and "not found" (\<open>NULL\<close>) is \<open>None\<close>.
\<close>

definition NUL :: char where
  [cstr_simps]: "NUL = CHR 0x00"

definition c_str :: "string \<Rightarrow> string" where
  [cstr_simps]: "c_str buf = takeWhile (\<lambda>c. c \<noteq> NUL) buf"

text \<open>\<open>strncmp(s, p, strlen(p)) == 0\<close>.\<close>

definition has_prefix :: "string \<Rightarrow> string \<Rightarrow> bool" where
  [cstr_simps]: "has_prefix s p = (take (length p) s = p)"

text \<open>\<open>strchr(s, c)\<close> and \<open>strstr(s, needle)\<close> / \<open>memmem(s, n, needle, m)\<close>.\<close>

fun strchr :: "string \<Rightarrow> char \<Rightarrow> nat option" where
  "strchr [] c = None"
| "strchr (x # xs) c = (if x = c then Some 0 else map_option Suc (strchr xs c))"

fun find_sub :: "string \<Rightarrow> string \<Rightarrow> nat option" where
  "find_sub needle [] = (if needle = [] then Some 0 else None)"
| "find_sub needle (x # xs) =
     (if has_prefix (x # xs) needle then Some 0 else map_option Suc (find_sub needle xs))"

text \<open>\<open>isspace\<close> in the C locale: space, tab, newline, vertical tab, form feed, return.\<close>

definition isspace :: "char \<Rightarrow> bool" where
  [cstr_simps]: "isspace c =
     (c \<in> {CHR '' '', CHR 0x09, CHR 0x0A, CHR 0x0B, CHR 0x0C, CHR 0x0D})"

definition dec_digit :: "char \<Rightarrow> nat option" where
  [cstr_simps]: "dec_digit c =
     (let n = (of_char c :: nat) in if 48 \<le> n \<and> n \<le> 57 then Some (n - 48) else None)"

definition hex_digit :: "char \<Rightarrow> nat option" where
  [cstr_simps]: "hex_digit c =
     (let n = (of_char c :: nat)
      in if 48 \<le> n \<and> n \<le> 57 then Some (n - 48)
         else if 65 \<le> n \<and> n \<le> 70 then Some (n - 55)
         else if 97 \<le> n \<and> n \<le> 102 then Some (n - 87)
         else None)"

fun digits_value :: "(char \<Rightarrow> nat option) \<Rightarrow> nat \<Rightarrow> nat \<Rightarrow> string \<Rightarrow> nat" where
  "digits_value dig base acc [] = acc"
| "digits_value dig base acc (c # cs) =
     (case dig c of None \<Rightarrow> acc | Some d \<Rightarrow> digits_value dig base (acc * base + d) cs)"

fun split_sign :: "string \<Rightarrow> int \<times> string" where
  "split_sign (c # cs) =
     (if c = CHR ''-'' then (- 1, cs) else if c = CHR ''+'' then (1, cs) else (1, c # cs))"
| "split_sign [] = (1, [])"

text \<open>The \<open>0x\<close> prefix \<open>strtol\<close> accepts in base 16, when a hexadecimal digit follows.\<close>

fun strip_0x :: "string \<Rightarrow> string" where
  "strip_0x (a # b # c # cs) =
     (if a = CHR ''0'' \<and> (b = CHR ''x'' \<or> b = CHR ''X'') \<and> hex_digit c \<noteq> None
      then c # cs else a # b # c # cs)"
| "strip_0x s = s"

definition strtol16 :: "string \<Rightarrow> int" where
  "strtol16 s =
     (let (sg, t) = split_sign (dropWhile isspace s)
      in saturate INT_MIN INT_MAX (sg * int (digits_value hex_digit 16 0 (strip_0x t))))"

definition strtoll10 :: "int \<Rightarrow> int \<Rightarrow> string \<Rightarrow> int" where
  "strtoll10 lo hi s =
     (let (sg, t) = split_sign (dropWhile isspace s)
      in saturate lo hi (sg * int (digits_value dec_digit 10 0 t)))"

definition atoi :: "string \<Rightarrow> int" where
  "atoi s = strtoll10 INT_MIN INT_MAX s"

definition atoll :: "string \<Rightarrow> int" where
  "atoll s = strtoll10 LLONG_MIN LLONG_MAX s"

text \<open>
  \<open>strcpy\<close> into an array of \<open>cap\<close> bytes: the string and its terminator have to fit.
  \<open>None\<close> is the overflow, undefined behaviour in C.
\<close>

definition strcpy_into :: "nat \<Rightarrow> string \<Rightarrow> string option" where
  "strcpy_into cap s = (if length s < cap then Some s else None)"

subsection \<open>Searching\<close>

lemma strchr_None: "strchr s c = None \<longleftrightarrow> c \<notin> set s"
  by (induction s) auto

lemma strchr_Some:
  "strchr s c = Some i \<longleftrightarrow> i < length s \<and> s ! i = c \<and> c \<notin> set (take i s)"
proof (induction s arbitrary: i)
  case Nil
  then show ?case by simp
next
  case (Cons x xs)
  then show ?case by (cases i) auto
qed

lemma strchr_append: "c \<notin> set s \<Longrightarrow> strchr (s @ c # t) c = Some (length s)"
  by (induction s) auto

lemma strchr_less: "strchr s c = Some i \<Longrightarrow> i < length s"
  by (simp add: strchr_Some)

lemma has_prefix_append [simp]: "has_prefix (p @ s) p"
  by (simp add: has_prefix_def)

lemma has_prefix_decomp: "has_prefix s p \<Longrightarrow> p @ drop (length p) s = s"
  by (metis has_prefix_def append_take_drop_id)

lemma has_prefix_length: "has_prefix s p \<Longrightarrow> length p \<le> length s"
  by (metis has_prefix_def length_take min.cobounded1)

lemma find_sub_Some:
  "find_sub n s = Some i \<longleftrightarrow>
     i \<le> length s \<and> has_prefix (drop i s) n \<and> (\<forall>j < i. \<not> has_prefix (drop j s) n)"
proof (induction s arbitrary: i)
  case Nil
  then show ?case by (auto simp: has_prefix_def)
next
  case (Cons x xs)
  show ?case
  proof (cases i)
    case 0
    then show ?thesis by auto
  next
    case (Suc k)
    with Cons show ?thesis
      by (auto simp: less_Suc_eq_0_disj)
  qed
qed

lemma find_sub_None:
  "find_sub n s = None \<longleftrightarrow> (\<forall>j \<le> length s. \<not> has_prefix (drop j s) n)"
proof (induction s)
  case Nil
  then show ?case by (auto simp: has_prefix_def)
next
  case (Cons x xs)
  have "(\<forall>j \<le> length (x # xs). \<not> has_prefix (drop j (x # xs)) n) \<longleftrightarrow>
        \<not> has_prefix (x # xs) n \<and> (\<forall>j \<le> length xs. \<not> has_prefix (drop j xs) n)"
    by (auto simp: nat_less_le split: nat.splits)
       (metis Suc_le_mono drop_Suc_Cons not0_implies_Suc drop0)+
  with Cons show ?case by auto
qed

lemma find_sub_bound: "find_sub n s = Some i \<Longrightarrow> i + length n \<le> length s"
  unfolding find_sub_Some using has_prefix_length by fastforce

lemma find_sub_split:
  assumes "find_sub n s = Some i"
  shows "s = take i s @ n @ drop (i + length n) s"
proof -
  from assms have "take (length n) (drop i s) = n"
    by (simp add: find_sub_Some has_prefix_def)
  then show ?thesis
    by (metis append_take_drop_id drop_drop add.commute)
qed

text \<open>A needle of two different characters: its first occurrence cannot overlap what precedes it.\<close>

lemma find_pair:
  "find_sub [a, b] x = None \<Longrightarrow> a \<noteq> b \<Longrightarrow> find_sub [a, b] (x @ a # b # t) = Some (length x)"
proof (induction x)
  case (Cons c x)
  then have "\<not> has_prefix (c # x @ a # b # t) [a, b]" "find_sub [a, b] x = None"
    by (cases x; auto simp: has_prefix_def split: if_splits)+
  with Cons show ?case by simp
qed (simp add: has_prefix_def)

end
