(* ===== verification/HgetBase.thy ===== *)
theory HgetBase
  imports Cstring
begin

text \<open>
  Constants shared by the parts of \<open>board/hget/hget.c\<close>: the exit codes, the buffer sizes
  and the options record.
\<close>

datatype exit_code =
    EX_OK | EX_USAGE | EX_URL | EX_RESOLVE | EX_CONNECT
  | EX_TLS | EX_HTTP | EX_IO | EX_REDIRECT | EX_PROTO

fun exit_num :: "exit_code \<Rightarrow> nat" where
  "exit_num EX_OK = 0"
| "exit_num EX_USAGE = 1"
| "exit_num EX_URL = 2"
| "exit_num EX_RESOLVE = 3"
| "exit_num EX_CONNECT = 4"
| "exit_num EX_TLS = 5"
| "exit_num EX_HTTP = 6"
| "exit_num EX_IO = 7"
| "exit_num EX_REDIRECT = 8"
| "exit_num EX_PROTO = 9"

lemma exit_num_inj: "exit_num a = exit_num b \<longleftrightarrow> a = b"
  by (cases a; cases b) simp_all

text \<open>The codes are ordered by the number the shell sees.\<close>

instantiation exit_code :: linorder
begin

definition less_eq_exit_code :: "exit_code \<Rightarrow> exit_code \<Rightarrow> bool" where
  "less_eq_exit_code a b = (exit_num a \<le> exit_num b)"

definition less_exit_code :: "exit_code \<Rightarrow> exit_code \<Rightarrow> bool" where
  "less_exit_code a b = (exit_num a < exit_num b)"

instance
  by standard (auto simp: less_eq_exit_code_def less_exit_code_def exit_num_inj)

end

text \<open>
  Results of code with early returns and bounded copies: \<open>None\<close> is undefined behaviour (an
  out-of-bounds write), \<open>Some (Inl e)\<close> an early return of exit code \<open>e\<close>.
\<close>

type_synonym 'a checked = "(exit_code + 'a) option"

fun and_then :: "'a checked \<Rightarrow> ('a \<Rightarrow> 'b checked) \<Rightarrow> 'b checked" where
  "and_then None f = None"
| "and_then (Some (Inl e)) f = Some (Inl e)"
| "and_then (Some (Inr a)) f = f a"

definition copied :: "string option \<Rightarrow> string checked" where
  "copied c = map_option Inr c"

lemma and_then_Inr: "and_then m f = Some (Inr b) \<longleftrightarrow> (\<exists>a. m = Some (Inr a) \<and> f a = Some (Inr b))"
  by (cases "(m, f)" rule: and_then.cases) auto

lemma and_then_Inl:
  "and_then m f = Some (Inl e) \<longleftrightarrow>
     m = Some (Inl e) \<or> (\<exists>a. m = Some (Inr a) \<and> f a = Some (Inl e))"
  by (cases "(m, f)" rule: and_then.cases) auto

lemma and_then_None: "and_then m f = None \<longleftrightarrow> m = None \<or> (\<exists>a. m = Some (Inr a) \<and> f a = None)"
  by (cases "(m, f)" rule: and_then.cases) auto

lemmas and_then_iff = and_then_Inr and_then_Inl and_then_None

lemma copied_iff [simp]:
  "copied c = None \<longleftrightarrow> c = None" "copied c = Some (Inr s) \<longleftrightarrow> c = Some s"
  "copied c \<noteq> Some (Inl e)"
  by (cases c; simp add: copied_def)+

definition MAX_REDIRECTS :: nat where [const_defs]: "MAX_REDIRECTS = 8"
definition URLBUF :: nat where [const_defs]: "URLBUF = 2048"
definition HOSTBUF :: nat where [const_defs]: "HOSTBUF = 256"
definition PORTBUF :: nat where [const_defs]: "PORTBUF = 8"
definition IOBUF :: nat where [const_defs]: "IOBUF = 16384"
definition HDRBUF :: nat where [const_defs]: "HDRBUF = 8192"

text \<open>The file-scope options (\<open>opt_quiet\<close> ...), with their initialisers.\<close>

record options =
  opt_quiet :: bool
  opt_insecure :: bool
  opt_follow :: bool
  opt_timeout :: int
  opt_cafile :: string

definition default_options :: options where
  "default_options = \<lparr>opt_quiet = False, opt_insecure = False, opt_follow = True,
     opt_timeout = 30, opt_cafile = ''/etc/ssl/certs/ca-certificates.crt''\<rparr>"

end
