(* ===== verification/HgetUrl.thy ===== *)
theory HgetUrl
  imports HgetBase
begin

text \<open>
  URL parsing (\<open>struct url\<close> and \<open>url_parse\<close> of \<open>board/hget/hget.c\<close>).

  The model writes out the capacity check of every copy into a fixed-size field, so a result
  \<open>None\<close> is a buffer overflow (undefined behaviour in C), \<open>Some (Inl e)\<close> the exit code of an
  early return and \<open>Some (Inr u)\<close> the parsed URL.
\<close>

record url =
  u_tls :: bool
  u_host :: string
  u_port :: string
  u_path :: string

text \<open>The scheme test: TLS flag, default port and the rest of the string after \<open>://\<close>.\<close>

definition url_scheme :: "string \<Rightarrow> (bool \<times> string \<times> string) option" where
  "url_scheme s =
     (if has_prefix s ''http://'' then Some (False, ''80'', drop 7 s)
      else if has_prefix s ''https://'' then Some (True, ''443'', drop 8 s)
      else None)"

text \<open>The copies of the path and of the host part: \<open>strchr(p, '/')\<close> decides both.\<close>

definition url_copy_path :: "string \<Rightarrow> string checked" where
  "url_copy_path p =
     (case strchr p (CHR ''/'') of
        Some i \<Rightarrow> if URLBUF \<le> length (drop i p) then Some (Inl EX_URL)
                  else copied (strcpy_into URLBUF (drop i p))
      | None \<Rightarrow> copied (strcpy_into URLBUF ''/''))"

definition url_copy_host :: "string \<Rightarrow> string checked" where
  "url_copy_host p =
     (let hostlen = (case strchr p (CHR ''/'') of Some i \<Rightarrow> i | None \<Rightarrow> length p)
      in if hostlen = 0 \<or> HOSTBUF \<le> hostlen then Some (Inl EX_URL)
         else copied (strcpy_into HOSTBUF (take hostlen p)))"

text \<open>The port after a colon, bounded before it is copied.\<close>

definition url_copy_port :: "string \<Rightarrow> string checked" where
  "url_copy_port q =
     (if PORTBUF \<le> length q then Some (Inl EX_URL) else copied (strcpy_into PORTBUF q))"

text \<open>The host part split into host and explicit port; \<open>[\<close> starts an IPv6 literal.\<close>

definition url_authority :: "string \<Rightarrow> string \<Rightarrow> (string \<times> string) checked" where
  "url_authority h port =
     (if take 1 h \<noteq> ''['' then
        (case strchr h (CHR '':'') of
           None \<Rightarrow> Some (Inr (h, port))
         | Some j \<Rightarrow> and_then (url_copy_port (drop (Suc j) h)) (\<lambda>q. Some (Inr (take j h, q))))
      else
        (case strchr h (CHR '']'') of
           None \<Rightarrow> Some (Inl EX_URL)
         | Some k \<Rightarrow>
             if take 1 (drop (Suc k) h) = '':'' then
               and_then (url_copy_port (drop (k + 2) h))
                 (\<lambda>q. Some (Inr (drop 1 (take k h), q)))
             else Some (Inr (drop 1 (take k h), port))))"

definition url_parse :: "string \<Rightarrow> url checked" where
  "url_parse s =
     (case url_scheme s of
        None \<Rightarrow> Some (Inl EX_URL)
      | Some (tls, port, p) \<Rightarrow>
          and_then (url_copy_path p) (\<lambda>path.
          and_then (url_copy_host p) (\<lambda>h.
          and_then (url_authority h port) (\<lambda>(host, port').
            Some (Inr \<lparr>u_tls = tls, u_host = host, u_port = port', u_path = path\<rparr>)))))"

subsection \<open>The fields fit their buffers\<close>

text \<open>What every parsed URL satisfies: each field and its terminator fit the struct.\<close>

definition url_wf :: "url \<Rightarrow> bool" where
  "url_wf u \<longleftrightarrow> length (u_host u) < HOSTBUF \<and> length (u_port u) < PORTBUF \<and>
     length (u_path u) < URLBUF \<and> take 1 (u_path u) = ''/''"

lemma url_scheme_cases:
  "url_scheme s = Some (tls, port, p) \<Longrightarrow>
     (tls = False \<and> port = ''80'' \<and> s = ''http://'' @ p) \<or>
     (tls = True \<and> port = ''443'' \<and> s = ''https://'' @ p)"
  using has_prefix_decomp [of s "''http://''"] has_prefix_decomp [of s "''https://''"]
  by (auto simp: url_scheme_def eval_nat_numeral split: if_splits)

lemma url_scheme_port: "url_scheme s = Some (tls, port, p) \<Longrightarrow> length port < PORTBUF"
  by (auto simp: url_scheme_def PORTBUF_def split: if_splits)

lemmas url_copy_defs =
  url_copy_path_def url_copy_host_def url_copy_port_def strcpy_into_def Let_def

lemma strchr_take: "strchr p c = Some i \<Longrightarrow> take (Suc 0) (drop i p) = [c]"
  by (auto simp: strchr_Some take_Suc hd_drop_conv_nth)

lemma url_copy_path_cases:
  "url_copy_path p = Some (Inl EX_URL) \<or>
   (\<exists>path. url_copy_path p = Some (Inr path) \<and> length path < URLBUF \<and> take 1 path = ''/'')"
  by (auto simp: url_copy_defs copied_def strchr_take URLBUF_def split: option.splits)

lemma url_copy_host_cases:
  "url_copy_host p = Some (Inl EX_URL) \<or>
   (\<exists>h. url_copy_host p = Some (Inr h) \<and> 0 < length h \<and> length h < HOSTBUF)"
  by (auto simp: url_copy_defs copied_def dest: strchr_less split: option.splits)

lemma url_authority_cases:
  assumes "length h < HOSTBUF" and "length port < PORTBUF"
  shows "url_authority h port = Some (Inl EX_URL) \<or>
    (\<exists>host q. url_authority h port = Some (Inr (host, q)) \<and>
       length host < HOSTBUF \<and> length q < PORTBUF)"
  using assms
  by (auto simp: url_authority_def url_copy_defs copied_def split: option.splits)

lemma url_parse_total:
  "url_parse s = Some (Inl EX_URL) \<or> (\<exists>u. url_parse s = Some (Inr u) \<and> url_wf u)"
proof (cases "url_scheme s")
  case None
  then show ?thesis by (simp add: url_parse_def)
next
  case (Some t)
  then obtain tls port p where t: "url_scheme s = Some (tls, port, p)"
    by (cases t) auto
  note port = url_scheme_port [OF t]
  show ?thesis
    using url_copy_path_cases [of p] url_copy_host_cases [of p] url_authority_cases [OF _ port]
    by (force simp: url_parse_def t url_wf_def)
qed

text \<open>C27: \<open>url_parse\<close> never overruns a buffer, whatever string it is given: it either returns
  \<open>EX_URL\<close> or a URL whose fields fit the struct's arrays, with a path that starts with a slash.\<close>

theorem url_parse_no_overflow:
  "url_parse s = Some (Inl EX_URL) \<or> (\<exists>u. url_parse s = Some (Inr u) \<and> url_wf u)"
  by (rule url_parse_total)

subsection \<open>Printing and parsing\<close>

text \<open>The canonical form of a URL: an address with colons in it is bracketed.\<close>

definition url_print :: "url \<Rightarrow> string" where
  "url_print u =
     (if u_tls u then ''https://'' else ''http://'') @
     (if CHR '':'' \<in> set (u_host u) then ''['' @ u_host u @ '']'' else u_host u) @
     '':'' @ u_port u @ u_path u"

text \<open>The URLs with an unambiguous canonical form that fits the buffers.\<close>

definition url_printable :: "url \<Rightarrow> bool" where
  "url_printable u \<longleftrightarrow>
     u_host u \<noteq> [] \<and> CHR ''/'' \<notin> set (u_host u) \<and> CHR ''/'' \<notin> set (u_port u) \<and>
     take 1 (u_host u) \<noteq> ''['' \<and> CHR '']'' \<notin> set (u_host u) \<and>
     length (u_host u) + length (u_port u) + 3 < HOSTBUF \<and> length (u_port u) < PORTBUF \<and>
     length (u_path u) < URLBUF \<and> take 1 (u_path u) = ''/''"

lemma url_scheme_print:
  "url_scheme (''https://'' @ p) = Some (True, ''443'', p)"
  "url_scheme (''http://'' @ p) = Some (False, ''80'', p)"
  by (simp_all add: url_scheme_def has_prefix_def)

lemmas url_scheme_literal [simp] = url_scheme_print [simplified]

lemma url_authority_name:
  assumes "CHR '':'' \<notin> set h" and "h \<noteq> []" and "take 1 h \<noteq> ''[''" and "length q < PORTBUF"
  shows "url_authority (h @ '':'' @ q) port = Some (Inr (h, q))"
proof -
  have "strchr (h @ '':'' @ q) (CHR '':'') = Some (length h)"
    using strchr_append [OF assms(1), of q] by simp
  moreover have "take 1 (h @ '':'' @ q) \<noteq> ''[''"
    using assms(2,3) by (cases h) auto
  ultimately show ?thesis
    using assms(4) by (simp add: url_authority_def url_copy_port_def strcpy_into_def copied_def)
qed

lemma url_authority_literal:
  assumes "CHR '']'' \<notin> set h" and "length q < PORTBUF"
  shows "url_authority (''['' @ h @ '']'' @ '':'' @ q) port = Some (Inr (h, q))"
proof -
  have "strchr ((''['' @ h) @ '']'' @ '':'' @ q) (CHR '']'') = Some (length (''['' @ h))"
    using strchr_append [of "CHR '']''" "''['' @ h" "'':'' @ q"] assms(1) by simp
  then show ?thesis
    using assms(2) by (simp add: url_authority_def url_copy_port_def strcpy_into_def copied_def)
qed

lemma url_copies_split:
  assumes "CHR ''/'' \<notin> set a" and "path = CHR ''/'' # t" and "a \<noteq> []"
    and "length a < HOSTBUF" and "length path < URLBUF"
  shows "url_copy_path (a @ path) = Some (Inr path) \<and> url_copy_host (a @ path) = Some (Inr a)"
  using strchr_append [OF assms(1), of t] assms(2-5)
  by (simp add: url_copy_defs copied_def)

text \<open>C28: round trip. Parsing the canonical form of a URL gives the URL back: scheme, host (an
  IPv6 literal without its brackets), explicit port and path.\<close>

theorem url_parse_print:
  assumes "url_printable u"
  shows "url_parse (url_print u) = Some (Inr u)"
proof -
  define a where "a = (if CHR '':'' \<in> set (u_host u) then ''['' @ u_host u @ '']'' else u_host u)
     @ '':'' @ u_port u"
  obtain t where path: "u_path u = CHR ''/'' # t"
    using assms by (cases "u_path u") (auto simp: url_printable_def)
  have a: "CHR ''/'' \<notin> set a" "a \<noteq> []" "length a < HOSTBUF"
    using assms by (auto simp: a_def url_printable_def)
  have copies: "url_copy_path (a @ u_path u) = Some (Inr (u_path u))"
    "url_copy_host (a @ u_path u) = Some (Inr a)"
    using url_copies_split [OF a(1) path a(2,3)] assms by (simp_all add: url_printable_def)
  have auth: "url_authority a port = Some (Inr (u_host u, u_port u))" for port
    using assms url_authority_name [of "u_host u" "u_port u" port]
      url_authority_literal [of "u_host u" "u_port u" port]
    by (auto simp: a_def url_printable_def)
  have "url_print u = (if u_tls u then ''https://'' else ''http://'') @ (a @ u_path u)"
    by (simp add: url_print_def a_def)
  then show ?thesis
    by (cases "u_tls u") (simp_all add: url_parse_def copies auth del: append_assoc)
qed

theorem url_parse_print_witness:
  "url_parse ''https://[fe80::1]:8443/x'' = Some (Inr \<lparr>u_tls = True, u_host = ''fe80::1'',
     u_port = ''8443'', u_path = ''/x''\<rparr>)"
  using url_parse_print [of "\<lparr>u_tls = True, u_host = ''fe80::1'', u_port = ''8443'', u_path = ''/x''\<rparr>"]
  by (simp add: url_print_def url_printable_def const_defs)

end
