(* ===== verification/HgetIO.thy ===== *)
theory HgetIO
  imports HgetBase
begin

text \<open>
  The byte transport of \<open>board/hget/hget.c\<close>: \<open>struct conn\<close>, \<open>conn_read\<close>, \<open>conn_write\<close>
  and \<open>write_all\<close>.

  The kernel and mbedTLS are the environment. Each call they answer is one event of a script
  the connection carries: what \<open>recv\<close>, \<open>send\<close>, \<open>write\<close>, \<open>mbedtls_ssl_read\<close> and
  \<open>mbedtls_ssl_write\<close> return, call by call. Every theorem quantifies over all scripts, so over
  all finite histories of segmentations, interruptions and failures. A \<open>recv\<close> script that has run
  out is a peer that closed the stream (the call returns 0), an exhausted write script accepts
  everything. What the retry loops do on an endless sequence of answers, where they may not return,
  is the subject of \<open>ssl_read_stream\<close> and \<open>write_stream\<close>.

  Two interfaces are stated as locales: a source of bytes and a sink of bytes. The clients
  (header and body transfer, in \<open>HgetHttp\<close>) are proved against these contracts only.
\<close>

subsection \<open>The interfaces\<close>

text \<open>
  A source: \<open>rd s n\<close> asks for at most \<open>n\<close> bytes and returns \<open>None\<close> on error, \<open>Some []\<close> at
  end of stream and \<open>Some bs\<close> otherwise. \<open>content s\<close> is what the source still delivers
  before it ends, \<open>faulty s\<close> says whether it ends in an error.
\<close>

locale byte_source =
  fixes rd :: "'c \<Rightarrow> nat \<Rightarrow> string option \<times> 'c"
    and content :: "'c \<Rightarrow> string"
    and faulty :: "'c \<Rightarrow> bool"
  assumes rd_bytes: "rd s n = (Some bs, s') \<Longrightarrow> bs \<noteq> [] \<Longrightarrow>
      content s = bs @ content s' \<and> length bs \<le> n \<and> faulty s' = faulty s"
    and rd_end: "rd s n = (Some [], s') \<Longrightarrow> 0 < n \<Longrightarrow> content s = [] \<and> \<not> faulty s"
    and rd_error: "rd s n = (None, s') \<Longrightarrow> content s = [] \<and> faulty s"
begin

lemma rd_shrinks: "rd s n = (Some bs, s') \<Longrightarrow> bs \<noteq> [] \<Longrightarrow> length (content s') < length (content s)"
  using rd_bytes [of s n bs s'] by (cases bs) auto

end

text \<open>
  A sink: \<open>wr s bs\<close> is \<open>True\<close> when everything was taken; \<open>logged\<close> is the data the other end
  has received. A failed write has delivered some prefix; a sink that is \<open>ready\<close> never fails.
\<close>

locale byte_sink =
  fixes wr :: "'o \<Rightarrow> string \<Rightarrow> bool \<times> 'o"
    and logged :: "'o \<Rightarrow> string"
    and ready :: "'o \<Rightarrow> bool"
  assumes wr_ok: "wr s bs = (True, s') \<Longrightarrow> logged s' = logged s @ bs"
    and wr_fail: "wr s bs = (False, s') \<Longrightarrow> \<exists>p. prefix p bs \<and> logged s' = logged s @ p"
    and wr_ready: "wr s bs = (ok, s') \<Longrightarrow> ready s \<Longrightarrow> ok \<and> ready s'"
begin

lemma wr_delivers:
  "wr s bs = (ok, s') \<Longrightarrow> \<exists>p. prefix p bs \<and> logged s' = logged s @ p \<and> (ok \<longrightarrow> p = bs)"
  using wr_ok [of s bs s'] wr_fail [of s bs s'] by (cases ok) auto

end

subsection \<open>The socket and TLS events\<close>

text \<open>The \<open>errno\<close> values the code tests; \<open>EOTHER\<close> stands for all the others.\<close>

datatype errno = EINTR | EAGAIN | EWOULDBLOCK | EOTHER

datatype recv_event = Recv_bytes char string | Recv_fail errno

datatype ssl_read_event =
    Ssl_bytes char string | Ssl_want_read | Ssl_want_write | Ssl_close_notify | Ssl_read_error

datatype write_event = Accepted nat | Write_fail errno

datatype ssl_write_event =
    Ssl_accepted nat | Ssl_write_want_read | Ssl_write_want_write | Ssl_write_error

text \<open>
  \<open>struct conn\<close>: the descriptor, the TLS flag, and the scripts of the calls the connection
  will make; \<open>sent\<close> is what the peer has received.
\<close>

record conn =
  fd :: int
  tls :: bool
  recvs :: "recv_event list"
  ssl_reads :: "ssl_read_event list"
  sends :: "write_event list"
  ssl_writes :: "ssl_write_event list"
  sent :: string

subsection \<open>conn_read\<close>

text \<open>The plain path: \<open>recv\<close>, retried on \<open>EINTR\<close>.\<close>

fun recv_loop :: "recv_event list \<Rightarrow> nat \<Rightarrow> string option \<times> recv_event list" where
  "recv_loop [] n = (Some [], [])"
| "recv_loop (Recv_fail e # es) n = (if e = EINTR then recv_loop es n else (None, es))"
| "recv_loop (Recv_bytes x xs # es) n =
     (Some (take n (x # xs)),
      (case drop n (x # xs) of [] \<Rightarrow> es | y # ys \<Rightarrow> Recv_bytes y ys # es))"

text \<open>The TLS path: \<open>mbedtls_ssl_read\<close>, retried on the two \<open>WANT\<close> results.\<close>

fun ssl_read_loop :: "ssl_read_event list \<Rightarrow> nat \<Rightarrow> string option \<times> ssl_read_event list" where
  "ssl_read_loop [] n = (Some [], [])"
| "ssl_read_loop (Ssl_want_read # es) n = ssl_read_loop es n"
| "ssl_read_loop (Ssl_want_write # es) n = ssl_read_loop es n"
| "ssl_read_loop (Ssl_close_notify # es) n = (Some [], es)"
| "ssl_read_loop (Ssl_read_error # es) n = (None, es)"
| "ssl_read_loop (Ssl_bytes x xs # es) n =
     (Some (take n (x # xs)),
      (case drop n (x # xs) of [] \<Rightarrow> es | y # ys \<Rightarrow> Ssl_bytes y ys # es))"

text \<open>
  The same loop over an endless sequence of answers, from the \<open>i\<close>-th on: \<open>None\<close> is a call that
  never returns. It is the loop above on the answers it uses, and it returns unless mbedTLS keeps
  asking for more for ever.
\<close>

partial_function (option) ssl_read_stream ::
    "(nat \<Rightarrow> ssl_read_event) \<Rightarrow> nat \<Rightarrow> nat \<Rightarrow> (string option \<times> nat) option" where
  "ssl_read_stream ev n i =
     (case ev i of
        Ssl_want_read \<Rightarrow> ssl_read_stream ev n (Suc i)
      | Ssl_want_write \<Rightarrow> ssl_read_stream ev n (Suc i)
      | Ssl_close_notify \<Rightarrow> Some (Some [], Suc i)
      | Ssl_read_error \<Rightarrow> Some (None, Suc i)
      | Ssl_bytes x xs \<Rightarrow> Some (Some (take n (x # xs)), Suc i))"

definition wants_more :: "ssl_read_event \<Rightarrow> bool" where
  "wants_more e \<longleftrightarrow> e = Ssl_want_read \<or> e = Ssl_want_write"

lemma ssl_read_stream_loop:
  assumes "ssl_read_stream ev n i = Some x"
  shows "i < snd x \<and> fst (ssl_read_loop (map ev [i..<snd x]) n) = fst x \<and> \<not> wants_more (ev (snd x - 1))"
proof (rule ssl_read_stream.raw_induct
    [where P = "\<lambda>ev n i x. i < snd x \<and> fst (ssl_read_loop (map ev [i..<snd x]) n) = fst x \<and>
        \<not> wants_more (ev (snd x - 1))", OF _ assms], goal_cases)
  case (1 loop ev n i x)
  show ?case
  proof (cases "wants_more (ev i)")
    case True
    then have "loop ev n (Suc i) = Some x" using 1(2) by (auto simp: wants_more_def)
    from 1(1) [OF this] show ?thesis using True by (auto simp: upt_conv_Cons wants_more_def)
  next
    case False
    then show ?thesis using 1(2) by (cases "ev i") (auto simp: wants_more_def)
  qed
qed

lemma ssl_read_stream_ends: "\<not> wants_more (ev (i + k)) \<Longrightarrow> ssl_read_stream ev n i \<noteq> None"
proof (induction k arbitrary: i)
  case 0
  then show ?case by (subst ssl_read_stream.simps) (simp add: wants_more_def split: ssl_read_event.split)
next
  case (Suc k)
  then show ?case using Suc.IH [of "Suc i"]
    by (subst ssl_read_stream.simps) (simp split: ssl_read_event.split)
qed

lemma ssl_read_stream_diverges: "ssl_read_stream ev n i = None \<longleftrightarrow> (\<forall>j \<ge> i. wants_more (ev j))"
proof
  assume none: "ssl_read_stream ev n i = None"
  show "\<forall>j \<ge> i. wants_more (ev j)"
  proof (intro allI impI)
    fix j assume "i \<le> j"
    then show "wants_more (ev j)" using none ssl_read_stream_ends [of ev i "j - i" n] by auto
  qed
next
  assume more: "\<forall>j \<ge> i. wants_more (ev j)"
  show "ssl_read_stream ev n i = None"
  proof (cases "ssl_read_stream ev n i")
    case (Some x)
    note loop = ssl_read_stream_loop [OF Some]
    then have "i \<le> snd x - 1" by linarith
    then show ?thesis using loop more by blast
  qed
qed

definition conn_read :: "conn \<Rightarrow> nat \<Rightarrow> string option \<times> conn" where
  "conn_read c n =
     (if tls c then (let (r, es) = ssl_read_loop (ssl_reads c) n in (r, c\<lparr>ssl_reads := es\<rparr>))
      else (let (r, es) = recv_loop (recvs c) n in (r, c\<lparr>recvs := es\<rparr>)))"

text \<open>What a connection still delivers, and whether it ends in an error.\<close>

fun recv_content :: "recv_event list \<Rightarrow> string" where
  "recv_content [] = []"
| "recv_content (Recv_fail e # es) = (if e = EINTR then recv_content es else [])"
| "recv_content (Recv_bytes x xs # es) = x # xs @ recv_content es"

fun recv_faulty :: "recv_event list \<Rightarrow> bool" where
  "recv_faulty [] = False"
| "recv_faulty (Recv_fail e # es) = (e \<noteq> EINTR \<or> recv_faulty es)"
| "recv_faulty (Recv_bytes x xs # es) = recv_faulty es"

fun ssl_content :: "ssl_read_event list \<Rightarrow> string" where
  "ssl_content [] = []"
| "ssl_content (Ssl_bytes x xs # es) = x # xs @ ssl_content es"
| "ssl_content (Ssl_close_notify # es) = []"
| "ssl_content (Ssl_read_error # es) = []"
| "ssl_content (e # es) = ssl_content es"

fun ssl_faulty :: "ssl_read_event list \<Rightarrow> bool" where
  "ssl_faulty [] = False"
| "ssl_faulty (Ssl_read_error # es) = True"
| "ssl_faulty (Ssl_close_notify # es) = False"
| "ssl_faulty (e # es) = ssl_faulty es"

definition conn_content :: "conn \<Rightarrow> string" where
  "conn_content c = (if tls c then ssl_content (ssl_reads c) else recv_content (recvs c))"

definition conn_faulty :: "conn \<Rightarrow> bool" where
  "conn_faulty c = (if tls c then ssl_faulty (ssl_reads c) else recv_faulty (recvs c))"

lemma recv_loop_bytes:
  "recv_loop es n = (Some bs, es') \<Longrightarrow> bs \<noteq> [] \<Longrightarrow>
     recv_content es = bs @ recv_content es' \<and> length bs \<le> n \<and> recv_faulty es' = recv_faulty es"
  by (induction es n rule: recv_loop.induct)
     (auto split: list.splits if_splits simp flip: append_assoc,
       (metis append_Nil2 append_take_drop_id)+)

lemma recv_loop_end:
  "recv_loop es n = (Some [], es') \<Longrightarrow> 0 < n \<Longrightarrow> recv_content es = [] \<and> \<not> recv_faulty es"
  by (induction es n rule: recv_loop.induct) (auto split: if_splits)

lemma recv_loop_error:
  "recv_loop es n = (None, es') \<Longrightarrow> recv_content es = [] \<and> recv_faulty es"
  by (induction es n rule: recv_loop.induct) (auto split: if_splits)

lemma ssl_loop_bytes:
  "ssl_read_loop es n = (Some bs, es') \<Longrightarrow> bs \<noteq> [] \<Longrightarrow>
     ssl_content es = bs @ ssl_content es' \<and> length bs \<le> n \<and> ssl_faulty es' = ssl_faulty es"
  by (induction es n rule: ssl_read_loop.induct)
     (auto split: list.splits simp flip: append_assoc, (metis append_Nil2 append_take_drop_id)+)

lemma ssl_loop_end:
  "ssl_read_loop es n = (Some [], es') \<Longrightarrow> 0 < n \<Longrightarrow> ssl_content es = [] \<and> \<not> ssl_faulty es"
  by (induction es n rule: ssl_read_loop.induct) auto

lemma ssl_loop_error:
  "ssl_read_loop es n = (None, es') \<Longrightarrow> ssl_content es = [] \<and> ssl_faulty es"
  by (induction es n rule: ssl_read_loop.induct) auto

interpretation conn_src: byte_source conn_read conn_content conn_faulty
proof
  fix s n bs s'
  show "conn_read s n = (Some bs, s') \<Longrightarrow> bs \<noteq> [] \<Longrightarrow>
      conn_content s = bs @ conn_content s' \<and> length bs \<le> n \<and> conn_faulty s' = conn_faulty s"
    by (auto simp: conn_read_def conn_content_def conn_faulty_def
        dest: recv_loop_bytes ssl_loop_bytes split: if_splits prod.splits)
  show "conn_read s n = (Some [], s') \<Longrightarrow> 0 < n \<Longrightarrow> conn_content s = [] \<and> \<not> conn_faulty s"
    by (auto simp: conn_read_def conn_content_def conn_faulty_def
        dest: recv_loop_end ssl_loop_end split: if_splits prod.splits)
  show "conn_read s n = (None, s') \<Longrightarrow> conn_content s = [] \<and> conn_faulty s"
    by (auto simp: conn_read_def conn_content_def conn_faulty_def
        dest: recv_loop_error ssl_loop_error split: if_splits prod.splits)
qed

subsection \<open>The callbacks below TLS, and the timeout\<close>

text \<open>
  \<open>bio_recv\<close> and \<open>bio_send\<close>, the socket callbacks handed to \<open>mbedtls_ssl_set_bio\<close>: how one
  \<open>recv\<close>/\<open>send\<close> outcome is reported to mbedTLS.
\<close>

datatype bio_result = Bio_count nat | Bio_want_read | Bio_want_write | Bio_recv_failed | Bio_send_failed

fun bio_recv :: "recv_event \<Rightarrow> nat \<Rightarrow> bio_result" where
  "bio_recv (Recv_bytes x xs) len = Bio_count (min len (length (x # xs)))"
| "bio_recv (Recv_fail e) len =
     (if e = EAGAIN \<or> e = EWOULDBLOCK \<or> e = EINTR then Bio_want_read else Bio_recv_failed)"

fun bio_send :: "write_event \<Rightarrow> nat \<Rightarrow> bio_result" where
  "bio_send (Accepted n) len = Bio_count (min n len)"
| "bio_send (Write_fail e) len =
     (if e = EAGAIN \<or> e = EWOULDBLOCK \<or> e = EINTR then Bio_want_write else Bio_send_failed)"

text \<open>
  C34: the I/O timeout. \<open>SO_RCVTIMEO\<close> makes a stalled \<open>recv\<close> fail with \<open>EAGAIN\<close>. On a plain
  connection \<open>conn_read\<close> then reports an error at once. On a TLS connection \<open>bio_recv\<close> turns the
  timeout into \<open>WANT_READ\<close>; given that mbedTLS passes a transport's \<open>WANT_READ\<close> on to its
  caller (its documented behaviour, the hypothesis on \<open>ssl\<close>), \<open>conn_read\<close> goes round again, so
  any number of timeouts in a row is absorbed and the option \<open>-T\<close> bounds nothing.
\<close>

theorem conn_read_timeout:
  assumes "ssl Bio_want_read = Ssl_want_read"
  shows "conn_read (c\<lparr>tls := False, recvs := Recv_fail EAGAIN # es\<rparr>) n =
           (None, c\<lparr>tls := False, recvs := es\<rparr>) \<and>
         conn_read (c\<lparr>tls := True,
             ssl_reads := replicate k (ssl (bio_recv (Recv_fail EAGAIN) n)) @ rest\<rparr>) n =
           conn_read (c\<lparr>tls := True, ssl_reads := rest\<rparr>) n"
proof -
  have "ssl_read_loop (replicate k Ssl_want_read @ rest) n = ssl_read_loop rest n"
    by (induction k) simp_all
  then show ?thesis
    by (simp add: conn_read_def assms split: prod.splits)
qed

definition no_conn :: conn where
  "no_conn = \<lparr>fd = 3, tls = False, recvs = [], ssl_reads = [], sends = [], ssl_writes = [], sent = []\<rparr>"

theorem conn_read_timeout_witness:
  "conn_read (no_conn\<lparr>tls := True, ssl_reads := replicate 100 Ssl_want_read @ [Ssl_read_error]\<rparr>) 5 =
   (None, no_conn\<lparr>tls := True, ssl_reads := []\<rparr>)"
  using conn_read_timeout [where ssl = "\<lambda>r. if r = Bio_want_read then Ssl_want_read else Ssl_read_error"
      and c = no_conn and n = 5 and k = 100 and rest = "[Ssl_read_error]" and es = "[]"]
  by (simp add: conn_read_def no_conn_def)

subsection \<open>conn_write\<close>

text \<open>\<open>send\<close> until the buffer is gone; a result of 0 or less is a failure, \<open>EINTR\<close> is retried.\<close>

fun send_loop :: "write_event list \<Rightarrow> string \<Rightarrow> string \<Rightarrow> bool \<times> write_event list \<times> string" where
  "send_loop es got [] = (True, es, got)"
| "send_loop [] got (b # bs) = (True, [], got @ b # bs)"
| "send_loop (Write_fail e # es) got (b # bs) =
     (if e = EINTR then send_loop es got (b # bs) else (False, es, got))"
| "send_loop (Accepted n # es) got (b # bs) =
     (if n = 0 then (False, es, got)
      else send_loop es (got @ take n (b # bs)) (drop n (b # bs)))"

fun ssl_write_loop ::
    "ssl_write_event list \<Rightarrow> string \<Rightarrow> string \<Rightarrow> bool \<times> ssl_write_event list \<times> string" where
  "ssl_write_loop es got [] = (True, es, got)"
| "ssl_write_loop [] got (b # bs) = (True, [], got @ b # bs)"
| "ssl_write_loop (Ssl_write_want_read # es) got (b # bs) = ssl_write_loop es got (b # bs)"
| "ssl_write_loop (Ssl_write_want_write # es) got (b # bs) = ssl_write_loop es got (b # bs)"
| "ssl_write_loop (Ssl_write_error # es) got (b # bs) = (False, es, got)"
| "ssl_write_loop (Ssl_accepted n # es) got (b # bs) =
     (if n = 0 then (False, es, got)
      else ssl_write_loop es (got @ take n (b # bs)) (drop n (b # bs)))"

definition conn_write :: "conn \<Rightarrow> string \<Rightarrow> bool \<times> conn" where
  "conn_write c bs =
     (if tls c then
        (let (ok, es, got) = ssl_write_loop (ssl_writes c) (sent c) bs
         in (ok, c\<lparr>ssl_writes := es, sent := got\<rparr>))
      else
        (let (ok, es, got) = send_loop (sends c) (sent c) bs
         in (ok, c\<lparr>sends := es, sent := got\<rparr>)))"

subsection \<open>write_all\<close>

text \<open>
  The output file (or standard output). \<open>write\<close> returning 0 is not an error for this loop:
  it just goes round again.
\<close>

record outfile =
  writes :: "write_event list"
  data :: string

fun write_loop :: "write_event list \<Rightarrow> string \<Rightarrow> string \<Rightarrow> bool \<times> write_event list \<times> string" where
  "write_loop es got [] = (True, es, got)"
| "write_loop [] got (b # bs) = (True, [], got @ b # bs)"
| "write_loop (Write_fail e # es) got (b # bs) =
     (if e = EINTR then write_loop es got (b # bs) else (False, es, got))"
| "write_loop (Accepted n # es) got (b # bs) =
     write_loop es (got @ take n (b # bs)) (drop n (b # bs))"

text \<open>
  Over an endless sequence of answers the loop need not return (\<open>None\<close>): not when every
  \<open>write\<close> is interrupted or returns 0.
\<close>

partial_function (option) write_stream ::
    "(nat \<Rightarrow> write_event) \<Rightarrow> string \<Rightarrow> nat \<Rightarrow> (bool \<times> nat) option" where
  "write_stream ev bs i =
     (if bs = [] then Some (True, i)
      else case ev i of
        Write_fail e \<Rightarrow> if e = EINTR then write_stream ev bs (Suc i) else Some (False, Suc i)
      | Accepted n \<Rightarrow> write_stream ev (drop n bs) (Suc i))"

definition no_progress :: "write_event \<Rightarrow> bool" where
  "no_progress e \<longleftrightarrow> e = Write_fail EINTR \<or> e = Accepted 0"

lemma write_stream_loop:
  assumes "write_stream ev bs i = Some x"
  shows "i \<le> snd x \<and> fst (write_loop (map ev [i..<snd x]) got bs) = fst x \<and>
    (bs \<noteq> [] \<longrightarrow> (\<exists>j \<ge> i. \<not> no_progress (ev j)))"
proof (rule write_stream.raw_induct
    [where P = "\<lambda>ev bs i x. \<forall>got. i \<le> snd x \<and> fst (write_loop (map ev [i..<snd x]) got bs) = fst x \<and>
        (bs \<noteq> [] \<longrightarrow> (\<exists>j \<ge> i. \<not> no_progress (ev j)))", rule_format, OF _ assms], goal_cases)
  case (1 loop ev bs i x got)
  show ?case
  proof (cases bs)
    case Nil
    then show ?thesis using 1(2) by auto
  next
    case (Cons b bs')
    show ?thesis
    proof (cases "ev i")
      case (Accepted n)
      then have loop: "loop ev (drop n bs) (Suc i) = Some x" using 1(2) Cons by simp
      from 1(1) [OF loop, of "got @ take n bs"] show ?thesis
        using Accepted Cons by (cases n) (auto simp: upt_conv_Cons no_progress_def intro: Suc_leD)
    next
      case (Write_fail e)
      show ?thesis
      proof (cases "e = EINTR")
        case True
        then have loop: "loop ev bs (Suc i) = Some x" using 1(2) Write_fail Cons by simp
        from 1(1) [OF loop, of got] show ?thesis
          using Write_fail True Cons by (auto simp: upt_conv_Cons intro: Suc_leD)
      next
        case False
        then show ?thesis using 1(2) Write_fail Cons by (auto simp: no_progress_def)
      qed
    qed
  qed
qed

lemma write_stream_stalls: "\<forall>j \<ge> i. no_progress (ev j) \<Longrightarrow> write_stream ev bs i = None \<longleftrightarrow> bs \<noteq> []"
proof (cases "write_stream ev bs i")
  case None
  then show ?thesis by (auto simp: write_stream.simps [of ev bs i])
next
  case (Some x)
  then show "\<forall>j \<ge> i. no_progress (ev j) \<Longrightarrow> ?thesis" using write_stream_loop [OF Some] by auto
qed

lemma write_stream_ends: "\<forall>i. \<exists>j \<ge> i. \<not> no_progress (ev j) \<Longrightarrow> write_stream ev bs i \<noteq> None"
proof (induction "length bs" arbitrary: bs i rule: less_induct)
  case less
  obtain k where k: "\<not> no_progress (ev (i + k))" using less.prems le_Suc_ex by metis
  from k show ?case
  proof (induction k arbitrary: i)
    case 0
    then show ?case using less.hyps [OF _ less.prems]
      by (subst write_stream.simps) (auto simp: no_progress_def split: write_event.split)
  next
    case (Suc k)
    have "write_stream ev bs (Suc i) \<noteq> None" using Suc by simp
    moreover have "write_stream ev (drop n bs) (Suc i) \<noteq> None" if "bs \<noteq> []" "0 < n" for n
      using that by (intro less.hyps [OF _ less.prems]) simp
    ultimately show ?case
      by (subst write_stream.simps) (auto split: write_event.split, metis drop0 neq0_conv)
  qed
qed

definition write_all :: "outfile \<Rightarrow> string \<Rightarrow> bool \<times> outfile" where
  "write_all f bs =
     (let (ok, es, got) = write_loop (writes f) (data f) bs in (ok, f\<lparr>writes := es, data := got\<rparr>))"

text \<open>
  What a sequence of partial writes has delivered: the whole buffer on success, a prefix of it
  otherwise. The three loops share the argument (\<open>delivered_step\<close>).
\<close>

definition delivered :: "bool \<Rightarrow> string \<Rightarrow> string \<Rightarrow> string \<Rightarrow> bool" where
  "delivered ok got bs got' \<longleftrightarrow> (\<exists>p. prefix p bs \<and> got' = got @ p \<and> (ok \<longrightarrow> p = bs))"

lemma delivered_simps [simp]:
  "delivered True got bs (got @ bs)"
  "delivered True got [] got" "delivered False got bs got"
  by (simp_all add: delivered_def)

lemma delivered_step:
  "delivered ok (got @ take n bs) (drop n bs) got' \<Longrightarrow> delivered ok got bs got'"
  unfolding delivered_def by (metis append_assoc append_take_drop_id same_prefix_prefix)

lemma send_loop_delivers:
  "send_loop es got bs = (ok, es', got') \<Longrightarrow> delivered ok got bs got'"
  by (induction es got bs arbitrary: es' got' rule: send_loop.induct)
     (auto split: if_splits dest!: delivered_step)

lemma ssl_write_loop_delivers:
  "ssl_write_loop es got bs = (ok, es', got') \<Longrightarrow> delivered ok got bs got'"
  by (induction es got bs arbitrary: es' got' rule: ssl_write_loop.induct)
     (auto split: if_splits dest!: delivered_step)

lemma write_loop_delivers:
  "write_loop es got bs = (ok, es', got') \<Longrightarrow> delivered ok got bs got'"
  by (induction es got bs arbitrary: es' got' rule: write_loop.induct)
     (auto split: if_splits dest!: delivered_step)

lemma conn_write_delivers:
  "conn_write c bs = (ok, c') \<Longrightarrow> delivered ok (sent c) bs (sent c')"
  by (auto simp: conn_write_def split: if_splits prod.splits
      dest: send_loop_delivers ssl_write_loop_delivers)

lemma write_all_delivers:
  "write_all f bs = (ok, f') \<Longrightarrow> delivered ok (data f) bs (data f')"
  by (auto simp: write_all_def split: prod.splits dest: write_loop_delivers)

text \<open>
  A script without fatal events: the write always succeeds in the end. For \<open>conn_write\<close> a
  result of 0 is fatal, \<open>write_all\<close> retries it.
\<close>

definition conn_ready :: "conn \<Rightarrow> bool" where
  "conn_ready c \<longleftrightarrow>
     (if tls c then \<forall>e \<in> set (ssl_writes c). e \<noteq> Ssl_write_error \<and> e \<noteq> Ssl_accepted 0
      else \<forall>e \<in> set (sends c). e = Write_fail EINTR \<or> (\<exists>n. e = Accepted (Suc n)))"

definition file_ready :: "outfile \<Rightarrow> bool" where
  "file_ready f \<longleftrightarrow> (\<forall>e \<in> set (writes f). e = Write_fail EINTR \<or> (\<exists>n. e = Accepted n))"

lemma send_loop_ready:
  "send_loop es got bs = (ok, es', got') \<Longrightarrow>
   \<forall>e \<in> set es. e = Write_fail EINTR \<or> (\<exists>n. e = Accepted (Suc n)) \<Longrightarrow> ok \<and> set es' \<subseteq> set es"
  by (induction es got bs arbitrary: es' got' rule: send_loop.induct) (auto split: if_splits)

lemma ssl_write_loop_ready:
  "ssl_write_loop es got bs = (ok, es', got') \<Longrightarrow>
   \<forall>e \<in> set es. e \<noteq> Ssl_write_error \<and> e \<noteq> Ssl_accepted 0 \<Longrightarrow> ok \<and> set es' \<subseteq> set es"
  by (induction es got bs arbitrary: es' got' rule: ssl_write_loop.induct) (auto split: if_splits)

lemma write_loop_ready:
  "write_loop es got bs = (ok, es', got') \<Longrightarrow>
   \<forall>e \<in> set es. e = Write_fail EINTR \<or> (\<exists>n. e = Accepted n) \<Longrightarrow> ok \<and> set es' \<subseteq> set es"
  by (induction es got bs arbitrary: es' got' rule: write_loop.induct) (auto split: if_splits)

lemma conn_write_ready: "conn_write c bs = (ok, c') \<Longrightarrow> conn_ready c \<Longrightarrow> ok \<and> conn_ready c'"
  by (auto simp: conn_write_def conn_ready_def split: if_splits prod.splits
      dest!: send_loop_ready ssl_write_loop_ready)

lemma write_all_ready: "write_all f bs = (ok, f') \<Longrightarrow> file_ready f \<Longrightarrow> ok \<and> file_ready f'"
  by (auto simp: write_all_def file_ready_def split: prod.splits dest!: write_loop_ready)

interpretation conn_snk: byte_sink conn_write sent conn_ready
  by unfold_locales (auto dest: conn_write_delivers conn_write_ready simp: delivered_def)

interpretation file_snk: byte_sink write_all data file_ready
  by unfold_locales (auto dest: write_all_delivers write_all_ready simp: delivered_def)

text \<open>
  C30: whatever sequence of short writes, interruptions and errors the kernel answers with,
  \<open>conn_write\<close> and \<open>write_all\<close> deliver exactly the buffer when they report success and a
  prefix of it, never duplicated or reordered bytes, when they report failure.
\<close>

theorem writes_deliver_prefix:
  "(case conn_write c bs of (ok, c') \<Rightarrow> delivered ok (sent c) bs (sent c')) \<and>
   (case write_all f bs of (ok, f') \<Rightarrow> delivered ok (data f) bs (data f'))"
  by (auto dest: conn_write_delivers write_all_delivers split: prod.splits)

end
