(* ===== verification/HgetHttp.thy ===== *)
theory HgetHttp
  imports HgetIO
begin

text \<open>
  The HTTP part of \<open>board/hget/hget.c\<close>: \<open>struct resp\<close>, \<open>ci_prefix\<close>, \<open>skip_ws\<close>,
  \<open>read_headers\<close>, \<open>body_plain\<close> and \<open>body_chunked\<close>. The loops take the read and the write
  operation they call as arguments (the model's instance is \<open>conn_read\<close> and \<open>write_all\<close>) and
  are in \<open>option\<close>, \<open>None\<close> being a loop that does not end; that they end is proved.
\<close>

definition CR :: char where "CR = CHR 0x0D"
definition LF :: char where "LF = CHR 0x0A"
definition CRLF :: string where "CRLF = [CR, LF]"
definition CRLF2 :: string where "CRLF2 = [CR, LF, CR, LF]"

lemmas crlf_defs = CR_def LF_def CRLF_def CRLF2_def

text \<open>\<open>struct resp\<close>; \<open>r_length\<close> is -1 when not given.\<close>

record resp =
  r_status :: int
  r_length :: int
  r_chunked :: bool
  r_location :: string
  r_body_off :: nat
  r_body_len :: nat

definition empty_resp :: resp where
  "empty_resp = \<lparr>r_status = 0, r_length = - 1, r_chunked = False, r_location = [],
     r_body_off = 0, r_body_len = 0\<rparr>"

subsection \<open>Header lines\<close>

definition c_lower :: "char \<Rightarrow> char" where
  "c_lower c = (let n = (of_char c :: nat) in if 65 \<le> n \<and> n \<le> 90 then char_of (n + 32) else c)"

text \<open>The string's terminating NUL never matches a prefix character.\<close>

fun ci_prefix :: "string \<Rightarrow> string \<Rightarrow> bool" where
  "ci_prefix s [] = True"
| "ci_prefix [] (b # bs) = (c_lower NUL = c_lower b)"
| "ci_prefix (a # s) (b # bs) = (if c_lower a \<noteq> c_lower b then False else ci_prefix s bs)"

definition skip_ws :: "string \<Rightarrow> string" where
  "skip_ws s = dropWhile (\<lambda>c. c = CHR '' '' \<or> c = CHR 0x09) s"

definition header_line :: "string \<Rightarrow> resp \<Rightarrow> resp" where
  "header_line l r =
     (if ci_prefix l ''content-length:'' then r\<lparr>r_length := atoll (skip_ws (drop 15 l))\<rparr>
      else if ci_prefix l ''transfer-encoding:'' then
        (if find_sub ''chunked'' (skip_ws (drop 18 l)) \<noteq> None then r\<lparr>r_chunked := True\<rparr> else r)
      else if ci_prefix l ''location:'' then
        (let v = skip_ws (drop 9 l)
         in if length v < URLBUF then r\<lparr>r_location := v\<rparr> else r)
      else r)"

text \<open>The walk: \<open>s\<close> starts at the CRLF before a line; each line ends at the next CRLF.\<close>

function walk_lines :: "string \<Rightarrow> resp \<Rightarrow> resp" where
  "walk_lines s r =
     (let line = drop 2 s in
      case find_sub CRLF line of
        None \<Rightarrow> header_line line r
      | Some i \<Rightarrow> walk_lines (drop i line) (header_line (take i line) r))"
  by pat_completeness auto
termination
  by (relation "measure (\<lambda>(s, r). length s)") (auto dest!: find_sub_bound simp: CRLF_def)

declare walk_lines.simps [simp del]

text \<open>
  The parsing half of \<open>read_headers\<close>: \<open>hdr\<close> is \<open>hdrbuf\<close> up to \<open>have\<close>, \<open>e\<close> the offset of the
  blank line. The status test and \<open>strchr\<close> run before the buffer is cut at \<open>e\<close>, so they see
  all of it up to a NUL.
\<close>

definition parse_headers :: "string \<Rightarrow> nat \<Rightarrow> exit_code + resp" where
  "parse_headers hdr e =
     (let r = empty_resp\<lparr>r_body_off := e + 4, r_body_len := length hdr - (e + 4)\<rparr> in
      if \<not> has_prefix (c_str hdr) ''HTTP/'' then Inl EX_PROTO
      else (case strchr (c_str hdr) (CHR '' '') of
              None \<Rightarrow> Inl EX_PROTO
            | Some i \<Rightarrow>
                (let r = r\<lparr>r_status := atoi (drop (Suc i) (c_str hdr))\<rparr>;
                     text = c_str (take e hdr)
                 in case find_sub CRLF text of
                      None \<Rightarrow> Inr r
                    | Some j \<Rightarrow> Inr (walk_lines (drop j text) r))))"

text \<open>The reading half: fill \<open>hdrbuf\<close> until the blank line is in it.\<close>

partial_function (option) header_loop ::
    "('c \<Rightarrow> nat \<Rightarrow> string option \<times> 'c) \<Rightarrow> 'c \<Rightarrow> string \<Rightarrow>
     ((exit_code + string \<times> nat option) \<times> 'c) option" where
  "header_loop rd c have =
     (if length have < HDRBUF - 1 then
        (case find_sub CRLF2 have of
           Some e \<Rightarrow> Some (Inr (have, Some e), c)
         | None \<Rightarrow>
             (case rd c (HDRBUF - 1 - length have) of
                (r, c') \<Rightarrow>
                  (case r of
                     None \<Rightarrow> Some (Inl EX_IO, c')
                   | Some bs \<Rightarrow>
                       if bs = [] then Some (Inr (have, None), c')
                       else header_loop rd c' (have @ bs))))
      else Some (Inr (have, None), c))"

definition read_headers ::
    "('c \<Rightarrow> nat \<Rightarrow> string option \<times> 'c) \<Rightarrow> 'c \<Rightarrow> ((exit_code + string \<times> resp) \<times> 'c) option" where
  "read_headers rd c =
     (case header_loop rd c [] of
        None \<Rightarrow> None
      | Some (Inl e, c') \<Rightarrow> Some (Inl e, c')
      | Some (Inr (hdr, found), c') \<Rightarrow>
          (case (case found of Some e \<Rightarrow> Some e | None \<Rightarrow> find_sub CRLF2 hdr) of
             None \<Rightarrow> Some (Inl EX_PROTO, c')
           | Some e \<Rightarrow>
               (case parse_headers hdr e of
                  Inl x \<Rightarrow> Some (Inl x, c')
                | Inr r \<Rightarrow> Some (Inr (hdr, r), c'))))"

text \<open>The body bytes that arrived with the headers: \<open>hdrbuf + body_off\<close>, \<open>body_len\<close> of them.\<close>

definition pending :: "string \<Rightarrow> resp \<Rightarrow> string" where
  "pending hdr r = take (r_body_len r) (drop (r_body_off r) hdr)"

subsection \<open>Bodies\<close>

text \<open>\<open>body_plain\<close>: the pending bytes are written whole, then the rest is read.\<close>

partial_function (option) plain_loop ::
    "('c \<Rightarrow> nat \<Rightarrow> string option \<times> 'c) \<Rightarrow> ('o \<Rightarrow> string \<Rightarrow> bool \<times> 'o) \<Rightarrow>
     int \<Rightarrow> 'c \<Rightarrow> 'o \<Rightarrow> int \<Rightarrow> (exit_code \<times> 'c \<times> 'o \<times> int) option" where
  "plain_loop rd wr remain c out written =
     (if remain = 0 then Some (EX_OK, c, out, written)
      else
        (case rd c (if 0 < remain \<and> remain < int IOBUF then nat remain else IOBUF) of
           (r, c') \<Rightarrow>
             (case r of
                None \<Rightarrow> Some (EX_IO, c', out, written)
              | Some bs \<Rightarrow>
                  if bs = [] then Some (EX_OK, c', out, written)
                  else
                    (case wr out bs of
                       (ok, out') \<Rightarrow>
                         if \<not> ok then Some (EX_IO, c', out', written)
                         else plain_loop rd wr
                                (if 0 < remain then remain - int (length bs) else remain)
                                c' out' (written + int (length bs))))))"

definition body_plain ::
    "('c \<Rightarrow> nat \<Rightarrow> string option \<times> 'c) \<Rightarrow> ('o \<Rightarrow> string \<Rightarrow> bool \<times> 'o) \<Rightarrow>
     'c \<Rightarrow> string \<Rightarrow> resp \<Rightarrow> 'o \<Rightarrow> (exit_code \<times> 'c \<times> 'o \<times> int) option" where
  "body_plain rd wr c hdr r out =
     (let remain = r_length r in
      if r_body_len r \<noteq> 0 then
        (case wr out (pending hdr r) of
           (ok, out') \<Rightarrow>
             if \<not> ok then Some (EX_IO, c, out', 0)
             else plain_loop rd wr
                    (if 0 \<le> remain then remain - int (r_body_len r) else remain)
                    c out' (int (r_body_len r)))
      else plain_loop rd wr remain c out 0)"

text \<open>The pending bytes in front of the connection, as \<open>body_chunked\<close> consumes them.\<close>

definition buffered ::
    "('c \<Rightarrow> nat \<Rightarrow> string option \<times> 'c) \<Rightarrow> string \<times> 'c \<Rightarrow> nat \<Rightarrow> string option \<times> (string \<times> 'c)" where
  "buffered rd s n =
     (case s of (pend, c) \<Rightarrow>
        if pend \<noteq> [] then (Some (take n pend), (drop n pend, c))
        else (case rd c n of (r, c') \<Rightarrow> (r, ([], c'))))"

context byte_source
begin

lemma buffered_source:
  "byte_source (buffered rd) (\<lambda>(p, c). p @ content c) (\<lambda>(p, c). faulty c)"
proof
  fix s s' :: "string \<times> 'c" and n bs
  obtain p c where s: "s = (p, c)" by (cases s)
  obtain r c1 where rd: "rd c n = (r, c1)" by fastforce
  show "buffered rd s n = (Some bs, s') \<Longrightarrow> bs \<noteq> [] \<Longrightarrow>
      (case s of (p, c) \<Rightarrow> p @ content c) = bs @ (case s' of (p, c) \<Rightarrow> p @ content c) \<and>
      length bs \<le> n \<and> (case s' of (p, c) \<Rightarrow> faulty c) = (case s of (p, c) \<Rightarrow> faulty c)"
    using rd_bytes [of c n bs c1] rd s by (auto simp: buffered_def split: if_splits)
  show "buffered rd s n = (Some [], s') \<Longrightarrow> 0 < n \<Longrightarrow>
      (case s of (p, c) \<Rightarrow> p @ content c) = [] \<and> \<not> (case s of (p, c) \<Rightarrow> faulty c)"
    using rd_end [of c n c1] rd s by (auto simp: buffered_def split: if_splits)
  show "buffered rd s n = (None, s') \<Longrightarrow>
      (case s of (p, c) \<Rightarrow> p @ content c) = [] \<and> (case s of (p, c) \<Rightarrow> faulty c)"
    using rd_error [of c n c1] rd s by (auto simp: buffered_def split: if_splits)
qed

end

text \<open>One chunk-size line, a byte at a time; the array \<open>line\<close> has 64 bytes.\<close>

definition LINEBUF :: nat where [const_defs]: "LINEBUF = 64"

partial_function (option) chunk_line ::
    "('s \<Rightarrow> nat \<Rightarrow> string option \<times> 's) \<Rightarrow> 's \<Rightarrow> string \<Rightarrow> (string option \<times> 's) option" where
  "chunk_line rd s line =
     (case rd s 1 of
        (r, s') \<Rightarrow>
          (case r of
             None \<Rightarrow> Some (None, s')
           | Some bs \<Rightarrow>
               if bs = [] then Some (None, s')
               else if hd bs = LF then Some (Some line, s')
               else chunk_line rd s'
                      (if hd bs \<noteq> CR \<and> length line < LINEBUF - 1 then line @ [hd bs] else line)))"

partial_function (option) chunk_data ::
    "('s \<Rightarrow> nat \<Rightarrow> string option \<times> 's) \<Rightarrow> ('o \<Rightarrow> string \<Rightarrow> bool \<times> 'o) \<Rightarrow>
     int \<Rightarrow> 's \<Rightarrow> 'o \<Rightarrow> int \<Rightarrow> (exit_code \<times> 's \<times> 'o \<times> int) option" where
  "chunk_data rd wr chunk s out written =
     (if chunk \<le> 0 then Some (EX_OK, s, out, written)
      else
        (case rd s (if chunk < int IOBUF then nat chunk else IOBUF) of
           (r, s') \<Rightarrow>
             (case r of
                None \<Rightarrow> Some (EX_IO, s', out, written)
              | Some bs \<Rightarrow>
                  if bs = [] then Some (EX_IO, s', out, written)
                  else
                    (case wr out bs of
                       (ok, out') \<Rightarrow>
                         if \<not> ok then Some (EX_IO, s', out', written)
                         else chunk_data rd wr (chunk - int (length bs)) s' out'
                                (written + int (length bs))))))"

partial_function (option) chunked_loop ::
    "('s \<Rightarrow> nat \<Rightarrow> string option \<times> 's) \<Rightarrow> ('o \<Rightarrow> string \<Rightarrow> bool \<times> 'o) \<Rightarrow>
     's \<Rightarrow> 'o \<Rightarrow> int \<Rightarrow> (exit_code \<times> 's \<times> 'o \<times> int) option" where
  "chunked_loop rd wr s out written =
     Option.bind (chunk_line rd s []) (\<lambda>(l, s').
       (case l of
          None \<Rightarrow> Some (EX_IO, s', out, written)
        | Some line \<Rightarrow>
            if line = [] then chunked_loop rd wr s' out written
            else if strtol16 line \<le> 0 then Some (EX_OK, s', out, written)
            else
              Option.bind (chunk_data rd wr (strtol16 line) s' out written) (\<lambda>(rc, s'', out', written').
                if rc = EX_OK then chunked_loop rd wr s'' out' written'
                else Some (rc, s'', out', written'))))"

definition body_chunked ::
    "('c \<Rightarrow> nat \<Rightarrow> string option \<times> 'c) \<Rightarrow> ('o \<Rightarrow> string \<Rightarrow> bool \<times> 'o) \<Rightarrow>
     'c \<Rightarrow> string \<Rightarrow> resp \<Rightarrow> 'o \<Rightarrow> (exit_code \<times> (string \<times> 'c) \<times> 'o \<times> int) option" where
  "body_chunked rd wr c hdr r out = chunked_loop (buffered rd) wr (pending hdr r, c) out 0"

end
