(* ===== verification/HgetTransfer.thy ===== *)
theory HgetTransfer
  imports HgetHttp
begin

text \<open>
  Correctness of the body transfer loops of \<open>HgetHttp\<close>, proved once against the source and
  sink contracts, then read off for \<open>conn_read\<close> and \<open>write_all\<close>. The segmentation of the
  stream into reads and writes never shows in a result.
\<close>

locale transfer =
  byte_source rd content faulty + byte_sink wr logged ready
  for rd :: "'s \<Rightarrow> nat \<Rightarrow> string option \<times> 's"
    and content :: "'s \<Rightarrow> string"
    and faulty :: "'s \<Rightarrow> bool"
    and wr :: "'o \<Rightarrow> string \<Rightarrow> bool \<times> 'o"
    and logged :: "'o \<Rightarrow> string"
    and ready :: "'o \<Rightarrow> bool"

text \<open>What \<open>plain_loop\<close> owes the output: all that is left, or the first \<open>remain\<close> bytes of it.\<close>

definition wanted :: "int \<Rightarrow> string \<Rightarrow> string" where
  "wanted remain s = (if remain < 0 then s else take (nat remain) s)"

text \<open>
  The outcome of a transfer that should have delivered \<open>goal\<close>: on success exactly that was
  appended and counted, on failure (always \<open>EX_IO\<close>) a prefix of it.
\<close>

definition transferred ::
    "string \<Rightarrow> string \<Rightarrow> int \<Rightarrow> exit_code \<Rightarrow> string \<Rightarrow> int \<Rightarrow> bool" where
  "transferred goal log w rc log' w' \<longleftrightarrow>
     (\<exists>p. prefix p goal \<and> log' = log @ p \<and>
        (if rc = EX_OK then p = goal \<and> w' = w + int (length goal) else rc = EX_IO))"

lemma transferred_refl:
  "transferred [] log w EX_OK log w" "transferred goal log w EX_IO log w"
  by (auto simp: transferred_def)

lemma transferred_append:
  "transferred goal (log @ p) (w + int (length p)) rc log' w' \<Longrightarrow>
   transferred (p @ goal) log w rc log' w'"
  unfolding transferred_def by (auto intro: prefix_appendI)

lemma transferred_cut:
  "prefix p goal \<Longrightarrow> transferred goal log w EX_IO (log @ p) w'"
  by (auto simp: transferred_def)

lemma wanted_split:
  assumes "remain \<noteq> 0" and "length bs \<le> (if 0 < remain then nat remain else n)"
  shows "wanted remain (bs @ s) = bs @ wanted (if 0 < remain then remain - int (length bs) else remain) s"
  using assms by (auto simp: wanted_def nat_diff_distrib)

context transfer
begin

text \<open>One write: whole, or a failure that leaves a prefix.\<close>

lemma wr_whole: "wr out bs = (True, out') \<Longrightarrow> logged out' = logged out @ bs \<and> (ready out \<longrightarrow> ready out')"
  using wr_delivers [of out bs True out'] wr_ready [of out bs True out'] by auto

lemma wr_failed:
  assumes "wr out bs = (False, out')"
  shows "transferred (bs @ goal) (logged out) w EX_IO (logged out') w'" "\<not> ready out"
proof -
  obtain p where "prefix p bs" "logged out' = logged out @ p"
    using wr_delivers [OF assms] by blast
  then show "transferred (bs @ goal) (logged out) w EX_IO (logged out') w'"
    using transferred_cut [of p "bs @ goal"] by (simp add: prefix_prefix)
  show "\<not> ready out" using wr_ready [OF assms] by blast
qed

lemma plain_loop_result:
  "\<exists>rc c' out' w'. plain_loop rd wr remain c out w = Some (rc, c', out', w') \<and>
     transferred (wanted remain (content c)) (logged out) w rc (logged out') w' \<and>
     (rc = EX_OK \<longrightarrow>
        (if 0 \<le> remain \<and> remain \<le> int (length (content c))
         then content c = wanted remain (content c) @ content c' else \<not> faulty c)) \<and>
     (ready out \<and> (\<not> faulty c \<or> 0 \<le> remain \<and> remain \<le> int (length (content c))) \<longrightarrow> rc = EX_OK)"
proof (induction "length (content c)" arbitrary: remain c out w rule: less_induct)
  case less
  define n where "n = (if 0 < remain \<and> remain < int IOBUF then nat remain else IOBUF)"
  have n: "0 < n" "0 < remain \<Longrightarrow> n \<le> nat remain"
    by (auto simp: n_def IOBUF_def)
  obtain r c1 where rd: "rd c n = (r, c1)" by fastforce
  consider (zero) "remain = 0" | (err) "remain \<noteq> 0" "r = None" | (eof) "remain \<noteq> 0" "r = Some []"
    | (data) bs where "remain \<noteq> 0" "r = Some bs" "bs \<noteq> []"
    by (cases r) auto
  then show ?case
  proof cases
    case zero
    then show ?thesis
      by (subst plain_loop.simps) (simp add: wanted_def transferred_refl)
  next
    case err
    with rd rd_error [of c n c1] show ?thesis
      by (subst plain_loop.simps) (simp add: n_def transferred_refl)
  next
    case eof
    with rd n rd_end [of c n c1] show ?thesis
      by (subst plain_loop.simps) (simp add: n_def wanted_def transferred_refl)
  next
    case data
    let ?rem = "if 0 < remain then remain - int (length bs) else remain"
    have bs: "content c = bs @ content c1" "length bs \<le> n" "faulty c1 = faulty c"
      using rd rd_bytes [of c n bs c1] data by auto
    then have split: "wanted remain (content c) = bs @ wanted ?rem (content c1)"
      using wanted_split [OF data(1), of bs n] n by auto
    obtain ok out1 where wr: "wr out bs = (ok, out1)" by fastforce
    show ?thesis
    proof (cases ok)
      case False
      then show ?thesis
        using data rd wr split wr_failed [of out bs out1]
        by (subst plain_loop.simps) (auto simp: n_def)
    next
      case True
      then have log: "logged out1 = logged out @ bs" using wr wr_whole by simp
      have unfold: "plain_loop rd wr remain c out w =
          plain_loop rd wr ?rem c1 out1 (w + int (length bs))"
        using True data rd wr by (subst plain_loop.simps) (simp add: n_def)
      have "length (content c1) < length (content c)" using bs data by simp
      from less [OF this, of ?rem out1 "w + int (length bs)"] show ?thesis
        unfolding unfold split log
        using bs n data wr_ready [OF wr]
        by (fastforce simp: bs(1) dest: transferred_append split: if_splits)
    qed
  qed
qed

text \<open>The chunk-size line: everything up to the line feed, without the returns, cut to 63 bytes.\<close>

lemma chunk_line_result:
  assumes "content s = l @ LF # rest" and "LF \<notin> set l" and "length acc \<le> LINEBUF - 1"
  shows "\<exists>s'. chunk_line rd s acc =
      Some (Some (take (LINEBUF - 1) (acc @ filter (\<lambda>c. c \<noteq> CR) l)), s') \<and>
      content s' = rest \<and> faulty s' = faulty s"
  using assms
proof (induction l arbitrary: s acc)
  case Nil
  obtain r s1 where rd: "rd s 1 = (r, s1)" by fastforce
  with Nil rd_end [of s 1 s1] rd_error [of s 1 s1] obtain bs where "r = Some bs" "bs \<noteq> []"
    by (cases r) auto
  with rd Nil rd_bytes [of s 1 bs s1] show ?case
    by (subst chunk_line.simps) (cases bs; simp)
next
  case (Cons x l)
  obtain r s1 where rd: "rd s 1 = (r, s1)" by fastforce
  with Cons.prems rd_end [of s 1 s1] rd_error [of s 1 s1] obtain bs where bs: "r = Some bs" "bs \<noteq> []"
    by (cases r) auto
  with rd Cons.prems rd_bytes [of s 1 bs s1] have x: "bs = [x]" "content s1 = l @ LF # rest"
    "faulty s1 = faulty s"
    by (cases bs; simp)+
  let ?acc = "if x \<noteq> CR \<and> length acc < LINEBUF - 1 then acc @ [x] else acc"
  have "x \<noteq> LF" using Cons.prems by auto
  then have "chunk_line rd s acc = chunk_line rd s1 ?acc"
    using rd bs x by (subst chunk_line.simps) simp
  moreover have "take (LINEBUF - 1) (?acc @ filter (\<lambda>c. c \<noteq> CR) l) =
      take (LINEBUF - 1) (acc @ filter (\<lambda>c. c \<noteq> CR) (x # l))"
    using Cons.prems by (auto simp: take_Cons')
  ultimately show ?case
    using Cons.IH [OF x(2), of ?acc] Cons.prems x(3) by (auto split: if_splits)
qed

lemma chunk_line_total:
  "\<exists>l s'. chunk_line rd s acc = Some (l, s') \<and>
     (l \<noteq> None \<longrightarrow> length (content s') < length (content s))"
proof (induction "length (content s)" arbitrary: s acc rule: less_induct)
  case less
  obtain r s1 where rd: "rd s 1 = (r, s1)" by fastforce
  show ?case
  proof (cases "r = None \<or> r = Some []")
    case True
    with rd show ?thesis by (subst chunk_line.simps) auto
  next
    case False
    then obtain bs where bs: "r = Some bs" "bs \<noteq> []" by auto
    have shrink: "length (content s1) < length (content s)"
      using rd bs rd_shrinks by blast
    show ?thesis
    proof (cases "hd bs = LF")
      case True
      with rd bs shrink show ?thesis by (subst chunk_line.simps) simp
    next
      case False
      with rd bs less [OF shrink] shrink show ?thesis
        by (subst chunk_line.simps) (fastforce intro: less_trans)
    qed
  qed
qed

lemma chunk_data_result:
  "\<exists>rc s' out' w'. chunk_data rd wr chunk s out w = Some (rc, s', out', w') \<and>
     transferred (take (nat chunk) (content s)) (logged out) w rc (logged out') w' \<and>
     (rc = EX_OK \<longrightarrow> content s = take (nat chunk) (content s) @ content s' \<and>
        nat chunk \<le> length (content s) \<and> faulty s' = faulty s) \<and>
     (ready out \<and> nat chunk \<le> length (content s) \<longrightarrow> rc = EX_OK \<and> ready out')"
proof (induction "length (content s)" arbitrary: chunk s out w rule: less_induct)
  case less
  define n where "n = (if chunk < int IOBUF then nat chunk else IOBUF)"
  obtain r s1 where rd: "rd s n = (r, s1)" by fastforce
  consider (zero) "chunk \<le> 0" | (stop) "0 < chunk" "r = None \<or> r = Some []"
    | (data) bs where "0 < chunk" "r = Some bs" "bs \<noteq> []"
    by (cases r) fastforce+
  then show ?case
  proof cases
    case zero
    then show ?thesis by (subst chunk_data.simps) (simp add: transferred_refl)
  next
    case stop
    with rd rd_error [of s n s1] rd_end [of s n s1] show ?thesis
      by (subst chunk_data.simps) (auto simp: n_def transferred_refl IOBUF_def)
  next
    case data
    have bs: "content s = bs @ content s1" "length bs \<le> nat chunk" "faulty s1 = faulty s"
      using rd rd_bytes [of s n bs s1] data by (auto simp: n_def split: if_splits)
    let ?chunk = "chunk - int (length bs)"
    have split: "take (nat chunk) (content s) = bs @ take (nat ?chunk) (content s1)"
      using bs data by (simp add: nat_diff_distrib)
    obtain ok out1 where wr: "wr out bs = (ok, out1)" by fastforce
    show ?thesis
    proof (cases ok)
      case False
      then show ?thesis
        using data rd wr split wr_failed [of out bs out1]
        by (subst chunk_data.simps) (auto simp: n_def)
    next
      case True
      then have log: "logged out1 = logged out @ bs" using wr wr_whole by simp
      have unfold: "chunk_data rd wr chunk s out w =
          chunk_data rd wr ?chunk s1 out1 (w + int (length bs))"
        using True data rd wr by (subst chunk_data.simps) (simp add: n_def)
      have "length (content s1) < length (content s)" using bs data by simp
      from less [OF this, of ?chunk out1 "w + int (length bs)"] show ?thesis
        unfolding unfold split log using bs wr_ready [OF wr]
        by (fastforce simp: bs(1) nat_diff_distrib dest: transferred_append)
    qed
  qed
qed

lemma chunked_loop_total:
  "\<exists>rc s' out' w'. chunked_loop rd wr s out w = Some (rc, s', out', w') \<and> rc \<in> {EX_OK, EX_IO}"
proof (induction "length (content s)" arbitrary: s out w rule: less_induct)
  case less
  obtain l s1 where l: "chunk_line rd s [] = Some (l, s1)"
    "l \<noteq> None \<longrightarrow> length (content s1) < length (content s)"
    using chunk_line_total [of s "[]"] by blast
  show ?case
  proof (cases "l = None \<or> l \<noteq> Some [] \<and> strtol16 (the l) \<le> 0")
    case True
    with l(1) show ?thesis by (subst chunked_loop.simps) (auto split: option.splits)
  next
    case False
    then obtain line where line: "l = Some line" by auto
    with l have shrink: "length (content s1) < length (content s)" by simp
    obtain rc s2 out2 w2 where d: "chunk_data rd wr (strtol16 line) s1 out w = Some (rc, s2, out2, w2)"
      and post: "transferred (take (nat (strtol16 line)) (content s1)) (logged out) w rc (logged out2) w2"
        "rc = EX_OK \<longrightarrow> content s1 = take (nat (strtol16 line)) (content s1) @ content s2"
      using chunk_data_result [of "strtol16 line" s1 out w] by blast
    consider (blank) "line = []" | (fail) "line \<noteq> []" "rc = EX_IO" | (ok) "line \<noteq> []" "rc = EX_OK"
      using post(1) by (auto simp: transferred_def split: if_splits)
    then show ?thesis
    proof cases
      case blank
      with less [OF shrink, of out w] l(1) line show ?thesis
        by (subst chunked_loop.simps) simp
    next
      case fail
      with l(1) line d False show ?thesis
        by (subst chunked_loop.simps) simp
    next
      case ok
      with post(2) have "length (content s2) \<le> length (content s1)"
        by (metis le_add2 length_append)
      with shrink have "length (content s2) < length (content s)" by simp
      from less [OF this, of out2 w2] ok l(1) line d False show ?thesis
        by (subst chunked_loop.simps) simp
    qed
  qed
qed

end

end
