(* ===== verification/Numerals.thy ===== *)
theory Numerals
  imports Cstring
begin

text \<open>
  Printing numbers in a base, and the \<open>strtol\<close> family reading them back: the round trips the
  header and chunk-size parsers rest on.
\<close>

definition num_char :: "nat \<Rightarrow> char" where
  "num_char d = (if d < 10 then char_of (48 + d) else char_of (87 + d))"

fun num_of :: "nat \<Rightarrow> nat \<Rightarrow> string" where
  "num_of b n =
     (if n < b \<or> b < 2 then [num_char n] else num_of b (n div b) @ [num_char (n mod b)])"

declare num_of.simps [simp del]

abbreviation hex_of :: "nat \<Rightarrow> string" where "hex_of n \<equiv> num_of 16 n"
abbreviation dec_of :: "nat \<Rightarrow> string" where "dec_of n \<equiv> num_of 10 n"

lemma hex_digit_char [simp]: "d < 16 \<Longrightarrow> hex_digit (num_char d) = Some d"
  by (auto simp: hex_digit_def num_char_def)

lemma dec_digit_char [simp]: "d < 10 \<Longrightarrow> dec_digit (num_char d) = Some d"
  by (auto simp: dec_digit_def num_char_def)

lemma digit_not:
  "hex_digit (CHR ''x'') = None" "hex_digit (CHR ''X'') = None" "hex_digit (CHR '';'') = None"
  "hex_digit (CHR 0x0D) = None" "hex_digit (CHR 0x0A) = None" "hex_digit (CHR ''-'') = None"
  "hex_digit (CHR ''+'') = None" "hex_digit (CHR '' '') = None" "hex_digit (CHR 0x09) = None"
  "hex_digit (CHR 0x00) = None"
  by (simp_all add: hex_digit_def)

lemma dec_digit_hex: "dec_digit c \<noteq> None \<Longrightarrow> hex_digit c \<noteq> None"
  by (auto simp: dec_digit_def hex_digit_def Let_def split: if_splits)

lemma isspace_not_hex: "isspace c \<Longrightarrow> hex_digit c = None"
  by (auto simp: isspace_def hex_digit_def)

lemma num_of_nonempty: "num_of b n \<noteq> []"
  by (subst num_of.simps) simp

lemma num_of_chars: "2 \<le> b \<Longrightarrow> c \<in> set (num_of b n) \<Longrightarrow> \<exists>d < b. c = num_char d"
proof (induction b n rule: num_of.induct)
  case (1 b n)
  then show ?case
    by (subst (asm) (2) num_of.simps) (auto split: if_splits intro: exI [of _ "n mod b"])
qed

lemma num_of_hex: "2 \<le> b \<Longrightarrow> b \<le> 16 \<Longrightarrow> c \<in> set (num_of b n) \<Longrightarrow> hex_digit c \<noteq> None"
  using num_of_chars [of b c n] by auto

lemma num_of_length: "2 \<le> b \<Longrightarrow> n < b ^ Suc k \<Longrightarrow> length (num_of b n) \<le> Suc k"
proof (induction k arbitrary: n)
  case 0
  then show ?case by (subst num_of.simps) simp
next
  case (Suc k)
  show ?case
  proof (cases "n < b")
    case True
    then show ?thesis by (subst num_of.simps) simp
  next
    case False
    have "n div b < b ^ Suc k"
      using Suc.prems by (simp add: less_mult_imp_div_less mult.commute)
    with Suc False show ?thesis by (subst num_of.simps) simp
  qed
qed

lemma digits_value_num_of:
  assumes "2 \<le> b" and dig: "\<And>d. d < b \<Longrightarrow> dig (num_char d) = Some d"
  shows "digits_value dig b acc (num_of b n @ t) =
    digits_value dig b (acc * b ^ length (num_of b n) + n) t"
proof (induction n arbitrary: acc t rule: less_induct)
  case (less n)
  show ?case
  proof (cases "n < b")
    case True
    then show ?thesis using dig by (simp add: num_of.simps [of b n])
  next
    case False
    have h: "num_of b n = num_of b (n div b) @ [num_char (n mod b)]"
      using False assms(1) by (subst num_of.simps) simp
    have "n div b < n" using False assms(1) by (simp add: div_less_dividend)
    from less [OF this, of acc "num_char (n mod b) # t"]
    have "digits_value dig b acc (num_of b n @ t) =
        digits_value dig b (acc * b ^ length (num_of b (n div b)) + n div b)
          (num_char (n mod b) # t)"
      unfolding h by simp
    also have "\<dots> = digits_value dig b (acc * b ^ length (num_of b n) + n) t"
      using dig [of "n mod b"] assms(1) unfolding h by (simp add: algebra_simps)
    finally show ?thesis .
  qed
qed

text \<open>A printed number starts with a digit, so the blanks and sign the parsers skip are absent.\<close>

lemma split_sign_num_of:
  assumes "2 \<le> b" and "b \<le> 16"
  shows "split_sign (dropWhile isspace (num_of b n @ t)) = (1, num_of b n @ t)"
proof -
  obtain c cs where c: "num_of b n = c # cs" using num_of_nonempty by (cases "num_of b n") auto
  with num_of_hex [OF assms, of c n] have "hex_digit c \<noteq> None" by simp
  then have "\<not> isspace c" "c \<noteq> CHR ''-''" "c \<noteq> CHR ''+''"
    using isspace_not_hex digit_not by auto
  then show ?thesis using c by simp
qed

lemma strip_0x_hex_of:
  assumes "t = [] \<or> hd t = CHR '';''"
  shows "strip_0x (hex_of n @ t) = hex_of n @ t"
proof (cases "hex_of n @ t" rule: strip_0x.cases)
  case (1 a b c cs)
  have "b \<in> set (hex_of n) \<or> b = CHR '';''"
  proof (cases "hex_of n")
    case Nil
    then show ?thesis using num_of_nonempty by auto
  next
    case (Cons x xs)
    with 1 assms show ?thesis by (cases xs) auto
  qed
  then have "hex_digit b \<noteq> None \<or> b = CHR '';''" using num_of_hex [of 16 b n] by auto
  then have "b \<noteq> CHR ''x'' \<and> b \<noteq> CHR ''X''" using digit_not by auto
  with 1 show ?thesis by simp
qed simp_all

text \<open>\<open>strtol\<close> reads back a printed chunk size, whatever extension follows.\<close>

lemma strtol16_hex_of:
  assumes "int n \<le> INT_MAX" and "t = [] \<or> hd t = CHR '';''"
  shows "strtol16 (hex_of n @ t) = int n"
proof -
  have "digits_value hex_digit 16 0 (hex_of n @ t) = n"
    using assms(2) by (subst digits_value_num_of) (cases t; auto simp: digit_not)+
  then show ?thesis
    using assms by (simp add: strtol16_def split_sign_num_of strip_0x_hex_of INT_MIN_def)
qed

lemma strtoll10_dec_of:
  assumes "lo \<le> 0" and "int n \<le> hi" and "t = [] \<or> dec_digit (hd t) = None"
  shows "strtoll10 lo hi (dec_of n @ t) = int n"
proof -
  have "digits_value dec_digit 10 0 (dec_of n @ t) = n"
    using assms(3) by (subst digits_value_num_of) (cases t; auto)+
  then show ?thesis using assms by (simp add: strtoll10_def split_sign_num_of)
qed

lemma atoi_dec_of:
  "int n \<le> INT_MAX \<Longrightarrow> t = [] \<or> dec_digit (hd t) = None \<Longrightarrow> atoi (dec_of n @ t) = int n"
  by (simp add: atoi_def strtoll10_dec_of INT_MIN_def)

lemma atoll_dec_of:
  "int n \<le> LLONG_MAX \<Longrightarrow> t = [] \<or> dec_digit (hd t) = None \<Longrightarrow> atoll (dec_of n @ t) = int n"
  by (simp add: atoll_def strtoll10_dec_of LLONG_MIN_def)

end
