(* ===== verification/HgetChunked.thy ===== *)
theory HgetChunked
  imports HgetTransfer Numerals
begin

text \<open>
  The chunked transfer coding: an encoder for streams of chunks (sizes in hexadecimal, optional
  chunk extensions) and the proof that \<open>chunked_loop\<close> decodes every encoding, however it is
  split between the header buffer and the socket.
\<close>

subsection \<open>The encoder\<close>

text \<open>A chunk is its extension (empty, or starting with a semicolon) and its data.\<close>

definition chunk_ok :: "string \<times> string \<Rightarrow> bool" where
  "chunk_ok ch \<longleftrightarrow> (case ch of (ext, d) \<Rightarrow>
     (ext = [] \<or> hd ext = CHR '';'') \<and> CR \<notin> set ext \<and> LF \<notin> set ext \<and>
     d \<noteq> [] \<and> int (length d) \<le> INT_MAX)"

definition chunk_enc :: "string \<times> string \<Rightarrow> string" where
  "chunk_enc ch = (case ch of (ext, d) \<Rightarrow> hex_of (length d) @ ext @ CRLF @ d @ CRLF)"

definition chunked_enc :: "(string \<times> string) list \<Rightarrow> string" where
  "chunked_enc chs = concat (map chunk_enc chs) @ ''0'' @ CRLF"

definition chunks_data :: "(string \<times> string) list \<Rightarrow> string" where
  "chunks_data chs = concat (map snd chs)"

text \<open>The size line as \<open>chunk_line\<close> hands it on: cut to 63 bytes, the size still intact.\<close>

lemma size_line:
  assumes "chunk_ok (ext, d)"
  shows "\<exists>t. take (LINEBUF - 1) (filter (\<lambda>c. c \<noteq> CR) (hex_of (length d) @ ext @ [CR])) =
      hex_of (length d) @ t \<and> (t = [] \<or> hd t = CHR '';'')"
proof -
  have cr: "CR \<notin> set (hex_of (length d))" using num_of_hex [of 16 CR] digit_not by (auto simp: CR_def)
  have "int (length d) \<le> INT_MAX" using assms by (simp add: chunk_ok_def)
  then have "length d < 16 ^ Suc 7" by (simp add: INT_MAX_def)
  then have "length (hex_of (length d)) \<le> 8" using num_of_length [of 16 "length d" 7] by simp
  then have "take (LINEBUF - 1) (hex_of (length d) @ ext) =
      hex_of (length d) @ take (63 - length (hex_of (length d))) ext"
    by (simp add: LINEBUF_def)
  moreover have "filter (\<lambda>c. c \<noteq> CR) (hex_of (length d) @ ext @ [CR]) = hex_of (length d) @ ext"
    using cr assms by (simp add: chunk_ok_def filter_absent)
  moreover have "take k ext = [] \<or> hd (take k ext) = CHR '';''" for k
    using assms by (cases ext) (auto simp: chunk_ok_def take_Cons')
  ultimately show ?thesis by metis
qed

text \<open>A size line without a positive number ends the loop, whatever follows it.\<close>

definition last_line :: "string \<Rightarrow> bool" where
  "last_line l \<longleftrightarrow> LF \<notin> set l \<and> filter (\<lambda>c. c \<noteq> CR) l \<noteq> [] \<and>
     strtol16 (take (LINEBUF - 1) (filter (\<lambda>c. c \<noteq> CR) l)) \<le> 0"

lemma last_line_zero: "last_line [CHR ''0'', CR]"
proof -
  have "strtol16 ''0'' = 0" by code_simp
  then show ?thesis by (simp add: last_line_def LINEBUF_def crlf_defs)
qed

context transfer
begin

lemma chunked_loop_blank:
  assumes "content s = CRLF @ rest"
  shows "\<exists>s'. chunked_loop rd wr s out w = chunked_loop rd wr s' out w \<and>
    content s' = rest \<and> faulty s' = faulty s"
proof -
  have "content s = [CR] @ LF # rest" "LF \<notin> set [CR]"
    using assms by (simp_all add: crlf_defs)
  from chunk_line_result [OF this, of "[]"] obtain s'
    where "chunk_line rd s [] = Some (Some [], s')" "content s' = rest" "faulty s' = faulty s"
    by (auto simp: LINEBUF_def)
  then show ?thesis by (subst chunked_loop.simps) auto
qed

lemma chunked_loop_last:
  assumes "last_line l" and "content s = l @ LF # rest"
  shows "\<exists>s'. chunked_loop rd wr s out w = Some (EX_OK, s', out, w) \<and> content s' = rest"
proof -
  have "LF \<notin> set l" using assms(1) by (simp add: last_line_def)
  from chunk_line_result [OF assms(2) this, of "[]"] obtain s'
    where "chunk_line rd s [] = Some (Some (take (LINEBUF - 1) (filter (\<lambda>c. c \<noteq> CR) l)), s')"
      and "content s' = rest"
    by auto
  then show ?thesis using assms(1)
    by (subst chunked_loop.simps) (auto simp: last_line_def LINEBUF_def)
qed

lemma chunked_loop_chunk:
  assumes ok: "chunk_ok (ext, d)" and s: "content s = chunk_enc (ext, d) @ rest"
  shows "\<exists>s' out' w'. transferred d (logged out) w EX_OK (logged out') w' \<and>
      chunked_loop rd wr s out w = chunked_loop rd wr s' out' w' \<and> content s' = rest \<and>
      (ready out \<longrightarrow> ready out')
    \<or> (\<exists>s' out' w'. transferred d (logged out) w EX_IO (logged out') w' \<and>
      chunked_loop rd wr s out w = Some (EX_IO, s', out', w') \<and> \<not> ready out)"
proof -
  let ?h = "hex_of (length d)"
  have lf: "LF \<notin> set (?h @ ext @ [CR])"
    using ok num_of_hex [of 16 LF] digit_not by (auto simp: chunk_ok_def crlf_defs)
  have "content s = (?h @ ext @ [CR]) @ LF # d @ CRLF @ rest"
    using s by (simp add: chunk_enc_def CRLF_def)
  from chunk_line_result [OF this lf, of "[]"] size_line [OF ok] obtain s1 t
    where l: "chunk_line rd s [] = Some (Some (?h @ t), s1)" "t = [] \<or> hd t = CHR '';''"
      and s1: "content s1 = d @ CRLF @ rest"
    by auto
  have sz: "strtol16 (?h @ t) = int (length d)" "0 < length d"
    using ok l(2) by (simp_all add: chunk_ok_def strtol16_hex_of)
  obtain rc s2 out2 w2 where d: "chunk_data rd wr (int (length d)) s1 out w = Some (rc, s2, out2, w2)"
    and tr: "transferred d (logged out) w rc (logged out2) w2"
    and s2: "rc = EX_OK \<longrightarrow> content s2 = CRLF @ rest"
    and rdy: "ready out \<longrightarrow> rc = EX_OK \<and> ready out2"
    using chunk_data_result [of "int (length d)" s1 out w] s1 by auto
  have unfold: "chunked_loop rd wr s out w =
      (if rc = EX_OK then chunked_loop rd wr s2 out2 w2 else Some (rc, s2, out2, w2))"
    using l(1) sz d num_of_nonempty by (subst chunked_loop.simps) auto
  show ?thesis
  proof (cases "rc = EX_OK")
    case True
    with s2 chunked_loop_blank [of s2 rest out2 w2] tr unfold rdy show ?thesis by metis
  next
    case False
    then have "rc = EX_IO" using tr by (auto simp: transferred_def)
    with False tr unfold rdy show ?thesis by auto
  qed
qed

lemma chunked_loop_decodes:
  assumes "\<forall>ch \<in> set chs. chunk_ok ch" and "last_line l"
    and "content s = concat (map chunk_enc chs) @ l @ LF # rest"
  shows "\<exists>rc s' out' w'. chunked_loop rd wr s out w = Some (rc, s', out', w') \<and>
    transferred (chunks_data chs) (logged out) w rc (logged out') w' \<and>
    (rc = EX_OK \<longrightarrow> content s' = rest) \<and> (ready out \<longrightarrow> rc = EX_OK)"
  using assms
proof (induction chs arbitrary: s out w)
  case Nil
  then show ?case
    using chunked_loop_last [of l s rest out w]
    by (fastforce simp: chunks_data_def transferred_refl)
next
  case (Cons ch chs)
  obtain ext d where ch: "ch = (ext, d)" by (cases ch)
  have "content s = chunk_enc (ext, d) @ (concat (map chunk_enc chs) @ l @ LF # rest)"
    using Cons.prems ch by simp
  then consider (ok) s1 out1 w1 where "transferred d (logged out) w EX_OK (logged out1) w1"
      "chunked_loop rd wr s out w = chunked_loop rd wr s1 out1 w1"
      "content s1 = concat (map chunk_enc chs) @ l @ LF # rest" "ready out \<longrightarrow> ready out1"
    | (io) s1 out1 w1 where "transferred d (logged out) w EX_IO (logged out1) w1"
      "chunked_loop rd wr s out w = Some (EX_IO, s1, out1, w1)" "\<not> ready out"
    using chunked_loop_chunk [of ext d s "concat (map chunk_enc chs) @ l @ LF # rest" out w] Cons.prems ch by auto
  then show ?case
  proof cases
    case ok
    then show ?thesis
      using Cons.IH [of s1 out1 w1] Cons.prems
      by (fastforce simp: ch chunks_data_def transferred_def intro: prefix_appendI split: if_splits)
  next
    case io
    then show ?thesis
      by (fastforce simp: ch chunks_data_def transferred_def)
  qed
qed

end

end
