(* ===== verification/HgetHeaders.thy ===== *)
theory HgetHeaders
  imports HgetHttp Numerals
begin

text \<open>
  Correctness of \<open>read_headers\<close>: the reading half never loses or duplicates a byte, and the
  parsing half treats the header lines one by one, in order.
\<close>

subsection \<open>The blank line\<close>

lemma has_prefix_append_iff: "length p \<le> length xs \<Longrightarrow> has_prefix (xs @ ys) p = has_prefix xs p"
  by (simp add: has_prefix_def)

lemma find_sub_append:
  assumes "e + length n \<le> length xs"
  shows "find_sub n (xs @ ys) = Some e \<longleftrightarrow> find_sub n xs = Some e"
  using assms by (auto simp: find_sub_Some has_prefix_append_iff)

lemma find_sub_append_None:
  assumes "find_sub n (xs @ ys) = Some e" and "find_sub n xs = None"
  shows "length xs < e + length n"
  using assms find_sub_append [of e n xs ys] by (cases "e + length n \<le> length xs") auto

lemma find_sub_append_Some:
  assumes "find_sub n xs = Some e"
  shows "find_sub n (xs @ ys) = Some e"
  using assms find_sub_append [of e n xs ys] find_sub_bound [of n xs e] by simp

context byte_source
begin

lemma header_loop_finds:
  assumes "find_sub CRLF2 (have @ content c) = Some e" and "e + 4 \<le> HDRBUF - 1"
    and "length have \<le> HDRBUF - 1"
  shows "\<exists>hdr found c'. header_loop rd c have = Some (Inr (hdr, found), c') \<and>
    hdr @ content c' = have @ content c \<and> length hdr \<le> HDRBUF - 1 \<and>
    find_sub CRLF2 hdr = Some e \<and> (found = None \<or> found = Some e) \<and> faulty c' = faulty c"
  using assms
proof (induction "length (content c)" arbitrary: "have" c rule: less_induct)
  case less
  have len: "length CRLF2 = 4" by (simp add: crlf_defs)
  show ?case
  proof (cases "find_sub CRLF2 have")
    case (Some e')
    then have "e' = e" using find_sub_append_Some [OF Some, of "content c"] less.prems(1) by simp
    with Some less.prems show ?thesis
      by (subst header_loop.simps) auto
  next
    case None
    then have short: "length have < e + 4"
      using find_sub_append_None [OF less.prems(1)] len by simp
    then have lt: "length have < HDRBUF - 1" using less.prems(2) by simp
    have "content c \<noteq> []"
      using find_sub_bound [OF less.prems(1)] short len by auto
    moreover obtain r c1 where rd: "rd c (HDRBUF - 1 - length have) = (r, c1)" by fastforce
    ultimately obtain bs where bs: "r = Some bs" "bs \<noteq> []"
      using rd_end [of c "HDRBUF - 1 - length have" c1] rd_error [of c "HDRBUF - 1 - length have" c1] lt
        less_diff_conv [of "length have" HDRBUF 1]
      by (cases r) auto
    have c1: "content c = bs @ content c1" "length bs \<le> HDRBUF - 1 - length have"
      "faulty c1 = faulty c"
      using rd_bytes [of c _ bs c1] rd bs by auto
    have "header_loop rd c have = header_loop rd c1 (have @ bs)"
      using None lt rd bs by (subst header_loop.simps) simp
    moreover have "length (content c1) < length (content c)" using c1(1) bs(2) by simp
    ultimately show ?thesis
      using less.hyps [of c1 "have @ bs"] less.prems c1 lt by auto
  qed
qed

lemma header_loop_misses:
  assumes "\<forall>e. find_sub CRLF2 (have @ content c) = Some e \<longrightarrow> HDRBUF - 1 < e + 4"
    and "length have \<le> HDRBUF - 1"
  shows "(\<exists>hdr c'. header_loop rd c have = Some (Inr (hdr, None), c') \<and> find_sub CRLF2 hdr = None) \<or>
    (\<exists>c'. header_loop rd c have = Some (Inl EX_IO, c') \<and> faulty c)"
  using assms
proof (induction "length (content c)" arbitrary: "have" c rule: less_induct)
  case less
  have "find_sub CRLF2 have = None"
  proof (rule ccontr)
    assume "find_sub CRLF2 have \<noteq> None"
    then obtain e where e: "find_sub CRLF2 have = Some e" by auto
    then have "HDRBUF - 1 < e + 4" using less.prems(1) find_sub_append_Some by blast
    with find_sub_bound [OF e] less.prems(2) show False by (simp add: crlf_defs)
  qed
  note none = this
  show ?case
  proof (cases "length have < HDRBUF - 1")
    case False
    with none show ?thesis by (subst header_loop.simps) simp
  next
    case lt: True
    obtain r c1 where rd: "rd c (HDRBUF - 1 - length have) = (r, c1)" by fastforce
    consider "r = None" | "r = Some []" | bs where "r = Some bs" "bs \<noteq> []" by (cases r) auto
    then show ?thesis
    proof cases
      case 1
      with none lt rd rd_error [of c _ c1] show ?thesis by (subst header_loop.simps) auto
    next
      case 2
      with none lt rd show ?thesis by (subst header_loop.simps) auto
    next
      case (3 bs)
      have c1: "content c = bs @ content c1" "length bs \<le> HDRBUF - 1 - length have"
        "faulty c1 = faulty c"
        using rd_bytes [of c _ bs c1] rd 3 by auto
      have "header_loop rd c have = header_loop rd c1 (have @ bs)"
        using none lt rd 3 by (subst header_loop.simps) simp
      moreover have "length (content c1) < length (content c)" using c1(1) 3(2) by simp
      ultimately show ?thesis
        using less.hyps [of c1 "have @ bs"] less.prems c1 lt by auto
    qed
  qed
qed

end

subsection \<open>The parsed response\<close>

lemma header_line_body [simp]:
  "r_body_off (header_line l r) = r_body_off r" "r_body_len (header_line l r) = r_body_len r"
  "r_status (header_line l r) = r_status r"
  by (simp_all add: header_line_def Let_def)

lemma walk_lines_body [simp]:
  "r_body_off (walk_lines s r) = r_body_off r" "r_body_len (walk_lines s r) = r_body_len r"
  "r_status (walk_lines s r) = r_status r"
  by (induction s r rule: walk_lines.induct;
      subst walk_lines.simps; simp add: Let_def split: option.splits)+

lemma parse_headers_body:
  "parse_headers hdr e = Inr r \<Longrightarrow> r_body_off r = e + 4 \<and> r_body_len r = length hdr - (e + 4)"
  by (auto simp: parse_headers_def Let_def split: if_splits option.splits)

lemma parse_headers_error: "parse_headers hdr e = Inl x \<Longrightarrow> x = EX_PROTO"
  by (auto simp: parse_headers_def Let_def split: if_splits option.splits)

lemma pending_parse:
  "parse_headers hdr e = Inr r \<Longrightarrow> pending hdr r = drop (e + 4) hdr \<and>
     length (pending hdr r) = r_body_len r"
  by (drule parse_headers_body) (simp add: pending_def)

lemma location_fits: "length (r_location r) < URLBUF \<Longrightarrow> length (r_location (header_line l r)) < URLBUF"
  by (simp add: header_line_def Let_def)

lemma walk_lines_location:
  "length (r_location r) < URLBUF \<Longrightarrow> length (r_location (walk_lines s r)) < URLBUF"
proof (induction s r rule: walk_lines.induct)
  case (1 s r)
  then show ?case
    by (subst walk_lines.simps) (simp add: Let_def location_fits split: option.splits)
qed

lemma parse_headers_location: "parse_headers hdr e = Inr r \<Longrightarrow> length (r_location r) < URLBUF"
  by (auto simp: parse_headers_def Let_def empty_resp_def URLBUF_def
      intro!: walk_lines_location [unfolded URLBUF_def] split: if_splits option.splits)

lemma read_headers_split:
  assumes "find_sub CRLF2 (conn_content c) = Some e" and "e + 4 \<le> HDRBUF - 1"
  shows "\<exists>hdr c'. hdr @ conn_content c' = conn_content c \<and> e + 4 \<le> length hdr \<and>
    conn_faulty c' = conn_faulty c \<and>
    read_headers conn_read c =
      (case parse_headers hdr e of Inl x \<Rightarrow> Some (Inl x, c') | Inr r \<Rightarrow> Some (Inr (hdr, r), c'))"
proof -
  obtain hdr found c' where loop: "header_loop conn_read c [] = Some (Inr (hdr, found), c')"
    and hdr: "hdr @ conn_content c' = conn_content c" "find_sub CRLF2 hdr = Some e"
      "found = None \<or> found = Some e" "conn_faulty c' = conn_faulty c"
    using conn_src.header_loop_finds [of "[]" c e] assms by auto
  have len: "e + 4 \<le> length hdr" using find_sub_bound [OF hdr(2)] by (simp add: crlf_defs)
  have "(case found of Some e \<Rightarrow> Some e | None \<Rightarrow> find_sub CRLF2 hdr) = Some e"
    using hdr by (auto split: option.splits)
  then have "read_headers conn_read c =
      (case parse_headers hdr e of Inl x \<Rightarrow> Some (Inl x, c') | Inr r \<Rightarrow> Some (Inr (hdr, r), c'))"
    using loop by (simp add: read_headers_def)
  with hdr len show ?thesis by blast
qed

lemma read_headers_found:
  assumes "find_sub CRLF2 (conn_content c) = Some e" and "e + 4 \<le> HDRBUF - 1"
  shows "(\<exists>c'. read_headers conn_read c = Some (Inl EX_PROTO, c')) \<or>
    (\<exists>hdr r c'. read_headers conn_read c = Some (Inr (hdr, r), c') \<and>
       parse_headers hdr e = Inr r \<and> hdr @ conn_content c' = conn_content c \<and>
       pending hdr r @ conn_content c' = drop (e + 4) (conn_content c) \<and>
       length (pending hdr r) = r_body_len r \<and> conn_faulty c' = conn_faulty c)"
proof -
  obtain hdr c' where hdr: "hdr @ conn_content c' = conn_content c" "e + 4 \<le> length hdr"
      "conn_faulty c' = conn_faulty c"
    and rh: "read_headers conn_read c =
      (case parse_headers hdr e of Inl x \<Rightarrow> Some (Inl x, c') | Inr r \<Rightarrow> Some (Inr (hdr, r), c'))"
    using read_headers_split [OF assms] by blast
  show ?thesis
  proof (cases "parse_headers hdr e")
    case (Inl x)
    with rh parse_headers_error [OF Inl] show ?thesis by simp
  next
    case (Inr r)
    have "pending hdr r @ conn_content c' = drop (e + 4) (conn_content c)"
      using pending_parse [OF Inr] hdr(2) by (simp flip: hdr(1))
    with Inr rh hdr pending_parse [OF Inr] parse_headers_body [OF Inr] show ?thesis by simp
  qed
qed

text \<open>
  C22: nothing is lost at the header/body boundary. When the stream holds a blank line within
  the first 8191 bytes, \<open>read_headers\<close> ends, however the stream is cut into reads, and either
  rejects the response as malformed or hands on pending bytes which, followed by what is still
  to be read, are exactly the stream after the blank line.
\<close>

theorem read_headers_keeps_body:
  assumes "find_sub CRLF2 (conn_content c) = Some e" and "e + 4 \<le> HDRBUF - 1"
  shows "(\<exists>c'. read_headers conn_read c = Some (Inl EX_PROTO, c')) \<or>
    (\<exists>hdr r c'. read_headers conn_read c = Some (Inr (hdr, r), c') \<and>
       parse_headers hdr e = Inr r \<and> hdr @ conn_content c' = conn_content c \<and>
       pending hdr r @ conn_content c' = drop (e + 4) (conn_content c) \<and>
       length (pending hdr r) = r_body_len r \<and> conn_faulty c' = conn_faulty c)"
  by (rule read_headers_found [OF assms])

definition split_response :: conn where
  "split_response = no_conn\<lparr>recvs :=
     [Recv_bytes (CHR ''H'') (''TTP/1.1 200'' @ CRLF), Recv_fail EINTR, Recv_bytes CR (LF # ''body'')]\<rparr>"

lemma read_headers_keeps_body_witness:
  "(\<exists>c'. read_headers conn_read split_response = Some (Inl EX_PROTO, c')) \<or>
    (\<exists>hdr r c'. read_headers conn_read split_response = Some (Inr (hdr, r), c') \<and>
       parse_headers hdr 12 = Inr r \<and> hdr @ conn_content c' = conn_content split_response \<and>
       pending hdr r @ conn_content c' = drop (12 + 4) (conn_content split_response) \<and>
       length (pending hdr r) = r_body_len r \<and> conn_faulty c' = conn_faulty split_response)"
proof (rule read_headers_keeps_body)
  show "find_sub CRLF2 (conn_content split_response) = Some 12" by code_simp
qed (simp add: HDRBUF_def)

lemma read_headers_misses:
  assumes "find_sub CRLF2 (take (HDRBUF - 1) (conn_content c)) = None"
  shows "\<exists>x c'. read_headers conn_read c = Some (Inl x, c') \<and>
    (x = EX_PROTO \<or> x = EX_IO \<and> conn_faulty c)"
proof -
  have "HDRBUF - 1 < e + 4" if "find_sub CRLF2 ([] @ conn_content c) = Some e" for e
  proof (rule ccontr)
    assume "\<not> HDRBUF - 1 < e + 4"
    moreover have "e + 4 \<le> length (conn_content c)"
      using find_sub_bound that by (fastforce simp: crlf_defs)
    ultimately have "find_sub CRLF2 (take (HDRBUF - 1) (conn_content c)) = Some e"
      using find_sub_append [of e CRLF2 "take (HDRBUF - 1) (conn_content c)"
          "drop (HDRBUF - 1) (conn_content c)"] that by (simp add: crlf_defs)
    with assms show False by simp
  qed
  then show ?thesis
    using conn_src.header_loop_misses [of "[]" c] by (auto simp: read_headers_def)
qed

text \<open>
  A response without a blank line in its first 8191 bytes is never treated as one: the
  result is \<open>EX_PROTO\<close>, or \<open>EX_IO\<close> when the connection broke while reading.
\<close>

theorem read_headers_no_blank_line:
  assumes "find_sub CRLF2 (take (HDRBUF - 1) (conn_content c)) = None"
  shows "\<exists>x c'. read_headers conn_read c = Some (Inl x, c') \<and>
    (x = EX_PROTO \<or> x = EX_IO \<and> conn_faulty c)"
  by (rule read_headers_misses [OF assms])

definition short_response :: conn where
  "short_response = no_conn\<lparr>recvs := [Recv_bytes (CHR ''H'') ''TTP/1.1 200 OK'']\<rparr>"

lemma short_content: "conn_content short_response = ''HTTP/1.1 200 OK''"
  by code_simp

lemma read_headers_no_blank_line_witness:
  "\<exists>x c'. read_headers conn_read short_response = Some (Inl x, c') \<and>
     (x = EX_PROTO \<or> x = EX_IO \<and> conn_faulty short_response)"
proof (rule read_headers_no_blank_line)
  have "take (HDRBUF - 1) ''HTTP/1.1 200 OK'' = ''HTTP/1.1 200 OK''"
    by (rule take_all) (simp add: HDRBUF_def)
  moreover have "find_sub CRLF2 ''HTTP/1.1 200 OK'' = None" by code_simp
  ultimately show "find_sub CRLF2 (take (HDRBUF - 1) (conn_content short_response)) = None"
    by (simp only: short_content)
qed

text \<open>Whatever the peer sends, \<open>read_headers\<close> ends, with one of three outcomes.\<close>

lemma read_headers_total:
  "(\<exists>x c'. read_headers conn_read c = Some (Inl x, c') \<and> (x = EX_PROTO \<or> x = EX_IO)) \<or>
   (\<exists>hdr r c'. read_headers conn_read c = Some (Inr (hdr, r), c') \<and>
      length (pending hdr r) = r_body_len r)"
proof (cases "find_sub CRLF2 (take (HDRBUF - 1) (conn_content c))")
  case None
  then show ?thesis using read_headers_misses by blast
next
  case (Some e)
  then have "find_sub CRLF2 (conn_content c) = Some e" "e + 4 \<le> HDRBUF - 1"
    using find_sub_append_Some [of CRLF2 "take (HDRBUF - 1) (conn_content c)" e
        "drop (HDRBUF - 1) (conn_content c)"] find_sub_bound [OF Some]
    by (simp_all add: crlf_defs)
  from read_headers_found [OF this] show ?thesis by blast
qed

subsection \<open>Header lines one by one\<close>

lemma find_crlf_at: "CR \<notin> set h \<Longrightarrow> find_sub CRLF (h @ CRLF @ t) = Some (length h)"
  by (induction h) (auto simp: CRLF_def has_prefix_def)

lemma find_crlf_none: "CR \<notin> set h \<Longrightarrow> find_sub CRLF h = None"
  by (induction h) (auto simp: CRLF_def has_prefix_def)

lemma c_str_id: "NUL \<notin> set s \<Longrightarrow> c_str s = s"
  unfolding c_str_def by (rule takeWhile_eq_all_conv [THEN iffD2]) auto

lemma c_str_append: "NUL \<notin> set s \<Longrightarrow> c_str (s @ t) = s @ c_str t"
  by (induction s) (auto simp: c_str_def)

text \<open>The header section: the status line, then each header line behind a CRLF.\<close>

definition header_lines :: "string list \<Rightarrow> string" where
  "header_lines hs = concat (map (\<lambda>h. CRLF @ h) hs)"

lemma header_lines_simps [simp]:
  "header_lines [] = []" "header_lines (h # hs) = CRLF @ h @ header_lines hs"
  by (simp_all add: header_lines_def)

lemma drop_CRLF [simp]: "drop 2 (CRLF @ t) = t"
  by (simp add: CRLF_def)

lemma walk_lines_fold:
  "\<forall>x \<in> set (h # hs). CR \<notin> set x \<Longrightarrow> walk_lines (header_lines (h # hs)) r = fold header_line (h # hs) r"
proof (induction hs arbitrary: h r)
  case Nil
  then show ?case
    by (subst walk_lines.simps) (simp add: find_crlf_none del: drop_append)
next
  case (Cons h' hs)
  from find_crlf_at [of h "h' @ header_lines hs"] Cons.prems
  have "walk_lines (header_lines (h # h' # hs)) r =
      walk_lines (header_lines (h' # hs)) (header_line h r)"
    by (subst walk_lines.simps) (simp add: Let_def del: drop_append)
  with Cons show ?case by simp
qed

lemma parse_headers_lines:
  assumes "\<forall>x \<in> set (sl # hs). CR \<notin> set x \<and> NUL \<notin> set x"
    and "has_prefix sl ''HTTP/''" and "strchr sl (CHR '' '') = Some i"
  shows "parse_headers (sl @ header_lines hs @ CRLF2 @ body) (length (sl @ header_lines hs)) =
    Inr (fold header_line hs
      (empty_resp\<lparr>r_body_off := length (sl @ header_lines hs) + 4, r_body_len := length body,
        r_status := atoi (drop (Suc i) (c_str (sl @ header_lines hs @ CRLF2 @ body)))\<rparr>))"
proof -
  have nonul: "NUL \<notin> set (sl @ header_lines hs)"
    using assms(1) by (auto simp: header_lines_def crlf_defs NUL_def)
  let ?hdr = "sl @ header_lines hs @ CRLF2 @ body"
  have hdr: "c_str ?hdr = sl @ c_str (header_lines hs @ CRLF2 @ body)"
    using assms(1) by (simp add: c_str_append)
  have "has_prefix (c_str ?hdr) ''HTTP/''"
    using assms(2) has_prefix_length [OF assms(2)] by (simp add: hdr has_prefix_append_iff)
  moreover have "strchr (c_str ?hdr) (CHR '' '') = Some i"
    using assms(3) unfolding hdr by (auto simp: strchr_Some nth_append)
  moreover have "c_str (take (length (sl @ header_lines hs)) ?hdr) = sl @ header_lines hs"
    using c_str_id [OF nonul] by simp
  moreover have "find_sub CRLF (sl @ header_lines hs) = (if hs = [] then None else Some (length sl))"
    using assms(1) find_crlf_at [of sl] find_crlf_none [of sl] by (cases hs) auto
  ultimately show ?thesis
    using assms(1) walk_lines_fold [of "hd hs" "tl hs"]
    by (cases hs) (auto simp: parse_headers_def Let_def crlf_defs)
qed

text \<open>
  C29: the pointer walk over \<open>hdrbuf\<close> is a fold over the header lines. For a response whose
  lines contain no CR and no NUL, \<open>parse_headers\<close> applies \<open>header_line\<close> to each line once and
  in order, so the last of several equal headers wins and the body is never read as a header.
\<close>

theorem parse_headers_fold:
  assumes "\<forall>x \<in> set (sl # hs). CR \<notin> set x \<and> NUL \<notin> set x"
    and "has_prefix sl ''HTTP/''" and "strchr sl (CHR '' '') = Some i"
  shows "parse_headers (sl @ header_lines hs @ CRLF2 @ body) (length (sl @ header_lines hs)) =
    Inr (fold header_line hs
      (empty_resp\<lparr>r_body_off := length (sl @ header_lines hs) + 4, r_body_len := length body,
        r_status := atoi (drop (Suc i) (c_str (sl @ header_lines hs @ CRLF2 @ body)))\<rparr>))"
  using assms by (rule parse_headers_lines)

theorem parse_headers_fold_witness:
  "parse_headers (''HTTP/1.1 200 OK'' @ header_lines [''Content-Length: 5''] @ CRLF2 @ ''hello'')
     (length (''HTTP/1.1 200 OK'' @ header_lines [''Content-Length: 5''])) =
   Inr \<lparr>r_status = 200, r_length = 5, r_chunked = False, r_location = [],
        r_body_off = 38, r_body_len = 5\<rparr>"
proof (rule trans [OF parse_headers_fold [where i = 8]])
  show "\<forall>x \<in> set [''HTTP/1.1 200 OK'', ''Content-Length: 5'']. CR \<notin> set x \<and> NUL \<notin> set x"
    by code_simp
  show "has_prefix ''HTTP/1.1 200 OK'' ''HTTP/''" "strchr ''HTTP/1.1 200 OK'' (CHR '' '') = Some 8"
    by code_simp+
qed code_simp

text \<open>A status line and a \<open>Content-Length\<close> header, printed.\<close>

definition response_head :: "nat \<Rightarrow> string \<Rightarrow> nat \<Rightarrow> string" where
  "response_head status reason len =
     ''HTTP/1.1 '' @ dec_of status @ '' '' @ reason @ CRLF @ ''Content-Length: '' @ dec_of len"

lemma dec_of_clean: "CR \<notin> set (dec_of n)" "NUL \<notin> set (dec_of n)" "CHR '' '' \<notin> set (dec_of n)"
  using num_of_hex [of 10 CR n] num_of_hex [of 10 NUL n] num_of_hex [of 10 "CHR '' ''" n] digit_not
  by (auto simp: CR_def NUL_def)

lemma drop_blank_line: "drop (length t + 4) (t @ CRLF2 @ body) = body"
  by (simp add: crlf_defs)

lemma ci_prefix_append: "length p \<le> length s \<Longrightarrow> ci_prefix (s @ t) p = ci_prefix s p"
  by (induction s p rule: ci_prefix.induct) auto

text \<open>A response of a printed status line and one more header line.\<close>

lemma status_line_parsed:
  assumes "int status \<le> INT_MAX" and "CR \<notin> set reason" and "NUL \<notin> set reason"
    and "CR \<notin> set h" and "NUL \<notin> set h"
  defines "head \<equiv> (''HTTP/1.1 '' @ dec_of status @ '' '' @ reason) @ header_lines [h]"
  shows "parse_headers (head @ CRLF2 @ body) (length head) =
    Inr (header_line h (empty_resp\<lparr>r_body_off := length head + 4, r_body_len := length body,
      r_status := int status\<rparr>))"
proof -
  let ?sl = "''HTTP/1.1 '' @ dec_of status @ '' '' @ reason"
  let ?all = "?sl @ header_lines [h] @ CRLF2 @ body"
  have clean: "\<forall>x \<in> set [?sl, h]. CR \<notin> set x \<and> NUL \<notin> set x"
    using assms(2-5) dec_of_clean by (auto simp: CR_def NUL_def)
  have "has_prefix ?sl ''HTTP/''" by (simp add: has_prefix_def)
  moreover have "strchr ?sl (CHR '' '') = Some 8" by simp
  ultimately have parse: "parse_headers ?all (length (?sl @ header_lines [h])) =
      Inr (header_line h (empty_resp\<lparr>r_body_off := length (?sl @ header_lines [h]) + 4,
        r_body_len := length body, r_status := atoi (drop 9 (c_str ?all))\<rparr>))"
    using parse_headers_lines [of ?sl "[h]" 8 body] clean by simp
  have "drop 9 (c_str ?all) = dec_of status @ '' '' @ reason @ c_str (header_lines [h] @ CRLF2 @ body)"
    using clean c_str_append [of ?sl "header_lines [h] @ CRLF2 @ body"] by simp
  then have status: "atoi (drop 9 (c_str ?all)) = int status"
    using atoi_dec_of [OF assms(1)] by (simp add: dec_digit_def)
  have all: "head @ CRLF2 @ body = ?all" "length head = length (?sl @ header_lines [h])"
    by (simp_all add: head_def)
  show ?thesis unfolding all parse status ..
qed

lemma response_head_parsed:
  assumes "int status \<le> INT_MAX" and "int len \<le> LLONG_MAX"
    and "CR \<notin> set reason" and "NUL \<notin> set reason"
  shows "\<exists>r. parse_headers (response_head status reason len @ CRLF2 @ body)
        (length (response_head status reason len)) = Inr r \<and>
      r_status r = int status \<and> r_length r = int len \<and> \<not> r_chunked r \<and> r_location r = [] \<and>
      pending (response_head status reason len @ CRLF2 @ body) r = body"
proof -
  let ?sl = "''HTTP/1.1 '' @ dec_of status @ '' '' @ reason"
  let ?h = "''Content-Length: '' @ dec_of len"
  have head: "response_head status reason len = ?sl @ header_lines [?h]"
    by (simp add: response_head_def)
  have h: "CR \<notin> set ?h" "NUL \<notin> set ?h" using dec_of_clean by (auto simp: CR_def NUL_def)
  have skip: "skip_ws ('' '' @ dec_of len) = dec_of len"
    using num_of_nonempty [of 10 len] num_of_hex [of 10 "hd (dec_of len)" len] digit_not
    by (cases "dec_of len") (auto simp: skip_ws_def)
  have ci: "ci_prefix ?h ''content-length:''"
    by (subst ci_prefix_append) (simp, code_simp)
  have val: "drop 15 ?h = '' '' @ dec_of len" by simp
  have "atoll (dec_of len) = int len" using atoll_dec_of [OF assms(2), of "[]"] by simp
  then have "header_line ?h r = r\<lparr>r_length := int len\<rparr>" for r
    by (simp only: header_line_def ci if_True skip val)
  then obtain r where r: "parse_headers (response_head status reason len @ CRLF2 @ body)
        (length (response_head status reason len)) = Inr r"
    and fields: "r_status r = int status \<and> r_length r = int len \<and> \<not> r_chunked r \<and> r_location r = []"
    using status_line_parsed [OF assms(1,3,4) h, of body] by (simp add: head empty_resp_def)
  have "pending (response_head status reason len @ CRLF2 @ body) r = body"
    using pending_parse [OF r] drop_blank_line [of "response_head status reason len" body] by simp
  with r fields show ?thesis by blast
qed

text \<open>
  The fields of a response survive a round trip. A status line and a \<open>Content-Length\<close>
  header printed in decimal are read back as the same numbers.
\<close>

theorem response_head_roundtrip:
  assumes "int status \<le> INT_MAX" and "int len \<le> LLONG_MAX"
    and "CR \<notin> set reason" and "NUL \<notin> set reason"
  shows "\<exists>r. parse_headers (response_head status reason len @ CRLF2 @ body)
        (length (response_head status reason len)) = Inr r \<and>
      r_status r = int status \<and> r_length r = int len \<and> \<not> r_chunked r \<and> r_location r = [] \<and>
      pending (response_head status reason len @ CRLF2 @ body) r = body"
  by (rule response_head_parsed [OF assms])

theorem response_head_roundtrip_witness:
  "\<exists>r. parse_headers (response_head 404 ''Not Found'' 12 @ CRLF2 @ ''no such page'')
        (length (response_head 404 ''Not Found'' 12)) = Inr r \<and>
      r_status r = 404 \<and> r_length r = 12 \<and> \<not> r_chunked r \<and> r_location r = [] \<and>
      pending (response_head 404 ''Not Found'' 12 @ CRLF2 @ ''no such page'') r = ''no such page''"
  using response_head_roundtrip [of 404 12 "''Not Found''" "''no such page''"]
  by (simp add: const_defs CR_def NUL_def)

end
