(* ===== verification/HgetBody.thy ===== *)
theory HgetBody
  imports HgetChunked HgetHeaders
begin

text \<open>
  The body transfers on the model's own transport: the contracts of \<open>HgetTransfer\<close> interpreted
  for \<open>conn_read\<close> (directly, and behind the pending header bytes) and \<open>write_all\<close>, and what
  \<open>body_plain\<close> and \<open>body_chunked\<close> therefore do.
\<close>

definition buffered_content :: "string \<times> conn \<Rightarrow> string" where
  "buffered_content s = (case s of (p, c) \<Rightarrow> p @ conn_content c)"

definition buffered_faulty :: "string \<times> conn \<Rightarrow> bool" where
  "buffered_faulty s = (case s of (p, c) \<Rightarrow> conn_faulty c)"

interpretation xfer: transfer conn_read conn_content conn_faulty write_all data file_ready
  by unfold_locales

interpretation buf_src: byte_source "buffered conn_read" buffered_content buffered_faulty
  using conn_src.buffered_source unfolding buffered_content_def buffered_faulty_def .

interpretation cxfer:
  transfer "buffered conn_read" buffered_content buffered_faulty write_all data file_ready
  by unfold_locales

text \<open>
  What \<open>body_plain\<close> delivers: the pending bytes whole, then the stream up to the
  \<open>Content-Length\<close>, or to its end when there is no length or the pending bytes already exceed it.
\<close>

definition plain_goal :: "int \<Rightarrow> string \<Rightarrow> string \<Rightarrow> string" where
  "plain_goal len pend s =
     (if 0 \<le> len \<and> int (length pend) \<le> len then take (nat len) (pend @ s) else pend @ s)"

lemma plain_goal_wanted:
  "plain_goal len pend s =
     pend @ wanted (if pend \<noteq> [] \<and> 0 \<le> len then len - int (length pend) else len) s"
  by (auto simp: plain_goal_def wanted_def nat_diff_distrib)

lemma body_plain_unfold:
  assumes "length (pending hdr r) = r_body_len r"
  shows "body_plain rd wr c hdr r out =
    (if pending hdr r = [] then plain_loop rd wr (r_length r) c out 0
     else case wr out (pending hdr r) of
       (ok, out') \<Rightarrow>
         if \<not> ok then Some (EX_IO, c, out', 0)
         else plain_loop rd wr
           (if 0 \<le> r_length r then r_length r - int (length (pending hdr r)) else r_length r)
           c out' (int (length (pending hdr r))))"
  unfolding body_plain_def Let_def assms [symmetric] by simp

lemma body_plain_result:
  assumes "length (pending hdr r) = r_body_len r"
  shows "\<exists>rc c' out' w'. body_plain conn_read write_all c hdr r out = Some (rc, c', out', w') \<and>
    transferred (plain_goal (r_length r) (pending hdr r) (conn_content c)) (data out) 0 rc (data out') w' \<and>
    (file_ready out \<and> \<not> conn_faulty c \<longrightarrow> rc = EX_OK)"
proof (cases "pending hdr r = []")
  case True
  with xfer.plain_loop_result [of "r_length r" c out 0] show ?thesis
    unfolding body_plain_unfold [OF assms] plain_goal_wanted by fastforce
next
  case False
  let ?p = "pending hdr r"
  let ?rem = "if 0 \<le> r_length r then r_length r - int (length ?p) else r_length r"
  obtain ok out1 where wr: "write_all out ?p = (ok, out1)" by fastforce
  obtain q where q: "prefix q ?p" "data out1 = data out @ q" "ok \<longrightarrow> q = ?p"
    using file_snk.wr_delivers [OF wr] by blast
  have goal: "plain_goal (r_length r) ?p (conn_content c) = ?p @ wanted ?rem (conn_content c)"
    using False by (simp add: plain_goal_wanted)
  show ?thesis
  proof (cases ok)
    case False
    have "prefix q (?p @ wanted ?rem (conn_content c))"
      using q(1) prefix_order.trans prefix_refl_append by blast
    with False wr q \<open>?p \<noteq> []\<close> show ?thesis
      unfolding body_plain_unfold [OF assms] goal
      by (auto simp: transferred_cut dest: file_snk.wr_ready [OF wr])
  next
    case True
    with xfer.plain_loop_result [of ?rem c out1 "int (length ?p)"] q wr \<open>?p \<noteq> []\<close>
      file_snk.wr_ready [OF wr]
    show ?thesis
      unfolding body_plain_unfold [OF assms] goal
      by (auto dest!: transferred_append [of _ "data out" ?p 0, simplified])
  qed
qed


text \<open>
  C23: \<open>body_plain\<close> always ends; what it writes is a function of the pending bytes, the length
  header and the stream alone, not of how the stream is segmented. On success the output is
  exactly \<open>plain_goal\<close>, on failure (always \<open>EX_IO\<close>) a prefix of it, and with a working output
  and no read error it succeeds.
\<close>

theorem body_plain_correct:
  assumes "length (pending hdr r) = r_body_len r"
  shows "\<exists>rc c' out' w'. body_plain conn_read write_all c hdr r out = Some (rc, c', out', w') \<and>
    transferred (plain_goal (r_length r) (pending hdr r) (conn_content c)) (data out) 0 rc (data out') w' \<and>
    (file_ready out \<and> \<not> conn_faulty c \<longrightarrow> rc = EX_OK)"
  by (rule body_plain_result [OF assms])

lemma file_ready_empty: "file_ready \<lparr>writes = [], data = d\<rparr>"
  by (simp add: file_ready_def)

theorem body_plain_correct_witness:
  "\<exists>rc c' out' w'. body_plain conn_read write_all
       (no_conn\<lparr>recvs := [Recv_bytes (CHR ''c'') ''d'', Recv_fail EINTR, Recv_bytes (CHR ''e'') ''fg'']\<rparr>)
       ''HTTP/1.1 200 OK....ab''
       (empty_resp\<lparr>r_length := 5, r_body_off := 19, r_body_len := 2\<rparr>) \<lparr>writes = [Accepted 1], data = []\<rparr> =
     Some (rc, c', out', w') \<and> transferred ''abcde'' [] 0 rc (data out') w'"
  using body_plain_correct [of "''HTTP/1.1 200 OK....ab''"
      "empty_resp\<lparr>r_length := 5, r_body_off := 19, r_body_len := 2\<rparr>"
      "no_conn\<lparr>recvs := [Recv_bytes (CHR ''c'') ''d'', Recv_fail EINTR, Recv_bytes (CHR ''e'') ''fg'']\<rparr>"
      "\<lparr>writes = [Accepted 1], data = []\<rparr>"]
  by (fastforce simp: pending_def plain_goal_def no_conn_def conn_content_def)

text \<open>
  C32: success does not mean the announced length arrived. On a connection that closes early
  (no read error) with a working output, \<open>body_plain\<close> reports \<open>EX_OK\<close> whatever the
  \<open>Content-Length\<close>: the output is everything that came when that is less than announced, and
  all of the pending bytes and the rest of the stream when the pending bytes exceed it.
\<close>

theorem body_plain_length_unchecked:
  assumes "length (pending hdr r) = r_body_len r" and "\<not> conn_faulty c" and "file_ready out"
    and "int (length (pending hdr r @ conn_content c)) < r_length r \<or>
      0 \<le> r_length r \<and> r_length r < int (length (pending hdr r))"
  shows "\<exists>c' out' w'. body_plain conn_read write_all c hdr r out = Some (EX_OK, c', out', w') \<and>
    data out' = data out @ pending hdr r @ conn_content c \<and> w' \<noteq> r_length r"
proof -
  have "plain_goal (r_length r) (pending hdr r) (conn_content c) = pending hdr r @ conn_content c"
    using assms(4) by (auto simp: plain_goal_def)
  moreover obtain rc c' out' w' where
    "body_plain conn_read write_all c hdr r out = Some (rc, c', out', w')"
    "transferred (plain_goal (r_length r) (pending hdr r) (conn_content c)) (data out) 0 rc (data out') w'"
    "rc = EX_OK"
    using body_plain_result [OF assms(1), of c out] assms(2,3) by blast
  ultimately show ?thesis
    using assms(4) by (auto simp: transferred_def)
qed

theorem body_plain_length_unchecked_witness:
  "\<exists>c' out' w'. body_plain conn_read write_all (no_conn\<lparr>recvs := [Recv_bytes (CHR ''c'') ''d'']\<rparr>)
       ''ab'' (empty_resp\<lparr>r_length := 1000, r_body_len := 2\<rparr>) \<lparr>writes = [], data = []\<rparr> =
     Some (EX_OK, c', out', w') \<and> data out' = ''abcd'' \<and> w' \<noteq> 1000"
  using body_plain_length_unchecked [of "''ab''" "empty_resp\<lparr>r_length := 1000, r_body_len := 2\<rparr>"
      "no_conn\<lparr>recvs := [Recv_bytes (CHR ''c'') ''d'']\<rparr>" "\<lparr>writes = [], data = []\<rparr>"]
  by (simp add: pending_def no_conn_def conn_content_def conn_faulty_def file_ready_empty empty_resp_def)

lemma chunked_stream_decodes:
  assumes "\<forall>ch \<in> set chs. chunk_ok ch" and "last_line l"
    and "pending hdr r @ conn_content c = concat (map chunk_enc chs) @ l @ LF # rest"
  shows "\<exists>rc p' c' out' w'. body_chunked conn_read write_all c hdr r out = Some (rc, (p', c'), out', w') \<and>
    transferred (chunks_data chs) (data out) 0 rc (data out') w' \<and>
    (rc = EX_OK \<longrightarrow> p' @ conn_content c' = rest) \<and> (file_ready out \<longrightarrow> rc = EX_OK)"
  using cxfer.chunked_loop_decodes [OF assms(1,2), of "(pending hdr r, c)" rest out 0] assms(3)
  by (auto simp: body_chunked_def buffered_content_def)

text \<open>
  C16: round trip of the chunked coding. Any list of non-empty chunks (with or without chunk
  extensions), encoded and then cut arbitrarily into pending bytes and socket reads, is decoded
  to its data: \<open>body_chunked\<close> ends, succeeds when the output does, and leaves the bytes after
  the last size line unread.
\<close>

theorem body_chunked_roundtrip:
  assumes "\<forall>ch \<in> set chs. chunk_ok ch"
    and "pending hdr r @ conn_content c = chunked_enc chs @ rest"
  shows "\<exists>rc p' c' out' w'. body_chunked conn_read write_all c hdr r out = Some (rc, (p', c'), out', w') \<and>
    transferred (chunks_data chs) (data out) 0 rc (data out') w' \<and>
    (rc = EX_OK \<longrightarrow> p' @ conn_content c' = rest) \<and> (file_ready out \<longrightarrow> rc = EX_OK)"
  using chunked_stream_decodes [OF assms(1) last_line_zero, of hdr r c rest out] assms(2)
  by (simp add: chunked_enc_def CRLF_def)

definition demo_conn :: conn where
  "demo_conn = no_conn\<lparr>recvs :=
     [Recv_bytes (CHR ''e'') ''l'', Recv_fail EINTR, Recv_bytes (CHR ''l'') (''o'' @ CRLF @ ''0'' @ CRLF)]\<rparr>"

theorem body_chunked_roundtrip_witness:
  "\<exists>p' c' out'. body_chunked conn_read write_all demo_conn (''5;x=y'' @ CRLF @ ''h'')
       (empty_resp\<lparr>r_body_len := 8\<rparr>) \<lparr>writes = [], data = []\<rparr> =
     Some (EX_OK, (p', c'), out', 5) \<and> data out' = ''hello'' \<and> p' @ conn_content c' = []"
proof -
  have ok: "\<forall>ch \<in> set [('';x=y'', ''hello'')]. chunk_ok ch"
    by (simp add: chunk_ok_def crlf_defs INT_MAX_def)
  have "hex_of (length ''hello'') = ''5''" by code_simp
  then have enc: "pending (''5;x=y'' @ CRLF @ ''h'') (empty_resp\<lparr>r_body_len := 8\<rparr>) @ conn_content demo_conn =
      chunked_enc [('';x=y'', ''hello'')] @ []"
    by (simp add: demo_conn_def no_conn_def pending_def conn_content_def empty_resp_def crlf_defs
        chunked_enc_def chunk_enc_def)
  have d: "chunks_data [('';x=y'', ''hello'')] = ''hello''" by (simp add: chunks_data_def)
  from body_chunked_roundtrip [OF ok enc, of "\<lparr>writes = [], data = []\<rparr>"] show ?thesis
    unfolding d by (auto simp: file_ready_empty transferred_def)
qed

lemma body_chunked_total:
  "\<exists>rc s' out' w'. body_chunked conn_read write_all c hdr r out = Some (rc, s', out', w') \<and>
     rc \<in> {EX_OK, EX_IO}"
  using cxfer.chunked_loop_total [of "(pending hdr r, c)" out 0] by (simp add: body_chunked_def)

text \<open>
  C33: malformed chunked streams. On every finite input \<open>body_chunked\<close> ends, with \<open>EX_OK\<close> or
  \<open>EX_IO\<close>. After any number of well-formed chunks, a size line that holds no positive number (the
  value \<open>strtol\<close> reads at its start is at most 0: garbage, a negative number, or a real \<open>0\<close>) is
  taken for the last chunk: with a working output the result is \<open>EX_OK\<close> with exactly the data of
  the chunks before it, and everything behind that line is left unread. A line that begins with
  digits counts as their value, whatever follows them.
\<close>

theorem body_chunked_ends:
  "(\<exists>rc s' out' w'. body_chunked conn_read write_all c hdr r out = Some (rc, s', out', w') \<and>
      rc \<in> {EX_OK, EX_IO}) \<and>
   (\<forall>chs l rest. (\<forall>ch \<in> set chs. chunk_ok ch) \<and> LF \<notin> set l \<and> filter (\<lambda>x. x \<noteq> CR) l \<noteq> [] \<and>
      strtol16 (take (LINEBUF - 1) (filter (\<lambda>x. x \<noteq> CR) l)) \<le> 0 \<and>
      pending hdr r @ conn_content c = concat (map chunk_enc chs) @ l @ LF # rest \<longrightarrow>
      (\<exists>rc p' c' out' w'. body_chunked conn_read write_all c hdr r out = Some (rc, (p', c'), out', w') \<and>
         transferred (chunks_data chs) (data out) 0 rc (data out') w' \<and>
         (rc = EX_OK \<longrightarrow> p' @ conn_content c' = rest) \<and> (file_ready out \<longrightarrow> rc = EX_OK)))"
  using body_chunked_total chunked_stream_decodes [unfolded last_line_def] by blast

text \<open>One chunk, then a size line that has lost its digits: the rest of the stream is dropped.\<close>

definition cut_chunk :: conn where
  "cut_chunk = no_conn\<lparr>recvs :=
     [Recv_bytes (CHR ''5'') (CRLF @ ''hel''), Recv_bytes (CHR ''l'') (''o'' @ CRLF @ ''zz'' @ CRLF @ ''lost'')]\<rparr>"

lemma body_chunked_ends_witness:
  "\<exists>p' c' out'. body_chunked conn_read write_all cut_chunk [] empty_resp \<lparr>writes = [], data = []\<rparr> =
     Some (EX_OK, (p', c'), out', 5) \<and> data out' = ''hello'' \<and> p' @ conn_content c' = ''lost''"
proof -
  have sz: "hex_of (length ''hello'') = ''5''" by code_simp
  have "strtol16 ''zz'' = 0" by code_simp
  then have "(\<forall>ch \<in> set [([], ''hello'')]. chunk_ok ch) \<and> LF \<notin> set (''zz'' @ [CR]) \<and>
      filter (\<lambda>x. x \<noteq> CR) (''zz'' @ [CR]) \<noteq> [] \<and>
      strtol16 (take (LINEBUF - 1) (filter (\<lambda>x. x \<noteq> CR) (''zz'' @ [CR]))) \<le> 0 \<and>
      pending [] empty_resp @ conn_content cut_chunk =
        concat (map chunk_enc [([], ''hello'')]) @ (''zz'' @ [CR]) @ LF # ''lost''"
    using sz by (simp add: chunk_ok_def crlf_defs INT_MAX_def LINEBUF_def pending_def empty_resp_def
        conn_content_def cut_chunk_def no_conn_def chunk_enc_def)
  from body_chunked_ends [of cut_chunk "[]" empty_resp "\<lparr>writes = [], data = []\<rparr>",
      THEN conjunct2, rule_format, OF this]
  show ?thesis by (auto simp: file_ready_empty transferred_def chunks_data_def)
qed

end
