(* ===== verification/HgetRace.thy ===== *)
theory HgetRace
  imports HgetIO "HOL-Library.Multiset"
begin

text \<open>
  \<open>tcp_connect\<close> of \<open>board/hget/hget.c\<close>: the candidate list with alternating address families,
  the non-blocking connects, the \<open>poll\<close> race and the clean-up. The resolver and the kernel
  answer through arguments: the address list, what \<open>socket\<close>/\<open>connect\<close> return for an address,
  and the sequence of \<open>poll\<close> results.
\<close>

definition MAX_ADDRS :: nat where [const_defs]: "MAX_ADDRS = 8"

datatype family = AF_INET6 | AF_OTHER

record addrinfo =
  ai_family :: family
  ai_addr :: nat

subsection \<open>The candidate list\<close>

text \<open>The first pass: at most \<open>MAX_ADDRS\<close> addresses of each family, in resolver order.\<close>

fun collect_families ::
    "addrinfo list \<Rightarrow> addrinfo list \<Rightarrow> addrinfo list \<Rightarrow> addrinfo list \<times> addrinfo list" where
  "collect_families [] f0 f1 = (f0, f1)"
| "collect_families (a # as) f0 f1 =
     (if ai_family a = AF_INET6
      then collect_families as (if length f0 < MAX_ADDRS then f0 @ [a] else f0) f1
      else collect_families as f0 (if length f1 < MAX_ADDRS then f1 @ [a] else f1))"

text \<open>The second pass: one slot of each family at a time, up to \<open>MAX_ADDRS\<close> in all.\<close>

definition pick :: "nat \<Rightarrow> addrinfo list \<Rightarrow> addrinfo list \<Rightarrow> addrinfo list" where
  "pick slot fam sel =
     (if length sel < MAX_ADDRS \<and> slot < length fam then sel @ [fam ! slot] else sel)"

fun select_slots :: "nat list \<Rightarrow> addrinfo list \<Rightarrow> addrinfo list \<Rightarrow> addrinfo list \<Rightarrow> addrinfo list" where
  "select_slots [] f0 f1 sel = sel"
| "select_slots (slot # slots) f0 f1 sel =
     (if length sel < MAX_ADDRS
      then select_slots slots f0 f1 (pick slot f1 (pick slot f0 sel))
      else sel)"

definition candidates :: "addrinfo list \<Rightarrow> addrinfo list" where
  "candidates res =
     (case collect_families res [] [] of (f0, f1) \<Rightarrow> select_slots [0..<MAX_ADDRS] f0 f1 [])"

subsection \<open>The sockets\<close>

text \<open>
  What \<open>socket\<close> and the non-blocking \<open>connect\<close> answer for one address: no descriptor, or a
  descriptor, its initial file flags and the outcome.
\<close>

datatype connect_result = Connected | In_progress | Connect_failed

datatype start_event = No_socket | Socket int nat connect_result

text \<open>
  The descriptors: \<open>pfds\<close> are the arrays \<open>pfd\<close> and \<open>flags\<close> (descriptor, saved flags), \<open>fl\<close> the
  descriptors' current file flags, \<open>opened\<close> and \<open>closed\<close> the calls made, \<open>winner\<close> as in the code.
\<close>

record race =
  pfds :: "(int \<times> nat) list"
  fl :: "int \<Rightarrow> nat"
  opened :: "int list"
  closed :: "int list"
  winner :: int
  timeo :: "int \<Rightarrow> int option"

definition O_NONBLOCK :: nat where "O_NONBLOCK = 2048"

definition open_fd :: "int \<Rightarrow> nat \<Rightarrow> race \<Rightarrow> race" where
  "open_fd d f s = s\<lparr>opened := opened s @ [d], fl := (fl s)(d := f)\<rparr>"

definition set_nonblock :: "int \<Rightarrow> race \<Rightarrow> race" where
  "set_nonblock d s = s\<lparr>fl := (fl s)(d := or (fl s d) O_NONBLOCK)\<rparr>"

definition set_flags :: "int \<Rightarrow> nat \<Rightarrow> race \<Rightarrow> race" where
  "set_flags d f s = s\<lparr>fl := (fl s)(d := f)\<rparr>"

definition close_fd :: "int \<Rightarrow> race \<Rightarrow> race" where
  "close_fd d s = s\<lparr>closed := closed s @ [d]\<rparr>"

text \<open>The loop that starts the connects; an immediate success ends it.\<close>

fun start_loop :: "start_event list \<Rightarrow> race \<Rightarrow> race" where
  "start_loop [] s = s"
| "start_loop (No_socket # es) s =
     (if length (pfds s) < MAX_ADDRS then start_loop es s else s)"
| "start_loop (Socket d f r # es) s =
     (if length (pfds s) < MAX_ADDRS then
        (let s1 = set_nonblock d (open_fd d f s)
         in case r of
              Connected \<Rightarrow> (set_flags d f s1)\<lparr>winner := d\<rparr>
            | Connect_failed \<Rightarrow> start_loop es (close_fd d s1)
            | In_progress \<Rightarrow> start_loop es (s1\<lparr>pfds := pfds s1 @ [(d, f)]\<rparr>))
      else s)"

subsection \<open>The race\<close>

text \<open>What \<open>poll\<close> and \<open>getsockopt(SO_ERROR)\<close> say about one descriptor.\<close>

record sock_status =
  revents :: bool
  err_hup :: bool
  getsockopt_ok :: bool
  so_error :: int

datatype poll_event = Poll_fail errno | Poll_timeout | Poll_ready "int \<Rightarrow> sock_status"

text \<open>
  The scan of the ready descriptors. A failed one is closed and replaced by the last; the winner's
  slot is set to -1 so that the clean-up passes over it.
\<close>

function scan :: "(int \<Rightarrow> sock_status) \<Rightarrow> nat \<Rightarrow> race \<Rightarrow> race" where
  "scan st i s =
     (if i < length (pfds s) then
        (let (d, f) = pfds s ! i in
         if \<not> revents (st d) then scan st (Suc i) s
         else if getsockopt_ok (st d) \<and> so_error (st d) = 0 \<and> \<not> err_hup (st d) then
           (set_flags d f s)\<lparr>winner := d, pfds := (pfds s)[i := (- 1, f)]\<rparr>
         else
           scan st i ((close_fd d s)\<lparr>pfds := butlast ((pfds s)[i := last (pfds s)])\<rparr>))
      else s)"
  by pat_completeness auto
termination
  by (relation "measure (\<lambda>(st, i, s). length (pfds s) - i)") auto

declare scan.simps [simp del]

text \<open>The poll loop; a script that has run out keeps timing out. \<open>deadline\<close> is in ms.\<close>

function race_loop :: "poll_event list \<Rightarrow> int \<Rightarrow> race \<Rightarrow> race" where
  "race_loop es deadline s =
     (if winner s < 0 \<and> pfds s \<noteq> [] \<and> 0 < deadline then
        (let slice = (if 1000 < deadline then 1000 else deadline);
             deadline' = deadline - slice
         in case es of
              [] \<Rightarrow> race_loop [] deadline' s
            | Poll_fail e # es' \<Rightarrow> if e = EINTR then race_loop es' deadline' s else s
            | Poll_timeout # es' \<Rightarrow> race_loop es' deadline' s
            | Poll_ready st # es' \<Rightarrow> race_loop es' deadline' (scan st 0 s))
      else s)"
  by pat_completeness auto
termination
  by (relation "measure (\<lambda>(es, deadline, s). nat deadline)") auto

declare race_loop.simps [simp del]

text \<open>The clean-up closes every descriptor of the race but the winner.\<close>

fun close_losers :: "(int \<times> nat) list \<Rightarrow> race \<Rightarrow> race" where
  "close_losers [] s = s"
| "close_losers ((d, f) # ps) s =
     close_losers ps (if 0 \<le> d \<and> d \<noteq> winner s then close_fd d s else s)"

text \<open>\<open>(long)opt_timeout * 1000\<close> in the 32-bit \<open>long\<close> of the target.\<close>

definition deadline_ms :: "int \<Rightarrow> int" where
  "deadline_ms timeout = signed_take_bit 31 (timeout * 1000)"

definition init_race :: race where
  "init_race =
     \<lparr>pfds = [], fl = (\<lambda>_. 0), opened = [], closed = [], winner = - 1, timeo = (\<lambda>_. None)\<rparr>"

text \<open>
  \<open>tcp_connect\<close>: \<open>None\<close> for the address list is a resolver error. The result is the exit code or
  the connected descriptor, and the descriptors' final state.
\<close>

definition start_events :: "(nat \<Rightarrow> addrinfo \<Rightarrow> start_event) \<Rightarrow> addrinfo list \<Rightarrow> start_event list" where
  "start_events start sel = map (\<lambda>(i, a). start i a) (enumerate 0 sel)"

definition tcp_connect ::
    "int \<Rightarrow> addrinfo list option \<Rightarrow> (nat \<Rightarrow> addrinfo \<Rightarrow> start_event) \<Rightarrow> poll_event list \<Rightarrow>
     (exit_code + int) \<times> race" where
  "tcp_connect timeout resolved start polls =
     (case resolved of
        None \<Rightarrow> (Inl EX_RESOLVE, init_race)
      | Some res \<Rightarrow>
          (let s1 = start_loop (start_events start (candidates res)) init_race;
               s2 = race_loop polls (deadline_ms timeout) s1;
               s3 = close_losers (pfds s2) s2
           in if winner s3 < 0 then (Inl EX_CONNECT, s3)
              else (Inr (winner s3), s3\<lparr>timeo := (timeo s3)(winner s3 := Some timeout)\<rparr>)))"

subsection \<open>Fairness of the candidate list\<close>

definition slot_of :: "addrinfo list \<Rightarrow> addrinfo list \<Rightarrow> nat \<Rightarrow> addrinfo list" where
  "slot_of f0 f1 k = (if k < length f0 then [f0 ! k] else []) @ (if k < length f1 then [f1 ! k] else [])"

lemma collect_families_result:
  "collect_families res f0 f1 =
     (f0 @ take (MAX_ADDRS - length f0) (filter (\<lambda>a. ai_family a = AF_INET6) res),
      f1 @ take (MAX_ADDRS - length f1) (filter (\<lambda>a. ai_family a \<noteq> AF_INET6) res))"
  by (induction res arbitrary: f0 f1) (auto simp: take_Cons' Suc_diff_Suc)

lemma pick_take:
  "pick slot f1 (pick slot f0 (take MAX_ADDRS sel)) = take MAX_ADDRS (sel @ slot_of f0 f1 slot)"
  by (auto simp: pick_def slot_of_def take_Cons' not_less Suc_diff_Suc)

lemma select_slots_take:
  "select_slots slots f0 f1 (take MAX_ADDRS sel) =
     take MAX_ADDRS (sel @ concat (map (slot_of f0 f1) slots))"
proof (induction slots arbitrary: sel)
  case Nil
  then show ?case by simp
next
  case (Cons k slots)
  show ?case
  proof (cases "length sel < MAX_ADDRS")
    case True
    then show ?thesis
      using Cons.IH [of "sel @ slot_of f0 f1 k"] pick_take [of k f1 f0 sel] by simp
  qed simp
qed

lemma candidates_slots:
  "candidates res = take MAX_ADDRS (concat (map
     (slot_of (take MAX_ADDRS (filter (\<lambda>a. ai_family a = AF_INET6) res))
              (take MAX_ADDRS (filter (\<lambda>a. ai_family a \<noteq> AF_INET6) res))) [0..<MAX_ADDRS]))"
  using select_slots_take [of "[0..<MAX_ADDRS]" _ _ "[]"]
  by (simp add: candidates_def collect_families_result)

lemma concat_slots_length: "length (concat (map (slot_of f0 f1) ks)) \<le> 2 * length ks"
  by (induction ks) (auto simp: slot_of_def)

lemma mset_take_Suc:
  "mset (take (Suc k) xs) = mset (take k xs) + mset (if k < length xs then [xs ! k] else [])"
  by (simp add: take_Suc_conv_app_nth)

lemma slots_mset: "mset (concat (map (slot_of f0 f1) [0..<k])) = mset (take k f0) + mset (take k f1)"
proof (induction k)
  case (Suc k)
  then show ?case
    using mset_take_Suc [of k f0] mset_take_Suc [of k f1] by (simp add: slot_of_def)
qed simp

text \<open>
  C26: the cap never starves a family. The candidates are drawn from the resolver's list without
  repetition, as many as there are up to \<open>MAX_ADDRS\<close>, and the first four addresses of each
  family are always among them.
\<close>

theorem candidates_fair:
  "mset (candidates res) \<subseteq># mset res \<and>
   length (candidates res) = min MAX_ADDRS (length res) \<and>
   set (take 4 (filter (\<lambda>a. ai_family a = AF_INET6) res)) \<subseteq> set (candidates res) \<and>
   set (take 4 (filter (\<lambda>a. ai_family a \<noteq> AF_INET6) res)) \<subseteq> set (candidates res)"
proof -
  let ?F = "filter (\<lambda>a. ai_family a = AF_INET6) res"
  let ?G = "filter (\<lambda>a. ai_family a \<noteq> AF_INET6) res"
  let ?slots = "\<lambda>ks. concat (map (slot_of (take MAX_ADDRS ?F) (take MAX_ADDRS ?G)) ks)"
  let ?all = "?slots [0..<MAX_ADDRS]"
  have cand: "candidates res = take MAX_ADDRS ?all" by (rule candidates_slots)
  have all: "mset ?all = mset (take MAX_ADDRS ?F) + mset (take MAX_ADDRS ?G)"
    by (simp add: slots_mset)
  have res: "mset res = mset ?F + mset ?G" by (simp add: multiset_partition)
  have sub: "mset (take n xs) \<subseteq># mset xs" for n and xs :: "addrinfo list"
    by (metis append_take_drop_id mset_append mset_subset_eq_add_left)
  have "mset (candidates res) \<subseteq># mset ?all" unfolding cand by (rule sub)
  moreover have "mset ?all \<subseteq># mset res"
    unfolding all res by (intro subset_mset.add_mono sub)
  moreover have "length ?all = min MAX_ADDRS (length ?F) + min MAX_ADDRS (length ?G)"
    using arg_cong [OF all, of size]
    by (simp only: size_mset size_union length_take min.commute)
  moreover have "length res = length ?F + length ?G" by (simp add: sum_length_filter_compl)
  moreover have "set (?slots [0..<4]) \<subseteq> set (candidates res)"
  proof -
    have "?all = ?slots [0..<4] @ ?slots [4..<MAX_ADDRS]"
      unfolding concat_append [symmetric] map_append [symmetric]
      by (simp add: upt_add_eq_append [of 0 4 4, simplified] MAX_ADDRS_def del: upt_Suc)
    moreover have "length (?slots [0..<4]) \<le> MAX_ADDRS"
      using concat_slots_length [of _ _ "[0..<4]"] by (simp add: MAX_ADDRS_def)
    ultimately show ?thesis unfolding cand by simp
  qed
  moreover have "set (?slots [0..<4]) = set (take 4 ?F) \<union> set (take 4 ?G)"
    using arg_cong [OF slots_mset [of "take MAX_ADDRS ?F" "take MAX_ADDRS ?G" 4], of set_mset]
    by (simp add: MAX_ADDRS_def)
  ultimately show ?thesis
    using subset_mset.order_trans by (auto simp: cand)
qed

subsection \<open>The accounting of descriptors\<close>

text \<open>
  The kernel's side of the contract: a new socket gets a non-negative descriptor that is not open
  (descriptors closed after a failed connect may come back).
\<close>

fun fresh_fds :: "int list \<Rightarrow> start_event list \<Rightarrow> bool" where
  "fresh_fds opn [] = True"
| "fresh_fds opn (No_socket # es) = fresh_fds opn es"
| "fresh_fds opn (Socket d f r # es) =
     (0 \<le> d \<and> d \<notin> set opn \<and> fresh_fds (if r = Connect_failed then opn else opn @ [d]) es)"

definition racing :: "start_event list \<Rightarrow> race \<Rightarrow> bool" where
  "racing es s =
     (winner s < 0 \<and> mset (opened s) = mset (closed s) + mset (map fst (pfds s)) \<and>
      distinct (map fst (pfds s)) \<and>
      (\<forall>p \<in> set (pfds s). 0 \<le> fst p \<and> (\<exists>r. Socket (fst p) (snd p) r \<in> set es)))"

definition won :: "start_event list \<Rightarrow> race \<Rightarrow> bool" where
  "won es s =
     (0 \<le> winner s \<and>
      mset (opened s) = add_mset (winner s) (mset (closed s) + mset (filter (\<lambda>d. 0 \<le> d) (map fst (pfds s)))) \<and>
      winner s \<notin> fst ` set (pfds s) \<and> (\<exists>r. Socket (winner s) (fl s (winner s)) r \<in> set es))"

lemmas race_steps = open_fd_def set_nonblock_def set_flags_def close_fd_def

lemma racing_init: "racing es init_race"
  by (simp add: racing_def init_race_def)

lemma racing_nonneg: "racing es s \<Longrightarrow> filter (\<lambda>d. 0 \<le> d) (map fst (pfds s)) = map fst (pfds s)"
  by (auto simp: racing_def filter_id_conv)

lemma start_loop_inv:
  "racing all s \<Longrightarrow> fresh_fds (map fst (pfds s)) es \<Longrightarrow> set es \<subseteq> set all \<Longrightarrow>
     racing all (start_loop es s) \<or> won all (start_loop es s)"
proof (induction es s rule: start_loop.induct)
  case (3 d f r es s)
  show ?case
  proof (cases r)
    case Connected
    then show ?thesis
      using "3.prems" racing_nonneg [OF "3.prems" (1)]
      by (auto simp: won_def racing_def race_steps simp del: mset_map mset_filter)
  next
    case In_progress
    let ?s = "set_nonblock d (open_fd d f s)"
    have "racing all (?s\<lparr>pfds := pfds ?s @ [(d, f)]\<rparr>)"
      using "3.prems" by (auto simp: racing_def race_steps)
    then show ?thesis
      using In_progress "3.prems" "3.IH" (1)
      by (auto simp: race_steps Let_def)
  next
    case Connect_failed
    let ?s = "set_nonblock d (open_fd d f s)"
    have "racing all (close_fd d ?s)"
      using "3.prems" by (auto simp: racing_def race_steps)
    then show ?thesis
      using Connect_failed "3.prems" "3.IH" (2)
      by (auto simp: race_steps Let_def)
  qed
qed auto

definition drop_slot :: "nat \<Rightarrow> 'a list \<Rightarrow> 'a list" where
  "drop_slot i xs = butlast (xs[i := last xs])"

lemma drop_slot_Cons:
  assumes "i < length xs"
  shows "mset xs = add_mset (xs ! i) (mset (drop_slot i xs))"
    and "mset (drop i xs) = add_mset (xs ! i) (mset (drop i (drop_slot i xs)))"
    and "take i (drop_slot i xs) = take i xs"
proof -
  obtain as b cs where xs: "xs = as @ b # cs" and i: "i = length as"
    using id_take_nth_drop [OF assms] assms by (metis length_take min.absorb4)
  show "mset xs = add_mset (xs ! i) (mset (drop_slot i xs))"
    and "mset (drop i xs) = add_mset (xs ! i) (mset (drop i (drop_slot i xs)))"
    and "take i (drop_slot i xs) = take i xs"
    unfolding xs i drop_slot_def
    by (cases cs rule: rev_cases; simp add: butlast_append list_update_append)+
qed

lemma scan_step:
  assumes "i < length (pfds s)" "pfds s ! i = (d, f)"
  shows "\<not> revents (st d) \<Longrightarrow> scan st i s = scan st (Suc i) s"
    and "revents (st d) \<Longrightarrow> getsockopt_ok (st d) \<and> so_error (st d) = 0 \<and> \<not> err_hup (st d) \<Longrightarrow>
      scan st i s = (set_flags d f s)\<lparr>winner := d, pfds := (pfds s)[i := (- 1, f)]\<rparr>"
    and "revents (st d) \<Longrightarrow> \<not> (getsockopt_ok (st d) \<and> so_error (st d) = 0 \<and> \<not> err_hup (st d)) \<Longrightarrow>
      scan st i s = scan st i ((close_fd d s)\<lparr>pfds := drop_slot i (pfds s)\<rparr>)"
  using assms by (subst scan.simps; auto simp: drop_slot_def)+

lemma racing_drop:
  assumes "racing all s" "i < length (pfds s)" "pfds s ! i = (d, f)"
  shows "racing all ((close_fd d s)\<lparr>pfds := drop_slot i (pfds s)\<rparr>)"
proof -
  have m: "mset (pfds s) = add_mset (d, f) (mset (drop_slot i (pfds s)))"
    using drop_slot_Cons (1) [OF assms (2)] assms (3) by simp
  have "mset (map fst (pfds s)) = mset (d # map fst (drop_slot i (pfds s)))"
    using m by simp
  then have "distinct (d # map fst (drop_slot i (pfds s)))"
    using assms (1) mset_eq_imp_distinct_iff by (fastforce simp: racing_def)
  moreover have "set (drop_slot i (pfds s)) \<subseteq> set (pfds s)"
    using arg_cong [OF m, of set_mset] by auto
  ultimately show ?thesis
    using assms (1) m by (auto simp: racing_def close_fd_def)
qed

lemma racing_win:
  assumes "racing all s" "i < length (pfds s)" "pfds s ! i = (d, f)"
  shows "won all ((set_flags d f s)\<lparr>winner := d, pfds := (pfds s)[i := (- 1, f)]\<rparr>)"
proof -
  obtain as cs where s: "pfds s = as @ (d, f) # cs" and i: "i = length as"
    using id_take_nth_drop [OF assms (2)] assms (2, 3) by (metis length_take min.absorb4)
  have "filter (\<lambda>d. 0 \<le> d) (map fst as) = map fst as" "filter (\<lambda>d. 0 \<le> d) (map fst cs) = map fst cs"
    using assms (1) by (auto simp: racing_def s filter_id_conv)
  then show ?thesis
    using assms (1)
    by (auto simp: won_def racing_def s i race_steps simp del: mset_map mset_filter)
qed

lemma scan_inv: "racing all s \<Longrightarrow> racing all (scan st i s) \<or> won all (scan st i s)"
proof (induction st i s rule: scan.induct)
  case (1 st i s)
  show ?case
  proof (cases "i < length (pfds s)")
    case True
    obtain d f where p: "pfds s ! i = (d, f)" by fastforce
    consider "\<not> revents (st d)"
      | "revents (st d)" "getsockopt_ok (st d) \<and> so_error (st d) = 0 \<and> \<not> err_hup (st d)"
      | "revents (st d)" "\<not> (getsockopt_ok (st d) \<and> so_error (st d) = 0 \<and> \<not> err_hup (st d))"
      by blast
    then show ?thesis
    proof cases
      case 1
      then show ?thesis using "1.IH" (1) [OF True p [symmetric] refl] "1.prems"
        by (simp add: scan_step [OF True p])
    next
      case 2
      then show ?thesis using racing_win [OF "1.prems" True p]
        by (simp add: scan_step (2) [OF True p])
    next
      case 3
      then show ?thesis
        using "1.IH" (2) [OF True p [symmetric] refl] racing_drop [OF "1.prems" True p]
        by (simp add: scan_step (3) [OF True p] drop_slot_def)
    qed
  next
    case False
    then show ?thesis using "1.prems" by (subst (1 2) scan.simps) simp
  qed
qed

lemma won_winner: "won es s \<Longrightarrow> 0 \<le> winner s"
  by (simp add: won_def)

lemma race_loop_stop: "\<not> (winner s < 0 \<and> pfds s \<noteq> [] \<and> 0 < dl) \<Longrightarrow> race_loop es dl s = s"
  by (subst race_loop.simps) (simp only: if_False)

lemma race_loop_won: "0 \<le> winner s \<Longrightarrow> race_loop es dl s = s"
  by (subst race_loop.simps) simp

lemma race_loop_inv:
  "racing all s \<Longrightarrow> racing all (race_loop es dl s) \<or> won all (race_loop es dl s)"
proof (induction es dl s rule: race_loop.induct)
  case (1 es dl s)
  show ?case
  proof (cases "winner s < 0 \<and> pfds s \<noteq> [] \<and> 0 < dl")
    case True
    note loop = race_loop.simps [of es dl s, unfolded if_P [OF True] Let_def]
    show ?thesis
    proof (cases es)
      case (Cons e es')
      show ?thesis
      proof (cases e)
        case (Poll_ready st)
        from scan_inv [OF "1.prems", of st 0] show ?thesis
        proof
          assume "won all (scan st 0 s)"
          then show ?thesis
            using loop by (simp add: Cons Poll_ready race_loop_won [OF won_winner])
        next
          assume "racing all (scan st 0 s)"
          from "1.IH" (4) [OF True refl refl Cons Poll_ready this] show ?thesis
            using loop by (simp add: Cons Poll_ready)
        qed
      qed (use "1.IH" "1.prems" True Cons loop in \<open>auto simp: Let_def\<close>)
    qed (use "1.IH" "1.prems" True loop in \<open>auto simp: Let_def\<close>)
  next
    case False
    then show ?thesis using "1.prems" by (simp add: race_loop_stop)
  qed
qed

lemma close_losers_result:
  "close_losers ps s =
     s\<lparr>closed := closed s @ filter (\<lambda>d. 0 \<le> d \<and> d \<noteq> winner s) (map fst ps)\<rparr>"
  by (induction ps arbitrary: s) (auto simp: close_fd_def)

text \<open>What a closed race leaves: every descriptor but the winner's is closed, once.\<close>

lemma close_losers_settled:
  assumes "racing es s \<or> won es s"
  defines "t \<equiv> close_losers (pfds s) s"
  shows "mset (opened t) = mset (closed t) + (if 0 \<le> winner t then {#winner t#} else {#})"
    and "0 \<le> winner t \<Longrightarrow> \<exists>r. Socket (winner t) (fl t (winner t)) r \<in> set es"
proof -
  have *: "filter (\<lambda>d. 0 \<le> d \<and> d \<noteq> winner s) (map fst (pfds s)) = filter (\<lambda>d. 0 \<le> d) (map fst (pfds s))"
    using assms (1) by (auto intro!: filter_cong simp: racing_def won_def)
  show "mset (opened t) = mset (closed t) + (if 0 \<le> winner t then {#winner t#} else {#})"
    using assms (1) racing_nonneg [of es s]
    by (auto simp: t_def close_losers_result * racing_def won_def simp del: mset_map mset_filter)
  show "0 \<le> winner t \<Longrightarrow> \<exists>r. Socket (winner t) (fl t (winner t)) r \<in> set es"
    using assms (1) by (auto simp: t_def close_losers_result racing_def won_def)
qed

lemma tcp_connect_settled:
  assumes "\<And>res. resolved = Some res \<Longrightarrow> fresh_fds [] (start_events start (candidates res))"
  shows "case tcp_connect timeout resolved start polls of
           (Inl e, s) \<Rightarrow> mset (opened s) = mset (closed s) \<and>
                        e = (if resolved = None then EX_RESOLVE else EX_CONNECT)
         | (Inr d, s) \<Rightarrow> 0 \<le> d \<and> mset (opened s) = add_mset d (mset (closed s)) \<and>
                        timeo s d = Some timeout \<and>
                        (\<exists>res f r. resolved = Some res \<and> fl s d = f \<and>
                           Socket d f r \<in> set (start_events start (candidates res)))"
proof (cases resolved)
  case None
  then show ?thesis by (simp add: tcp_connect_def init_race_def)
next
  case (Some res)
  let ?es = "start_events start (candidates res)"
  let ?s = "race_loop polls (deadline_ms timeout) (start_loop ?es init_race)"
  have "racing ?es (start_loop ?es init_race) \<or> won ?es (start_loop ?es init_race)"
    using start_loop_inv [OF racing_init] assms [OF Some] by (simp add: init_race_def)
  then have "racing ?es ?s \<or> won ?es ?s"
    using race_loop_inv race_loop_won [OF won_winner] by metis
  from close_losers_settled [OF this] show ?thesis
    by (auto simp: tcp_connect_def Some Let_def split: if_splits)
qed

text \<open>
  C24: no descriptor leaks, whatever the resolver, the kernel and \<open>poll\<close> answer. Every socket
  opened for the race is closed exactly once, the winner excepted; the winner keeps the file flags
  it was created with and gets both timeouts; without a winner the result is \<open>EX_CONNECT\<close>, after a
  resolver error \<open>EX_RESOLVE\<close>.
\<close>

theorem tcp_connect_descriptors:
  assumes "\<And>res. resolved = Some res \<Longrightarrow> fresh_fds [] (start_events start (candidates res))"
  shows "case tcp_connect timeout resolved start polls of
           (Inl e, s) \<Rightarrow> mset (opened s) = mset (closed s) \<and>
                        e = (if resolved = None then EX_RESOLVE else EX_CONNECT)
         | (Inr d, s) \<Rightarrow> 0 \<le> d \<and> mset (opened s) = add_mset d (mset (closed s)) \<and>
                        timeo s d = Some timeout \<and>
                        (\<exists>res f r. resolved = Some res \<and> fl s d = f \<and>
                           Socket d f r \<in> set (start_events start (candidates res)))"
  by (rule tcp_connect_settled [OF assms])

definition reached :: "sock_status \<Rightarrow> bool" where
  "reached st = (revents st \<and> getsockopt_ok st \<and> so_error st = 0 \<and> \<not> err_hup st)"

lemma scan_reaches:
  "(\<exists>p \<in> set (drop i (pfds s)). reached (st (fst p))) \<Longrightarrow>
     reached (st (winner (scan st i s))) \<and> winner (scan st i s) \<in> fst ` set (drop i (pfds s))"
proof (induction st i s rule: scan.induct)
  case (1 st i s)
  have True: "i < length (pfds s)" using "1.prems" by (cases "i < length (pfds s)") auto
  obtain d f where p: "pfds s ! i = (d, f)" by fastforce
  have drop: "drop i (pfds s) = (d, f) # drop (Suc i) (pfds s)"
    using True p by (simp flip: Cons_nth_drop_Suc)
  consider "\<not> revents (st d)" | "revents (st d)" "reached (st d)"
    | "revents (st d)" "\<not> reached (st d)"
    by blast
  then show ?case
  proof cases
    case 1
    then have "\<not> reached (st d)" by (simp add: reached_def)
    with 1 show ?thesis using "1.IH" (1) [OF True p [symmetric] refl] "1.prems" drop
      by (auto simp: scan_step [OF True p])
  next
    case 2
    then show ?thesis by (simp add: scan_step (2) [OF True p] reached_def drop)
  next
    case 3
    then have bad: "\<not> (getsockopt_ok (st d) \<and> so_error (st d) = 0 \<and> \<not> err_hup (st d))"
      by (simp add: reached_def)
    have "set (drop i (pfds s)) = insert (d, f) (set (drop i (drop_slot i (pfds s))))"
      using arg_cong [OF drop_slot_Cons (2) [OF True], of set_mset] p by simp
    then show ?thesis
      using 3 bad "1.IH" (2) [OF True p [symmetric] refl] "1.prems"
      by (auto simp: scan_step (3) [OF True p] drop_slot_def)
  qed
qed

text \<open>
  A scan ends with a winner that was reported reached, or keeps every descriptor on which nothing
  was reported.
\<close>

lemma drop_slot_set: "i < length xs \<Longrightarrow> set xs = insert (xs ! i) (set (drop_slot i xs))"
  using arg_cong [OF drop_slot_Cons (1), of i xs set_mset] by simp

lemma scan_outcome:
  "reached (st (winner (scan st i s))) \<and> winner (scan st i s) \<in> fst ` set (pfds s) \<or>
   winner (scan st i s) = winner s \<and> set (pfds (scan st i s)) \<subseteq> set (pfds s) \<and>
     (\<forall>p \<in> set (pfds s). \<not> revents (st (fst p)) \<longrightarrow> p \<in> set (pfds (scan st i s)))"
proof (induction st i s rule: scan.induct)
  case (1 st i s)
  show ?case
  proof (cases "i < length (pfds s)")
    case True
    obtain d f where p: "pfds s ! i = (d, f)" by fastforce
    consider "\<not> revents (st d)" | "reached (st d)" | "revents (st d)" "\<not> reached (st d)"
      by (auto simp: reached_def)
    then show ?thesis
    proof cases
      case 1
      then show ?thesis using "1.IH" (1) [OF True p [symmetric] refl] by (simp add: scan_step [OF True p])
    next
      case 2
      moreover have "d \<in> fst ` set (pfds s)" using nth_mem [OF True] p by force
      ultimately show ?thesis by (simp add: scan_step (2) [OF True p] reached_def)
    next
      case 3
      then have bad: "\<not> (getsockopt_ok (st d) \<and> so_error (st d) = 0 \<and> \<not> err_hup (st d))"
        by (simp add: reached_def)
      let ?s = "(close_fd d s)\<lparr>pfds := drop_slot i (pfds s)\<rparr>"
      have "set (pfds s) = insert (d, f) (set (pfds ?s))" using drop_slot_set [OF True] p by simp
      moreover have "winner ?s = winner s" by (simp add: close_fd_def)
      moreover note "1.IH" (2) [OF True p [symmetric] refl, folded drop_slot_def]
      ultimately show ?thesis
        unfolding scan_step (3) [where st = st, OF True p 3(1) bad] using 3(1) bad by auto
    qed
  next
    case False
    then show ?thesis by (subst (1 2 3 4 5) scan.simps) simp
  qed
qed

text \<open>A poll that leaves descriptor \<open>d\<close> in the race: nothing is reported on it.\<close>

fun unreported :: "int \<Rightarrow> poll_event \<Rightarrow> bool" where
  "unreported d (Poll_fail e) = (e = EINTR)"
| "unreported d Poll_timeout = True"
| "unreported d (Poll_ready st) = (\<not> revents (st d))"

lemma race_loop_live:
  assumes "racing all s" and "d \<in> fst ` set (pfds s)" and "\<forall>e \<in> set ps. unreported d e" and "reached (st d)"
    and "1000 * int (length ps) < dl"
  shows "winner (race_loop (ps @ Poll_ready st # later) dl s) \<in> fst ` set (pfds s) \<and>
    (\<exists>st'. Poll_ready st' \<in> set (ps @ [Poll_ready st]) \<and>
       reached (st' (winner (race_loop (ps @ Poll_ready st # later) dl s))))"
  using assms
proof (induction ps arbitrary: dl s)
  case Nil
  have run: "winner s < 0 \<and> pfds s \<noteq> [] \<and> 0 < dl" using Nil by (auto simp: racing_def)
  have "\<exists>p \<in> set (drop 0 (pfds s)). reached (st (fst p))" using Nil by auto
  from scan_reaches [OF this] have won: "reached (st (winner (scan st 0 s)))" "winner (scan st 0 s) \<in> fst ` set (pfds s)"
    by simp_all
  then have "0 \<le> winner (scan st 0 s)" using Nil(1) by (auto simp: racing_def)
  then show ?case
    using won race_loop.simps [of "[] @ Poll_ready st # later" dl s, unfolded if_P [OF run] Let_def]
    by (simp add: race_loop_won)
next
  case (Cons e ps)
  have run: "winner s < 0 \<and> pfds s \<noteq> [] \<and> 0 < dl" using Cons.prems by (auto simp: racing_def)
  let ?dl = "dl - (if 1000 < dl then 1000 else dl)"
  have dl: "1000 * int (length ps) < ?dl" using Cons.prems(5) by simp
  note loop = race_loop.simps [of "(e # ps) @ Poll_ready st # later" dl s, unfolded if_P [OF run] Let_def]
  note IH = Cons.IH [OF _ _ _ Cons.prems(4) dl]
  show ?case
  proof (cases e)
    case (Poll_ready st')
    then have d: "\<not> revents (st' d)" using Cons.prems(3) by simp
    from scan_outcome [of st' 0 s] show ?thesis
    proof
      assume won: "reached (st' (winner (scan st' 0 s))) \<and> winner (scan st' 0 s) \<in> fst ` set (pfds s)"
      then have "0 \<le> winner (scan st' 0 s)" using Cons.prems(1) by (auto simp: racing_def)
      then show ?thesis using won loop by (auto simp: Poll_ready race_loop_won)
    next
      assume kept: "winner (scan st' 0 s) = winner s \<and> set (pfds (scan st' 0 s)) \<subseteq> set (pfds s) \<and>
        (\<forall>p \<in> set (pfds s). \<not> revents (st' (fst p)) \<longrightarrow> p \<in> set (pfds (scan st' 0 s)))"
      then have "racing all (scan st' 0 s)"
        using scan_inv [OF Cons.prems(1), of st' 0] run by (auto simp: won_def)
      moreover have "d \<in> fst ` set (pfds (scan st' 0 s))" using kept d Cons.prems(2) by force
      ultimately obtain v where
        v: "winner (race_loop (ps @ Poll_ready st # later) ?dl (scan st' 0 s)) \<in> fst ` set (pfds (scan st' 0 s))"
          "Poll_ready v \<in> set (ps @ [Poll_ready st])"
          "reached (v (winner (race_loop (ps @ Poll_ready st # later) ?dl (scan st' 0 s))))"
        using IH [of "scan st' 0 s"] Cons.prems(3) by auto
      have eq: "race_loop ((e # ps) @ Poll_ready st # later) dl s =
          race_loop (ps @ Poll_ready st # later) ?dl (scan st' 0 s)"
        using loop by (simp add: Poll_ready)
      have "Poll_ready v \<in> set ((e # ps) @ [Poll_ready st])" using v(2) by simp
      moreover have "fst ` set (pfds (scan st' 0 s)) \<subseteq> fst ` set (pfds s)" using kept by blast
      ultimately show ?thesis unfolding eq using v(1,3) by blast
    qed
  qed (use IH [OF Cons.prems(1,2)] Cons.prems(3) loop in auto)
qed

lemma deadline_ms_small: "0 < t \<Longrightarrow> t \<le> 2147483 \<Longrightarrow> deadline_ms t = 1000 * t"
  by (simp add: deadline_ms_def signed_take_bit_int_eq_self)

text \<open>Starting the connects ends with one that succeeded at once, or with every pending one racing.\<close>

lemma start_loop_outcome:
  "length (pfds s) + length es \<le> MAX_ADDRS \<Longrightarrow>
   (\<exists>f. Socket (winner (start_loop es s)) f Connected \<in> set es) \<or>
   winner (start_loop es s) = winner s \<and>
     set (pfds (start_loop es s)) = set (pfds s) \<union> {(d, f). Socket d f In_progress \<in> set es}"
proof (induction es s rule: start_loop.induct)
  case (3 d f r es s)
  then show ?case by (cases r) (auto simp: race_steps Let_def)
qed auto

lemma fresh_fds_nonneg: "fresh_fds opn es \<Longrightarrow> Socket d f r \<in> set es \<Longrightarrow> 0 \<le> d"
  by (induction opn es rule: fresh_fds.induct) auto

text \<open>
  C25: a reachable address wins whatever the others do. Take a candidate whose connect is pending
  and that \<open>poll\<close> reports as connected in a wake-up before the deadline, nothing having been
  reported on it until then. Other candidates may have failed at \<open>socket\<close> or \<open>connect\<close>, connected
  at once, failed or succeeded in earlier wake-ups or in the same one, or never answer, and polls
  may time out or be interrupted: the race ends with a connected descriptor, one whose connect
  succeeded at once or that one of these wake-ups reported as connected.
\<close>

theorem tcp_connect_reaches:
  assumes timeout: "0 < timeout" "timeout \<le> 2147483" "int (length earlier) < timeout"
    and fresh: "fresh_fds [] (start_events start (candidates res))"
    and live: "Socket d f In_progress \<in> set (start_events start (candidates res))"
    and quiet: "\<forall>e \<in> set earlier. unreported d e"
    and reached: "reached (st d)"
  shows "\<exists>w s. tcp_connect timeout (Some res) start (earlier @ Poll_ready st # polls) = (Inr w, s) \<and>
     ((\<exists>f. Socket w f Connected \<in> set (start_events start (candidates res))) \<or>
      (\<exists>f. Socket w f In_progress \<in> set (start_events start (candidates res))) \<and>
      (\<exists>st'. Poll_ready st' \<in> set (earlier @ [Poll_ready st]) \<and> reached (st' w)))"
proof -
  let ?es = "start_events start (candidates res)"
  let ?s = "start_loop ?es init_race"
  let ?t = "race_loop (earlier @ Poll_ready st # polls) (deadline_ms timeout) ?s"
  have "length ?es \<le> MAX_ADDRS" by (simp add: start_events_def candidates_slots)
  then consider f' where "Socket (winner ?s) f' Connected \<in> set ?es"
    | "winner ?s = - 1" "set (pfds ?s) = {(d, f). Socket d f In_progress \<in> set ?es}"
    using start_loop_outcome [of init_race ?es] by (auto simp: init_race_def)
  then have "0 \<le> winner ?t \<and> ((\<exists>f. Socket (winner ?t) f Connected \<in> set ?es) \<or>
      (\<exists>f. Socket (winner ?t) f In_progress \<in> set ?es) \<and>
      (\<exists>st'. Poll_ready st' \<in> set (earlier @ [Poll_ready st]) \<and> reached (st' (winner ?t))))"
  proof cases
    case 1
    then have "0 \<le> winner ?s" by (rule fresh_fds_nonneg [OF fresh])
    then show ?thesis using 1 by (auto simp: race_loop_won)
  next
    case 2
    then have "racing ?es ?s"
      using start_loop_inv [OF racing_init, of ?es ?es] fresh by (auto simp: init_race_def won_def)
    moreover have "d \<in> fst ` set (pfds ?s)" using live by (force simp: 2)
    moreover have "1000 * int (length earlier) < deadline_ms timeout"
      using timeout by (simp add: deadline_ms_small)
    ultimately have "winner ?t \<in> fst ` set (pfds ?s) \<and>
        (\<exists>st'. Poll_ready st' \<in> set (earlier @ [Poll_ready st]) \<and> reached (st' (winner ?t)))"
      using race_loop_live quiet reached by blast
    then show ?thesis by (auto simp: 2 dest: fresh_fds_nonneg [OF fresh])
  qed
  then show ?thesis by (auto simp: tcp_connect_def close_losers_result Let_def)
qed

text \<open>Two dead IPv6 addresses and one IPv4 address that answers at the third wake-up.\<close>

definition dual_stack :: "addrinfo list" where
  "dual_stack = [\<lparr>ai_family = AF_INET6, ai_addr = 1\<rparr>, \<lparr>ai_family = AF_INET6, ai_addr = 2\<rparr>,
     \<lparr>ai_family = AF_OTHER, ai_addr = 3\<rparr>]"

definition dual_start :: "nat \<Rightarrow> addrinfo \<Rightarrow> start_event" where
  "dual_start i a = Socket (int i + 3) 2 In_progress"

definition dual_status :: "int \<Rightarrow> sock_status" where
  "dual_status d = \<lparr>revents = (d \<noteq> 3), err_hup = False, getsockopt_ok = True,
     so_error = (if d = 4 then 0 else 113)\<rparr>"

lemma dual_candidates:
  "candidates dual_stack =
     [\<lparr>ai_family = AF_INET6, ai_addr = 1\<rparr>, \<lparr>ai_family = AF_OTHER, ai_addr = 3\<rparr>,
      \<lparr>ai_family = AF_INET6, ai_addr = 2\<rparr>]"
  by code_simp

lemma dual_events:
  "start_events dual_start (candidates dual_stack) =
     [Socket 3 2 In_progress, Socket 4 2 In_progress, Socket 5 2 In_progress]"
  unfolding dual_candidates by (simp add: start_events_def dual_start_def)

lemma tcp_connect_descriptors_witness:
  "case tcp_connect 30 (Some dual_stack) dual_start [Poll_timeout, Poll_ready dual_status] of
           (Inl e, s) \<Rightarrow> mset (opened s) = mset (closed s) \<and>
                        e = (if Some dual_stack = None then EX_RESOLVE else EX_CONNECT)
         | (Inr d, s) \<Rightarrow> 0 \<le> d \<and> mset (opened s) = add_mset d (mset (closed s)) \<and>
                        timeo s d = Some 30 \<and>
                        (\<exists>res f r. Some dual_stack = Some res \<and> fl s d = f \<and>
                           Socket d f r \<in> set (start_events dual_start (candidates res)))"
  by (rule tcp_connect_descriptors) (auto simp: dual_events)

text \<open>
  One address refuses at once and its descriptor is used again; of the two pending connects one
  fails in a first wake-up, after a timeout and an interrupted poll, and the other succeeds later.
\<close>

definition mixed_start :: "nat \<Rightarrow> addrinfo \<Rightarrow> start_event" where
  "mixed_start i a = Socket (if i = 2 then 4 else 3) 2 (if i = 0 then Connect_failed else In_progress)"

definition one_status :: "int \<Rightarrow> int \<Rightarrow> int \<Rightarrow> sock_status" where
  "one_status d e x = \<lparr>revents = (x = d), err_hup = False, getsockopt_ok = True, so_error = e\<rparr>"

lemma mixed_events:
  "start_events mixed_start (candidates dual_stack) =
     [Socket 3 2 Connect_failed, Socket 3 2 In_progress, Socket 4 2 In_progress]"
  unfolding dual_candidates by (simp add: start_events_def mixed_start_def)

lemma tcp_connect_reaches_witness:
  "\<exists>s. tcp_connect 30 (Some dual_stack) mixed_start
     ([Poll_timeout, Poll_fail EINTR, Poll_ready (one_status 4 111)] @ Poll_ready (one_status 3 0) # []) = (Inr 3, s)"
proof -
  have "\<exists>w s. tcp_connect 30 (Some dual_stack) mixed_start
      ([Poll_timeout, Poll_fail EINTR, Poll_ready (one_status 4 111)] @ Poll_ready (one_status 3 0) # []) = (Inr w, s) \<and>
     ((\<exists>f. Socket w f Connected \<in> set (start_events mixed_start (candidates dual_stack))) \<or>
      (\<exists>f. Socket w f In_progress \<in> set (start_events mixed_start (candidates dual_stack))) \<and>
      (\<exists>st'. Poll_ready st' \<in> set ([Poll_timeout, Poll_fail EINTR, Poll_ready (one_status 4 111)] @
          [Poll_ready (one_status 3 0)]) \<and> reached (st' w)))"
    by (rule tcp_connect_reaches [where d = 3 and f = 2])
      (simp_all add: mixed_events one_status_def reached_def)
  then show ?thesis by (auto simp: mixed_events reached_def one_status_def)
qed

subsection \<open>The deadline\<close>

lemma race_loop_bound:
  "dl \<le> 1000 * int (length ps) \<Longrightarrow> race_loop (ps @ a) dl s = race_loop (ps @ b) dl s"
proof (induction ps arbitrary: dl s)
  case Nil
  then show ?case by (simp add: race_loop_stop)
next
  case (Cons e ps)
  show ?case
  proof (cases "winner s < 0 \<and> pfds s \<noteq> [] \<and> 0 < dl")
    case True
    let ?dl = "dl - (if 1000 < dl then 1000 else dl)"
    have "race_loop (ps @ a) ?dl t = race_loop (ps @ b) ?dl t" for t
      using Cons by auto
    then show ?thesis
      using race_loop.simps [of "(e # ps) @ a" dl s] race_loop.simps [of "(e # ps) @ b" dl s] True
      by (simp add: Let_def split: poll_event.split if_splits)
  qed (simp add: race_loop_stop)
qed

text \<open>
  C31: the race is over after at most \<open>opt_timeout\<close> calls of \<open>poll\<close>: later answers change nothing.
  The count is of calls and not of time, since a whole slice is charged when \<open>poll\<close> returns
  early: an address that would answer next is given up after as many interrupted calls.
\<close>

theorem tcp_connect_poll_bound:
  assumes "0 < timeout" "timeout \<le> 2147483" "int (length polls) = timeout"
  shows "tcp_connect timeout resolved start (polls @ later) = tcp_connect timeout resolved start polls"
  using race_loop_bound [of "deadline_ms timeout" polls later _ "[]"] assms
  by (simp add: tcp_connect_def deadline_ms_small split: option.split)

lemma tcp_connect_poll_bound_witness:
  "tcp_connect 2 (Some dual_stack) dual_start
       ([Poll_fail EINTR, Poll_fail EINTR] @ [Poll_ready dual_status]) =
     tcp_connect 2 (Some dual_stack) dual_start [Poll_fail EINTR, Poll_fail EINTR]"
  by (rule tcp_connect_poll_bound) simp_all

text \<open>From \<open>-T 2147484\<close> on the product overflows the 32-bit \<open>long\<close> and no poll is made at all.\<close>

lemma deadline_overflow: "deadline_ms 2147484 < 0"
  by code_simp

end
