(* ===== verification/HgetConn.thy ===== *)
theory HgetConn
  imports HgetRace
begin

text \<open>
  \<open>conn_open\<close> and \<open>conn_close\<close> of \<open>board/hget/hget.c\<close>: the TCP connection, the mbedTLS set-up
  and the handshake. mbedTLS answers through the record \<open>tls_env\<close>, one field per call; what the
  code has configured is the record \<open>tls_state\<close>. The field \<open>HGET_TLS\<close> is the build switch of that
  name: without it the program contains no TLS at all.
\<close>

datatype authmode = VERIFY_NONE | VERIFY_REQUIRED

datatype handshake_event = Hs_done | Hs_want_read | Hs_want_write | Hs_verify_failed | Hs_error

record tls_env =
  HGET_TLS :: bool
  seed_rc :: int
  defaults_rc :: int
  ca_rc :: "string \<Rightarrow> int"
  setup_rc :: int
  hostname_rc :: "string \<Rightarrow> int"
  handshakes :: "handshake_event list"
  verify_flags :: u32

record tls_state =
  inited :: bool
  seeded :: bool
  authmode :: "authmode option"
  ca_chain :: "string option"
  rng :: bool
  set_up :: bool
  sni :: "string option"
  bio :: bool
  established :: bool
  closed_notify :: bool
  freed :: bool

definition no_tls :: tls_state where
  "no_tls = \<lparr>inited = False, seeded = False, authmode = None, ca_chain = None, rng = False,
     set_up = False, sni = None, bio = False, established = False, closed_notify = False,
     freed = False\<rparr>"

text \<open>The handshake loop; a script that has run out is a peer that is gone (an error).\<close>

fun handshake_loop :: "handshake_event list \<Rightarrow> bool" where
  "handshake_loop [] = False"
| "handshake_loop (Hs_done # es) = True"
| "handshake_loop (Hs_want_read # es) = handshake_loop es"
| "handshake_loop (Hs_want_write # es) = handshake_loop es"
| "handshake_loop (Hs_verify_failed # es) = False"
| "handshake_loop (Hs_error # es) = False"

text \<open>The certificate policy: \<open>False\<close> is the \<open>goto fail\<close> of an unreadable CA bundle.\<close>

definition tls_auth :: "options \<Rightarrow> tls_env \<Rightarrow> tls_state \<Rightarrow> bool \<times> tls_state" where
  "tls_auth opts env t =
     (if opt_insecure opts then (True, t\<lparr>authmode := Some VERIFY_NONE\<rparr>)
      else if ca_rc env (opt_cafile opts) < 0 then (False, t)
      else (True, t\<lparr>ca_chain := Some (opt_cafile opts), authmode := Some VERIFY_REQUIRED\<rparr>))"

text \<open>From the first \<open>init\<close> to the check of the verification flags; \<open>False\<close> is \<open>goto fail\<close>.\<close>

definition tls_open :: "options \<Rightarrow> tls_env \<Rightarrow> string \<Rightarrow> bool \<times> tls_state" where
  "tls_open opts env host =
     (let t = no_tls\<lparr>inited := True\<rparr> in
      if seed_rc env \<noteq> 0 then (False, t)
      else (let t = t\<lparr>seeded := True\<rparr> in
        if defaults_rc env \<noteq> 0 then (False, t)
        else (case tls_auth opts env t of (ok, t) \<Rightarrow>
          if \<not> ok then (False, t)
          else (let t = t\<lparr>rng := True\<rparr> in
            if setup_rc env \<noteq> 0 then (False, t)
            else (let t = t\<lparr>set_up := True\<rparr> in
              if hostname_rc env host \<noteq> 0 then (False, t)
              else (let t = t\<lparr>sni := Some host, bio := True\<rparr> in
                if \<not> handshake_loop (handshakes env) then (False, t)
                else (let t = t\<lparr>established := True\<rparr> in
                  if verify_flags env \<noteq> 0 \<and> \<not> opt_insecure opts then (False, t)
                  else (True, t))))))))"

text \<open>
  The network as one connection sees it: the resolver, the sockets, \<open>poll\<close>, mbedTLS and the
  scripts of the byte transport (\<open>peer\<close>, of which descriptor and TLS flag are set here).
\<close>

record net =
  resolver :: "string \<Rightarrow> string \<Rightarrow> addrinfo list option"
  start_of :: "nat \<Rightarrow> addrinfo \<Rightarrow> start_event"
  polls :: "poll_event list"
  tls_of :: tls_env
  peer :: conn

record session =
  ses_conn :: conn
  ses_race :: race
  ses_tls :: tls_state

definition conn_open :: "options \<Rightarrow> net \<Rightarrow> string \<Rightarrow> string \<Rightarrow> bool \<Rightarrow> exit_code \<times> session" where
  "conn_open opts n host port tls' =
     (case tcp_connect (opt_timeout opts) (resolver n host port) (start_of n) (polls n) of
        (Inl e, s) \<Rightarrow>
          (e, \<lparr>ses_conn = (peer n)\<lparr>fd := - int (exit_num e), tls := False\<rparr>, ses_race = s, ses_tls = no_tls\<rparr>)
      | (Inr d, s) \<Rightarrow>
          (let c = (peer n)\<lparr>fd := d, tls := tls'\<rparr> in
           if \<not> tls' then (EX_OK, \<lparr>ses_conn = c, ses_race = s, ses_tls = no_tls\<rparr>)
           else if \<not> HGET_TLS (tls_of n) then
             (EX_TLS, \<lparr>ses_conn = c, ses_race = close_fd d s, ses_tls = no_tls\<rparr>)
           else (case tls_open opts (tls_of n) host of
                   (True, t) \<Rightarrow> (EX_OK, \<lparr>ses_conn = c, ses_race = s, ses_tls = t\<rparr>)
                 | (False, t) \<Rightarrow>
                     (EX_TLS, \<lparr>ses_conn = c\<lparr>fd := - 1\<rparr>, ses_race = close_fd d s, ses_tls = t\<rparr>))))"

definition conn_close :: "session \<Rightarrow> session" where
  "conn_close s =
     (let t = (if tls (ses_conn s) then (ses_tls s)\<lparr>closed_notify := True, freed := True\<rparr> else ses_tls s);
          r = (if 0 \<le> fd (ses_conn s) then close_fd (fd (ses_conn s)) (ses_race s) else ses_race s)
      in \<lparr>ses_conn = (ses_conn s)\<lparr>fd := - 1\<rparr>, ses_race = r, ses_tls = t\<rparr>)"

text \<open>A TLS session whose peer was authenticated as \<open>host\<close> against the bundle \<open>ca\<close>.\<close>

definition authenticated :: "string \<Rightarrow> string \<Rightarrow> tls_env \<Rightarrow> tls_state \<Rightarrow> bool" where
  "authenticated host ca env t =
     (established t \<and> authmode t = Some VERIFY_REQUIRED \<and> ca_chain t = Some ca \<and> 0 \<le> ca_rc env ca \<and>
      sni t = Some host \<and> verify_flags env = 0 \<and> seeded t \<and> rng t)"

lemma tls_open_authenticated:
  "tls_open opts env host = (True, t) \<Longrightarrow> \<not> opt_insecure opts \<Longrightarrow>
     authenticated host (opt_cafile opts) env t"
  by (auto simp: tls_open_def tls_auth_def authenticated_def Let_def split: if_splits)

lemma tls_open_established:
  "tls_open opts env host = (ok, t) \<Longrightarrow> ok = (established t \<and> (opt_insecure opts \<or> verify_flags env = 0)) \<and>
     inited t \<and> \<not> freed t"
  by (auto simp: tls_open_def tls_auth_def no_tls_def Let_def split: if_splits)

lemmas conn_open_cases = conn_open_def [unfolded Let_def]

text \<open>What an open session holds, and what a failed one has given back.\<close>

lemma conn_open_ok:
  assumes "conn_open opts n host port tls' = (EX_OK, s)"
  shows "\<exists>d. tcp_connect (opt_timeout opts) (resolver n host port) (start_of n) (polls n) = (Inr d, ses_race s)
     \<and> ses_conn s = (peer n)\<lparr>fd := d, tls := tls'\<rparr>
     \<and> (if tls' then tls_open opts (tls_of n) host = (True, ses_tls s) else ses_tls s = no_tls)"
proof -
  have "tcp_connect t r st p \<noteq> (Inl EX_OK, s')" for t r st p s'
    by (auto simp: tcp_connect_def Let_def split: option.splits if_splits)
  then show ?thesis
    using assms by (auto simp: conn_open_cases split: prod.splits sum.splits if_splits bool.splits)
qed

end
