(* ===== verification/HgetFetch.thy ===== *)
theory HgetFetch
  imports HgetUrl HgetBody HgetConn
begin

text \<open>
  \<open>fetch\<close> and \<open>main\<close> of \<open>board/hget/hget.c\<close>. One call of \<open>fetch\<close> per redirect: \<open>nets\<close>
  gives the network each of them sees, by depth. The result keeps, per connection, what was
  opened, sent and closed, and the output file.
\<close>

definition request :: "url \<Rightarrow> string" where
  "request u =
     ''GET '' @ u_path u @ '' HTTP/1.1'' @ CRLF @
     ''Host: '' @ u_host u @ CRLF @
     ''User-Agent: hget/1.0'' @ CRLF @
     ''Accept: */*'' @ CRLF @
     ''Connection: close'' @ CRLF @
     CRLF"

definition REQBUF :: nat where [const_defs]: "REQBUF = URLBUF + 512"

text \<open>One connection of the run, closed; and the run's outcome.\<close>

record hop =
  hop_url :: url
  hop_ses :: session

record fetch_result =
  status :: exit_code
  hops :: "hop list"
  sink :: outfile
  out_file :: "string option"
  out_closed :: "int list"

text \<open>
  The file system: what \<open>open\<close> for writing answers (\<open>None\<close> is a negative result), and the
  descriptor it returns, which is \<open>STDOUT_FILENO\<close> when the program was started without one.
\<close>

record outputs =
  stdout :: outfile
  open_out :: "string \<Rightarrow> outfile option"
  out_fd :: "string \<Rightarrow> int"

definition STDOUT_FILENO :: int where [const_defs]: "STDOUT_FILENO = 1"

definition stop :: "outputs \<Rightarrow> exit_code \<Rightarrow> hop list \<Rightarrow> fetch_result option" where
  "stop fs e hs = Some \<lparr>status = e, hops = hs, sink = stdout fs, out_file = None, out_closed = []\<rparr>"

definition add_hop :: "hop \<Rightarrow> fetch_result option \<Rightarrow> fetch_result option" where
  "add_hop h = map_option (\<lambda>r. r\<lparr>hops := h # hops r\<rparr>)"

definition is_redirect :: "options \<Rightarrow> resp \<Rightarrow> bool" where
  "is_redirect opts r =
     (300 \<le> r_status r \<and> r_status r < 400 \<and> r_location r \<noteq> [] \<and> opt_follow opts)"

definition is_absolute :: "string \<Rightarrow> bool" where
  "is_absolute l = (has_prefix l ''http://'' \<or> has_prefix l ''https://'')"

text \<open>The output: standard output unless a path other than \<open>-\<close> is given.\<close>

definition choose_out :: "outputs \<Rightarrow> string option \<Rightarrow> (string option \<times> outfile) option" where
  "choose_out fs outpath =
     (case outpath of
        None \<Rightarrow> Some (None, stdout fs)
      | Some p \<Rightarrow>
          if p = ''-'' then Some (None, stdout fs)
          else map_option (\<lambda>f. (Some p, f)) (open_out fs p))"

text \<open>
  The variable \<open>out\<close>; then the body, the two \<open>close\<close> calls and the result. Standard output is
  not closed, nor is a file that was opened as descriptor 1.
\<close>

definition out_of :: "outputs \<Rightarrow> string option \<Rightarrow> int" where
  "out_of fs path = (case path of None \<Rightarrow> STDOUT_FILENO | Some p \<Rightarrow> out_fd fs p)"

definition receive_body ::
    "outputs \<Rightarrow> string option \<Rightarrow> url \<Rightarrow> session \<Rightarrow> conn \<Rightarrow> string \<Rightarrow> resp \<Rightarrow> fetch_result option" where
  "receive_body fs outpath u ses c hdr r =
     (case choose_out fs outpath of
        None \<Rightarrow> stop fs EX_IO [\<lparr>hop_url = u, hop_ses = conn_close (ses\<lparr>ses_conn := c\<rparr>)\<rparr>]
      | Some (path, f) \<Rightarrow>
          (case (if r_chunked r
                 then map_option (\<lambda>(rc, s, f', w). (rc, snd s, f', w)) (body_chunked conn_read write_all c hdr r f)
                 else body_plain conn_read write_all c hdr r f) of
             None \<Rightarrow> None
           | Some (rc, c', f', w) \<Rightarrow>
               Some \<lparr>status = rc,
                     hops = [\<lparr>hop_url = u, hop_ses = conn_close (ses\<lparr>ses_conn := c'\<rparr>)\<rparr>],
                     sink = f', out_file = path,
                     out_closed = (if out_of fs path \<noteq> STDOUT_FILENO then [out_of fs path] else [])\<rparr>))"

text \<open>What one connection leads to: the end of the run, or the URL to go on with.\<close>

datatype next_step = Finished "fetch_result option" | Redirect hop string

definition exchange ::
    "options \<Rightarrow> outputs \<Rightarrow> string option \<Rightarrow> url \<Rightarrow> session \<Rightarrow> next_step" where
  "exchange opts fs outpath u ses =
     (let end_with = (\<lambda>e c. Finished (stop fs e [\<lparr>hop_url = u, hop_ses = conn_close (ses\<lparr>ses_conn := c\<rparr>)\<rparr>]))
      in
      if REQBUF \<le> length (request u) then end_with EX_URL (ses_conn ses)
      else (case conn_write (ses_conn ses) (request u) of
        (ok, c) \<Rightarrow>
          if \<not> ok then end_with EX_IO c
          else (case read_headers conn_read c of
                  None \<Rightarrow> Finished None
                | Some (Inl e, c) \<Rightarrow> end_with e c
                | Some (Inr (hdr, r), c) \<Rightarrow>
                    if is_redirect opts r then
                      (if \<not> is_absolute (r_location r) then end_with EX_REDIRECT c
                       else Redirect \<lparr>hop_url = u, hop_ses = conn_close (ses\<lparr>ses_conn := c\<rparr>)\<rparr> (r_location r))
                    else if 400 \<le> r_status r then end_with EX_HTTP c
                    else Finished (receive_body fs outpath u ses c hdr r))))"

function fetch ::
    "options \<Rightarrow> outputs \<Rightarrow> (nat \<Rightarrow> net) \<Rightarrow> string \<Rightarrow> string option \<Rightarrow> nat \<Rightarrow> fetch_result option" where
  "fetch opts fs nets urlstr outpath depth =
     (if MAX_REDIRECTS < depth then stop fs EX_REDIRECT []
      else (case url_parse urlstr of
              None \<Rightarrow> None
            | Some (Inl e) \<Rightarrow> stop fs e []
            | Some (Inr u) \<Rightarrow>
                (case conn_open opts (nets depth) (u_host u) (u_port u) (u_tls u) of
                   (e, ses) \<Rightarrow>
                     if e \<noteq> EX_OK then stop fs e [\<lparr>hop_url = u, hop_ses = ses\<rparr>]
                     else (case exchange opts fs outpath u ses of
                             Finished res \<Rightarrow> res
                           | Redirect h url' \<Rightarrow>
                               add_hop h (fetch opts fs nets url' outpath (Suc depth))))))"
  by pat_completeness auto
termination
  by (relation "measure (\<lambda>(opts, fs, nets, urlstr, outpath, depth). Suc MAX_REDIRECTS - depth)") auto

declare fetch.simps [simp del]

subsection \<open>main\<close>

datatype cli = Cli_exit exit_code | Cli_fetch options "string option" string

text \<open>The options; an option that takes an argument needs one to follow.\<close>

fun parse_args :: "options \<Rightarrow> string option \<Rightarrow> string list \<Rightarrow> cli" where
  "parse_args opts outpath [] = Cli_exit EX_USAGE"
| "parse_args opts outpath (a # as) =
     (if take 1 a \<noteq> ''-'' \<or> a = ''-'' then
        Cli_fetch (if opt_timeout opts \<le> 0 then opts\<lparr>opt_timeout := 30\<rparr> else opts) outpath a
      else if a = ''-o'' \<and> as \<noteq> [] then parse_args opts (Some (hd as)) (tl as)
      else if a = ''-T'' \<and> as \<noteq> [] then parse_args (opts\<lparr>opt_timeout := atoi (hd as)\<rparr>) outpath (tl as)
      else if a = ''-c'' \<and> as \<noteq> [] then parse_args (opts\<lparr>opt_cafile := hd as\<rparr>) outpath (tl as)
      else if a = ''-q'' then parse_args (opts\<lparr>opt_quiet := True\<rparr>) outpath as
      else if a = ''-k'' then parse_args (opts\<lparr>opt_insecure := True\<rparr>) outpath as
      else if a = ''-L'' then parse_args (opts\<lparr>opt_follow := True\<rparr>) outpath as
      else if a = ''-N'' then parse_args (opts\<lparr>opt_follow := False\<rparr>) outpath as
      else if a = ''-V'' \<or> a = ''-h'' \<or> a = ''--help'' then Cli_exit EX_OK
      else Cli_exit EX_USAGE)"

definition hget_main :: "outputs \<Rightarrow> (nat \<Rightarrow> net) \<Rightarrow> string list \<Rightarrow> fetch_result option" where
  "hget_main fs nets args =
     (case parse_args default_options None args of
        Cli_exit e \<Rightarrow> stop fs e []
      | Cli_fetch opts outpath url \<Rightarrow> fetch opts fs nets url outpath 0)"

subsection \<open>What the transfers leave alone\<close>

definition frame :: "('c \<Rightarrow> nat \<Rightarrow> 'r \<times> 'c) \<Rightarrow> ('c \<Rightarrow> 'v) \<Rightarrow> bool" where
  "frame rd g = (\<forall>c n r c'. rd c n = (r, c') \<longrightarrow> g c' = g c)"

lemma frameD: "frame rd g \<Longrightarrow> rd c n = (r, c') \<Longrightarrow> g c' = g c"
  by (simp add: frame_def)

lemma header_loop_frame:
  assumes "header_loop rd c h = Some x" and "frame rd g"
  shows "g (snd x) = g c"
proof (rule header_loop.raw_induct
    [where P = "\<lambda>rd c h x. frame rd g \<longrightarrow> g (snd x) = g c", rule_format, OF _ assms], goal_cases)
  case (1 loop rd c h x)
  obtain r c1 where rd: "rd c (HDRBUF - 1 - length h) = (r, c1)" by fastforce
  show ?case
    using 1 rd frameD [OF 1(3) rd] by (auto split: if_splits option.splits)
qed

lemma plain_loop_frame:
  assumes "plain_loop rd wr remain c out w = Some x" and "frame rd g"
  shows "g (fst (snd x)) = g c"
proof (rule plain_loop.raw_induct
    [where P = "\<lambda>rd wr remain c out w x. frame rd g \<longrightarrow> g (fst (snd x)) = g c", rule_format, OF _ assms], goal_cases)
  case (1 loop rd wr remain c out w x)
  obtain r c1 where rd: "rd c (if 0 < remain \<and> remain < int IOBUF then nat remain else IOBUF) = (r, c1)"
    by fastforce
  show ?case
    using 1 rd frameD [OF 1(3) rd] by (auto split: if_splits option.splits prod.splits)
qed

lemma chunk_line_frame:
  assumes "chunk_line rd s l = Some x" and "frame rd g"
  shows "g (snd x) = g s"
proof (rule chunk_line.raw_induct
    [where P = "\<lambda>rd s l x. frame rd g \<longrightarrow> g (snd x) = g s", rule_format, OF _ assms], goal_cases)
  case (1 loop rd s l x)
  obtain r s1 where rd: "rd s 1 = (r, s1)" by fastforce
  show ?case
    using 1 rd frameD [OF 1(3) rd] by (cases r; cases x) (auto split: if_splits)
qed

lemma chunk_data_frame:
  assumes "chunk_data rd wr chunk s out w = Some x" and "frame rd g"
  shows "g (fst (snd x)) = g s"
proof (rule chunk_data.raw_induct
    [where P = "\<lambda>rd wr chunk s out w x. frame rd g \<longrightarrow> g (fst (snd x)) = g s", rule_format, OF _ assms], goal_cases)
  case (1 loop rd wr chunk s out w x)
  obtain r s1 where rd: "rd s (if chunk < int IOBUF then nat chunk else IOBUF) = (r, s1)"
    by fastforce
  show ?case
    using 1 rd frameD [OF 1(3) rd] by (auto split: if_splits option.splits prod.splits)
qed

lemma chunked_loop_frame:
  assumes "chunked_loop rd wr s out w = Some x" and "frame rd g"
  shows "g (fst (snd x)) = g s"
proof (rule chunked_loop.raw_induct
    [where P = "\<lambda>rd wr s out w x. frame rd g \<longrightarrow> g (fst (snd x)) = g s", rule_format, OF _ assms], goal_cases)
  case (1 loop rd wr s out w x)
  obtain l s1 where l: "chunk_line rd s [] = Some (l, s1)" using 1(2) by (auto simp: bind_eq_Some_conv)
  have s1: "g s1 = g s" using chunk_line_frame [OF l 1(3)] by simp
  show ?case
  proof (cases "l = None \<or> l = Some [] \<or> strtol16 (the l) \<le> 0")
    case True
    then show ?thesis using 1 l s1 by (cases l; cases x) (auto split: if_splits)
  next
    case False
    then obtain rc s2 out2 w2 where data: "chunk_data rd wr (strtol16 (the l)) s1 out w = Some (rc, s2, out2, w2)"
      and res: "(if rc = EX_OK then loop rd wr s2 out2 w2 else Some (rc, s2, out2, w2)) = Some x"
      using 1(2) l
      by (cases "chunk_data rd wr (strtol16 (the l)) s1 out w") (auto split: if_splits)
    have "g s2 = g s1" using chunk_data_frame [OF data 1(3)] by simp
    then show ?thesis using 1(1) 1(3) res s1 by (cases x) (auto split: if_splits)
  qed
qed

text \<open>The connection's identity: descriptor, TLS flag and what it has sent.\<close>

definition ident :: "conn \<Rightarrow> int \<times> bool \<times> string" where
  "ident c = (fd c, tls c, sent c)"

lemma conn_read_frame: "frame conn_read ident"
  by (auto simp: frame_def ident_def conn_read_def split: if_splits prod.splits)

lemma buffered_frame: "frame (buffered conn_read) (ident \<circ> snd)"
  using frameD [OF conn_read_frame] by (auto simp: frame_def buffered_def split: if_splits prod.splits)

lemma conn_write_ident:
  "conn_write c bs = (ok, c') \<Longrightarrow> \<exists>p. prefix p bs \<and> ident c' = (fd c, tls c, sent c @ p) \<and> (ok \<longrightarrow> p = bs)"
  using conn_write_delivers [of c bs ok c']
  by (auto simp: ident_def conn_write_def delivered_def split: if_splits prod.splits)

lemma read_headers_ident: "read_headers conn_read c = Some (x, c') \<Longrightarrow> ident c' = ident c"
  using header_loop_frame [OF _ conn_read_frame]
  by (fastforce simp: read_headers_def split: option.splits prod.splits sum.splits)

lemma body_plain_ident:
  "body_plain conn_read write_all c hdr r f = Some (rc, c', f', w) \<Longrightarrow> ident c' = ident c"
  using plain_loop_frame [OF _ conn_read_frame]
  by (fastforce simp: body_plain_def Let_def split: if_splits prod.splits)

lemma body_chunked_ident:
  "body_chunked conn_read write_all c hdr r f = Some (rc, s', f', w) \<Longrightarrow> ident (snd s') = ident c"
  using chunked_loop_frame [OF _ buffered_frame]
  by (fastforce simp: body_chunked_def)

subsection \<open>One connection\<close>

text \<open>A connection of the run: closed, with some prefix of the request sent over it.\<close>

definition hop_of :: "url \<Rightarrow> session \<Rightarrow> hop \<Rightarrow> bool" where
  "hop_of u ses h =
     (\<exists>c p. h = \<lparr>hop_url = u, hop_ses = conn_close (ses\<lparr>ses_conn := c\<rparr>)\<rparr> \<and>
        ident c = (fd (ses_conn ses), tls (ses_conn ses), sent (ses_conn ses) @ p) \<and> prefix p (request u))"

text \<open>The calls \<open>close(out)\<close> a run owes: one for the file it opened, none for standard output.\<close>

definition out_settled :: "outputs \<Rightarrow> fetch_result \<Rightarrow> bool" where
  "out_settled fs r \<longleftrightarrow> out_closed r =
     (case out_file r of None \<Rightarrow> [] | Some p \<Rightarrow> filter (\<lambda>d. d \<noteq> STDOUT_FILENO) [out_fd fs p])"

definition one_hop :: "outputs \<Rightarrow> url \<Rightarrow> session \<Rightarrow> fetch_result \<Rightarrow> bool" where
  "one_hop fs u ses r = (\<exists>h. hops r = [h] \<and> hop_of u ses h \<and> out_settled fs r)"

lemma hop_ofI:
  "ident c = (fd (ses_conn ses), tls (ses_conn ses), sent (ses_conn ses) @ p) \<Longrightarrow> prefix p (request u) \<Longrightarrow>
     hop_of u ses \<lparr>hop_url = u, hop_ses = conn_close (ses\<lparr>ses_conn := c\<rparr>)\<rparr>"
  by (auto simp: hop_of_def)

lemma stop_one_hop:
  "hop_of u ses h \<Longrightarrow> \<exists>r. stop fs e [h] = Some r \<and> one_hop fs u ses r"
  by (simp add: stop_def one_hop_def out_settled_def)

lemma receive_body_result:
  assumes "length (pending hdr r) = r_body_len r"
    and "ident c = (fd (ses_conn ses), tls (ses_conn ses), sent (ses_conn ses) @ p)" "prefix p (request u)"
  shows "\<exists>res. receive_body fs outpath u ses c hdr r = Some res \<and> one_hop fs u ses res"
proof (cases "choose_out fs outpath")
  case None
  then show ?thesis
    using stop_one_hop [OF hop_ofI [OF assms(2,3)]] by (simp add: receive_body_def)
next
  case (Some pf)
  obtain path f where pf: "pf = (path, f)" by fastforce
  let ?b = "if r_chunked r
      then map_option (\<lambda>(rc, s, f', w). (rc, snd s, f', w)) (body_chunked conn_read write_all c hdr r f)
      else body_plain conn_read write_all c hdr r f"
  obtain rc c' f' w where b: "?b = Some (rc, c', f', w)" and id: "ident c' = ident c"
    using body_chunked_total [of c hdr r f] body_plain_result [OF assms(1), of c f]
      body_chunked_ident [of c hdr r f] body_plain_ident [of c hdr r f]
    by (cases "r_chunked r") fastforce+
  have "hop_of u ses \<lparr>hop_url = u, hop_ses = conn_close (ses\<lparr>ses_conn := c'\<rparr>)\<rparr>"
    using hop_ofI assms(2,3) id by metis
  with Some pf b show ?thesis by (simp add: receive_body_def one_hop_def out_settled_def out_of_def split: option.split)
qed

lemma exchange_result:
  "(\<exists>res. exchange opts fs outpath u ses = Finished (Some res) \<and> one_hop fs u ses res) \<or>
   (\<exists>h l. exchange opts fs outpath u ses = Redirect h l \<and> hop_of u ses h)"
proof -
  note close = stop_one_hop [OF hop_ofI]
  obtain ok c where wr: "conn_write (ses_conn ses) (request u) = (ok, c)" by fastforce
  obtain p where id: "ident c = (fd (ses_conn ses), tls (ses_conn ses), sent (ses_conn ses) @ p)"
    and p: "prefix p (request u)"
    using conn_write_ident [OF wr] by blast
  have id0: "ident (ses_conn ses) = (fd (ses_conn ses), tls (ses_conn ses), sent (ses_conn ses) @ [])"
    by (simp add: ident_def)
  show ?thesis
  proof (cases "length (request u) < REQBUF \<and> ok")
    case False
    then show ?thesis
      using close [OF id0, of u fs EX_URL] close [OF id p, of fs EX_IO] wr
      by (auto simp: exchange_def Let_def not_less)
  next
    case True
    consider (bad) x c' where "read_headers conn_read c = Some (Inl x, c')"
      | (good) hdr r c' where "read_headers conn_read c = Some (Inr (hdr, r), c')"
          "length (pending hdr r) = r_body_len r"
      using read_headers_total [of c] by blast
    then show ?thesis
    proof cases
      case bad
      note rh = bad
      then show ?thesis
        using True wr close [OF trans [OF read_headers_ident [OF rh] id] p, of fs x]
        by (auto simp: exchange_def Let_def)
    next
      case good
      note rh = good(1) and len = good(2)
      have id': "ident c' = (fd (ses_conn ses), tls (ses_conn ses), sent (ses_conn ses) @ p)"
        using read_headers_ident [OF rh] id by simp
      show ?thesis
        using True wr rh close [OF id' p, of fs] hop_ofI [OF id' p]
          receive_body_result [OF len id' p, of fs outpath]
        by (auto simp: exchange_def Let_def)
    qed
  qed
qed

lemma request_fits: "url_wf u \<Longrightarrow> length (request u) < REQBUF"
  by (simp add: request_def url_wf_def const_defs CRLF_def)

subsection \<open>The whole run\<close>

text \<open>The network's contract: every \<open>socket\<close> call returns a descriptor that is not open.\<close>

definition fresh_net :: "net \<Rightarrow> bool" where
  "fresh_net n =
     (\<forall>host port res. resolver n host port = Some res \<longrightarrow>
        fresh_fds [] (start_events (start_of n) (candidates res)))"

definition balanced :: "session \<Rightarrow> bool" where
  "balanced ses = (mset (opened (ses_race ses)) = mset (closed (ses_race ses)))"

text \<open>What one connection must satisfy: see \<open>fetch_safe\<close>.\<close>

definition hop_safe :: "options \<Rightarrow> net \<Rightarrow> hop \<Rightarrow> bool" where
  "hop_safe opts n h =
     (url_wf (hop_url h) \<and>
      (fresh_net n \<longrightarrow> balanced (hop_ses h)) \<and>
      (\<exists>p. prefix p (request (hop_url h)) \<and> sent (ses_conn (hop_ses h)) = sent (peer n) @ p \<and>
         (p \<noteq> [] \<and> u_tls (hop_url h) \<and> \<not> opt_insecure opts \<longrightarrow>
            authenticated (u_host (hop_url h)) (opt_cafile opts) (tls_of n) (ses_tls (hop_ses h)))))"

lemma conn_open_failed:
  assumes "conn_open opts n (u_host u) (u_port u) (u_tls u) = (e, ses)" and "e \<noteq> EX_OK" and "url_wf u"
  shows "hop_safe opts n \<lparr>hop_url = u, hop_ses = ses\<rparr>"
proof -
  let ?tcp = "tcp_connect (opt_timeout opts) (resolver n (u_host u) (u_port u)) (start_of n) (polls n)"
  have "sent (ses_conn ses) = sent (peer n)"
    using assms(1,2) by (auto simp: conn_open_cases split: prod.splits sum.splits if_splits bool.splits)
  moreover have "balanced ses" if "fresh_net n"
    using assms(1,2) that
      tcp_connect_settled [of "resolver n (u_host u) (u_port u)" "start_of n" "opt_timeout opts" "polls n"]
    by (auto simp: conn_open_cases fresh_net_def balanced_def close_fd_def
        split: prod.splits sum.splits if_splits bool.splits)
  ultimately show ?thesis using assms(3) by (simp add: hop_safe_def)
qed

lemma hop_of_safe:
  assumes "conn_open opts n (u_host u) (u_port u) (u_tls u) = (EX_OK, ses)" and "url_wf u"
    and "hop_of u ses h"
  shows "hop_safe opts n h"
proof -
  obtain d where tcp: "tcp_connect (opt_timeout opts) (resolver n (u_host u) (u_port u)) (start_of n) (polls n) =
      (Inr d, ses_race ses)"
    and c: "ses_conn ses = (peer n)\<lparr>fd := d, tls := u_tls u\<rparr>"
    and t: "u_tls u \<Longrightarrow> tls_open opts (tls_of n) (u_host u) = (True, ses_tls ses)"
    using conn_open_ok [OF assms(1)] by (auto split: if_splits)
  obtain c' p where h: "h = \<lparr>hop_url = u, hop_ses = conn_close (ses\<lparr>ses_conn := c'\<rparr>)\<rparr>"
    and c': "fd c' = d" "tls c' = u_tls u" "sent c' = sent (peer n) @ p" and p: "prefix p (request u)"
    using assms(3) c by (auto simp: hop_of_def ident_def)
  have "balanced (hop_ses h)" if "fresh_net n"
    using tcp that
      tcp_connect_settled [of "resolver n (u_host u) (u_port u)" "start_of n" "opt_timeout opts" "polls n"]
    by (auto simp: h c' fresh_net_def balanced_def conn_close_def close_fd_def)
  moreover have "authenticated (u_host u) (opt_cafile opts) (tls_of n) (ses_tls (hop_ses h))"
    if "u_tls u" "\<not> opt_insecure opts"
    using tls_open_authenticated [OF t [OF that(1)] that(2)] that(1) c'(2)
    by (simp add: h conn_close_def authenticated_def)
  ultimately show ?thesis
    using assms(2) p c' by (auto simp: hop_safe_def h conn_close_def)
qed

definition run_safe :: "outputs \<Rightarrow> options \<Rightarrow> (nat \<Rightarrow> net) \<Rightarrow> nat \<Rightarrow> fetch_result \<Rightarrow> bool" where
  "run_safe fs opts nets depth r =
     (length (hops r) \<le> Suc MAX_REDIRECTS - depth \<and>
      (\<forall>i < length (hops r). hop_safe opts (nets (depth + i)) (hops r ! i)) \<and>
      out_settled fs r)"

lemma run_safe_add:
  assumes "run_safe fs opts nets (Suc depth) r" and "hop_safe opts (nets depth) h" and "depth \<le> MAX_REDIRECTS"
  shows "run_safe fs opts nets depth (r\<lparr>hops := h # hops r\<rparr>)"
  using assms by (auto simp: run_safe_def out_settled_def nth_Cons split: nat.splits)

text \<open>The five ways one call of \<open>fetch\<close> goes.\<close>

lemma fetch_cases:
  obtains (limit) "MAX_REDIRECTS < depth" "fetch opts fs nets urlstr outpath depth = stop fs EX_REDIRECT []"
    | (bad_url) "depth \<le> MAX_REDIRECTS" "url_parse urlstr = Some (Inl EX_URL)"
      "fetch opts fs nets urlstr outpath depth = stop fs EX_URL []"
    | (refused) u e ses where "depth \<le> MAX_REDIRECTS" "url_parse urlstr = Some (Inr u)" "url_wf u"
      "conn_open opts (nets depth) (u_host u) (u_port u) (u_tls u) = (e, ses)" "e \<noteq> EX_OK"
      "fetch opts fs nets urlstr outpath depth = stop fs e [\<lparr>hop_url = u, hop_ses = ses\<rparr>]"
    | (finished) u ses res where "depth \<le> MAX_REDIRECTS" "url_parse urlstr = Some (Inr u)" "url_wf u"
      "conn_open opts (nets depth) (u_host u) (u_port u) (u_tls u) = (EX_OK, ses)"
      "exchange opts fs outpath u ses = Finished (Some res)" "one_hop fs u ses res"
      "fetch opts fs nets urlstr outpath depth = Some res"
    | (redirect) u ses h l where "depth \<le> MAX_REDIRECTS" "url_parse urlstr = Some (Inr u)" "url_wf u"
      "conn_open opts (nets depth) (u_host u) (u_port u) (u_tls u) = (EX_OK, ses)"
      "exchange opts fs outpath u ses = Redirect h l" "hop_of u ses h"
      "fetch opts fs nets urlstr outpath depth = add_hop h (fetch opts fs nets l outpath (Suc depth))"
proof -
  note run = fetch.simps [of opts fs nets urlstr outpath depth]
  consider "MAX_REDIRECTS < depth" | "depth \<le> MAX_REDIRECTS" "url_parse urlstr = Some (Inl EX_URL)"
    | u where "depth \<le> MAX_REDIRECTS" "url_parse urlstr = Some (Inr u)" "url_wf u"
    using url_parse_total [of urlstr] by fastforce
  then show thesis
  proof cases
    case (3 u)
    obtain e ses where op: "conn_open opts (nets depth) (u_host u) (u_port u) (u_tls u) = (e, ses)" by fastforce
    show thesis
      using exchange_result [of opts fs outpath u ses] run 3 op refused [OF 3 op]
        finished [OF 3, of ses] redirect [OF 3, of ses]
      by (cases "e = EX_OK") auto
  qed (use run limit bad_url in auto)
qed

lemma fetch_run: "\<exists>r. fetch opts fs nets urlstr outpath depth = Some r \<and> run_safe fs opts nets depth r"
proof (induction "Suc MAX_REDIRECTS - depth" arbitrary: urlstr depth rule: less_induct)
  case less
  show ?case
  proof (cases rule: fetch_cases [of depth opts fs nets urlstr outpath])
    case (refused u e ses)
    then show ?thesis using conn_open_failed [OF refused(4,5,3)] by (simp add: stop_def run_safe_def out_settled_def)
  next
    case (finished u ses res)
    then show ?thesis using hop_of_safe [OF finished(4,3)] by (auto simp: one_hop_def run_safe_def)
  next
    case (redirect u ses h l)
    then have "Suc MAX_REDIRECTS - Suc depth < Suc MAX_REDIRECTS - depth" by simp
    then obtain r where r: "fetch opts fs nets l outpath (Suc depth) = Some r" "run_safe fs opts nets (Suc depth) r"
      using less by blast
    then show ?thesis
      using run_safe_add [OF r(2) hop_of_safe [OF redirect(4,3,6)] redirect(1)] redirect(7) by (simp add: add_hop_def)
  qed (simp_all add: stop_def run_safe_def out_settled_def)
qed


text \<open>
  C12: no connection of a run, redirects included, leaks a socket: whatever path \<open>fetch\<close> takes,
  each descriptor opened for a hop is closed exactly once.
\<close>

theorem fetch_sockets_closed:
  assumes "\<And>d. fresh_net (nets d)" and "fetch opts fs nets urlstr outpath 0 = Some r" and "h \<in> set (hops r)"
  shows "mset (opened (ses_race (hop_ses h))) = mset (closed (ses_race (hop_ses h)))"
  using fetch_run [of opts fs nets urlstr outpath 0] assms
  by (auto simp: run_safe_def hop_safe_def balanced_def in_set_conv_nth)

text \<open>
  Nothing goes out on an unverified TLS connection. Without \<open>-k\<close>, a connection to an
  \<open>https\<close> URL carries a byte only if the CA bundle was read, verification was required, the
  handshake completed for the URL's host and the verification flags are clear; and what any
  connection carries is a prefix of the one request for its URL.
\<close>

theorem fetch_sends_authenticated:
  assumes "fetch opts fs nets urlstr outpath 0 = Some r" and "i < length (hops r)"
  defines "h \<equiv> hops r ! i"
  shows "\<exists>p. prefix p (request (hop_url h)) \<and> sent (ses_conn (hop_ses h)) = sent (peer (nets i)) @ p \<and>
    (p \<noteq> [] \<and> u_tls (hop_url h) \<and> \<not> opt_insecure opts \<longrightarrow>
       authenticated (u_host (hop_url h)) (opt_cafile opts) (tls_of (nets i)) (ses_tls (hop_ses h)))"
  using fetch_run [of opts fs nets urlstr outpath 0] assms by (auto simp: run_safe_def hop_safe_def)

subsection \<open>A successful download\<close>

lemma find_sub_skip: "CR \<notin> set h \<Longrightarrow> find_sub CRLF2 (h @ t) = map_option ((+) (length h)) (find_sub CRLF2 t)"
  by (induction h; cases "find_sub CRLF2 t") (auto simp: CRLF2_def has_prefix_def)

lemma find_sub_blank: "find_sub CRLF2 (CRLF2 @ t) = Some 0"
  by (simp add: CRLF2_def has_prefix_def)

lemma find_sub_line:
  "hd y \<noteq> CR \<Longrightarrow> y \<noteq> [] \<Longrightarrow> find_sub CRLF2 (CRLF @ y) = map_option (\<lambda>i. i + 2) (find_sub CRLF2 y)"
  by (cases y; cases "find_sub CRLF2 y") (auto simp: CRLF2_def CRLF_def CR_def LF_def has_prefix_def)

lemma head_blank:
  assumes "CR \<notin> set sl" and "CR \<notin> set h" and "h \<noteq> []"
  shows "find_sub CRLF2 ((sl @ header_lines [h]) @ CRLF2 @ body) = Some (length (sl @ header_lines [h]))"
proof -
  have hd: "hd (h @ CRLF2 @ body) \<noteq> CR" "h @ CRLF2 @ body \<noteq> []"
    using assms(2,3) by (cases h; auto)+
  have "find_sub CRLF2 (h @ CRLF2 @ body) = Some (length h)"
    unfolding find_sub_skip [OF assms(2)] find_sub_blank by simp
  then have "find_sub CRLF2 (CRLF @ h @ CRLF2 @ body) = Some (length h + 2)"
    unfolding find_sub_line [OF hd] by (simp only: option.map)
  then show ?thesis
    using find_sub_skip [OF assms(1), of "CRLF @ h @ CRLF2 @ body"] by (simp add: CRLF_def)
qed

lemma response_head_blank:
  assumes "CR \<notin> set reason"
  shows "find_sub CRLF2 (response_head st reason len @ CRLF2 @ body) =
     Some (length (response_head st reason len))"
proof -
  let ?sl = "''HTTP/1.1 '' @ dec_of st @ '' '' @ reason" and ?h = "''Content-Length: '' @ dec_of len"
  have "CR \<notin> set ?sl" "CR \<notin> set ?h" "?h \<noteq> []" using assms dec_of_clean by (auto simp: CR_def)
  from head_blank [OF this, of body] show ?thesis by (simp add: response_head_def)
qed

lemma conn_write_content:
  "conn_write c bs = (ok, c') \<Longrightarrow> conn_content c' = conn_content c \<and> conn_faulty c' = conn_faulty c"
  by (auto simp: conn_write_def conn_content_def conn_faulty_def split: if_splits prod.splits)

text \<open>A server that answers with a status line, a length and the body, whole and in order.\<close>

definition serves :: "session \<Rightarrow> nat \<Rightarrow> string \<Rightarrow> string \<Rightarrow> bool" where
  "serves ses st reason body =
     (conn_ready (ses_conn ses) \<and> \<not> conn_faulty (ses_conn ses) \<and>
      conn_content (ses_conn ses) = response_head st reason (length body) @ CRLF2 @ body \<and>
      CR \<notin> set reason \<and> NUL \<notin> set reason \<and> int (length body) \<le> LLONG_MAX \<and>
      length (response_head st reason (length body)) + 4 \<le> HDRBUF - 1)"

lemma serves_response:
  assumes "serves ses st reason body" and "int st \<le> INT_MAX" and "conn_write (ses_conn ses) bs = (ok, c)"
  shows "\<exists>hdr r c'. read_headers conn_read c = Some (Inr (hdr, r), c') \<and> r_status r = int st \<and>
     r_location r = [] \<and> \<not> r_chunked r \<and> r_length r = int (length body) \<and>
     length (pending hdr r) = r_body_len r \<and> pending hdr r @ conn_content c' = body \<and> \<not> conn_faulty c'"
proof -
  let ?head = "response_head st reason (length body)"
  have c: "conn_content c = ?head @ CRLF2 @ body" "\<not> conn_faulty c"
    using conn_write_content [OF assms(3)] assms(1) by (auto simp: serves_def)
  have find: "find_sub CRLF2 (conn_content c) = Some (length ?head)"
    using response_head_blank assms(1) by (simp add: c serves_def)
  obtain hdr c' where hdr: "hdr @ conn_content c' = conn_content c" "length ?head + 4 \<le> length hdr"
      "conn_faulty c' = conn_faulty c"
    and rh: "read_headers conn_read c =
      (case parse_headers hdr (length ?head) of
         Inl x \<Rightarrow> Some (Inl x, c') | Inr r \<Rightarrow> Some (Inr (hdr, r), c'))"
    using read_headers_split [OF find] assms(1) by (auto simp: serves_def)
  obtain body1 where body1: "hdr = (?head @ CRLF2) @ body1" "body1 @ conn_content c' = body"
    using append_split [of hdr "conn_content c'" "?head @ CRLF2" body] hdr(1,2)
    by (auto simp: c CRLF2_def)
  obtain r where r: "parse_headers hdr (length ?head) = Inr r"
    and fields: "r_status r = int st \<and> r_length r = int (length body) \<and> \<not> r_chunked r \<and> r_location r = []"
    and pend: "pending hdr r = body1"
    using response_head_parsed [of st "length body" reason body1] assms(1,2)
    by (auto simp: body1 serves_def)
  show ?thesis
    using rh r fields pend body1(2) pending_parse [OF r] hdr(3) c(2) by auto
qed

lemma fetch_success:
  assumes "url_parse urlstr = Some (Inr u)"
    and "conn_open opts (nets depth) (u_host u) (u_port u) (u_tls u) = (EX_OK, ses)"
    and "serves ses st reason body" and "st < 400"
    and "choose_out fs outpath = Some (path, f)" and "file_ready f"
    and "depth \<le> MAX_REDIRECTS"
  shows "\<exists>r h. fetch opts fs nets urlstr outpath depth = Some r \<and> status r = EX_OK \<and>
    data (sink r) = data f @ body \<and> out_file r = path \<and> hops r = [h] \<and> hop_url h = u \<and>
    sent (ses_conn (hop_ses h)) = sent (ses_conn ses) @ request u \<and> fd (ses_conn (hop_ses h)) = - 1"
proof -
  have u: "length (request u) < REQBUF"
    using url_parse_total [of urlstr] assms(1) request_fits by auto
  obtain ok c where wr: "conn_write (ses_conn ses) (request u) = (ok, c)" by fastforce
  have ok: "ok" using conn_snk.wr_ready [OF wr] assms(3) by (simp add: serves_def)
  have "int st \<le> INT_MAX" using assms(4) by (simp add: INT_MAX_def)
  then obtain hdr r c' where rh: "read_headers conn_read c = Some (Inr (hdr, r), c')"
    and r: "r_status r = int st" "r_location r = []" "\<not> r_chunked r" "r_length r = int (length body)"
      "length (pending hdr r) = r_body_len r" "pending hdr r @ conn_content c' = body" "\<not> conn_faulty c'"
    using serves_response [OF assms(3) _ wr] by blast
  have goal: "plain_goal (r_length r) (pending hdr r) (conn_content c') = body"
    using r(4,6) by (auto simp: plain_goal_def)
  obtain c2 f2 w where body: "body_plain conn_read write_all c' hdr r f = Some (EX_OK, c2, f2, w)"
    and f2: "data f2 = data f @ body"
    using body_plain_result [OF r(5), of c' f] r(7) assms(6) goal
    by (auto simp: transferred_def)
  have "sent c2 = sent (ses_conn ses) @ request u"
    using body_plain_ident [OF body] read_headers_ident [OF rh] conn_write_ident [OF wr] ok
    by (auto simp: ident_def)
  then show ?thesis
    using assms u wr ok rh r body f2
    by (simp add: fetch.simps [of _ _ _ _ _ depth] exchange_def is_redirect_def receive_body_def conn_close_def)
qed

text \<open>
  A download, end to end. When the connection opens and the server sends a well-formed
  response with a status below 400 and a \<open>Content-Length\<close>, the run succeeds however the bytes
  are cut into socket reads and file writes, and the output holds exactly the body; the server
  has received exactly the request, and the socket is closed.
\<close>

theorem fetch_delivers:
  assumes "url_parse urlstr = Some (Inr u)"
    and "conn_open opts (nets 0) (u_host u) (u_port u) (u_tls u) = (EX_OK, ses)"
    and "serves ses st reason body" and "st < 400"
    and "choose_out fs outpath = Some (path, f)" and "file_ready f"
  shows "\<exists>r h. fetch opts fs nets urlstr outpath 0 = Some r \<and> status r = EX_OK \<and>
    data (sink r) = data f @ body \<and> out_file r = path \<and> hops r = [h] \<and>
    sent (ses_conn (hop_ses h)) = sent (ses_conn ses) @ request u \<and> fd (ses_conn (hop_ses h)) = - 1"
  using fetch_success [where opts = opts and nets = nets, OF assms] by auto

text \<open>A server on the IPv4 address of \<open>dual_stack\<close>, with its response cut in the blank line.\<close>

definition demo_tls :: tls_env where
  "demo_tls = \<lparr>HGET_TLS = True, seed_rc = 0, defaults_rc = 0, ca_rc = (\<lambda>_. 0), setup_rc = 0, hostname_rc = (\<lambda>_. 0),
     handshakes = [Hs_want_read, Hs_done], verify_flags = 0\<rparr>"

definition demo_peer :: conn where
  "demo_peer = no_conn\<lparr>
     recvs := [Recv_bytes (CHR ''H'') (''TTP/1.1 200 OK'' @ CRLF @ ''Content-Length: 5'' @ [CR]),
               Recv_fail EINTR, Recv_bytes LF (CRLF @ ''hel''), Recv_bytes (CHR ''l'') ''o''],
     ssl_reads := [Ssl_bytes (CHR ''H'') (''TTP/1.1 200 OK'' @ CRLF @ ''Content-Length: 5'' @ [CR]),
               Ssl_want_read, Ssl_bytes LF (CRLF @ ''hel''), Ssl_bytes (CHR ''l'') ''o'']\<rparr>"

definition demo_net :: net where
  "demo_net = \<lparr>resolver = (\<lambda>_ _. Some dual_stack), start_of = dual_start,
     polls = [Poll_timeout, Poll_ready dual_status], tls_of = demo_tls, peer = demo_peer\<rparr>"

definition demo_outputs :: outputs where
  "demo_outputs = \<lparr>stdout = \<lparr>writes = [], data = []\<rparr>,
     open_out = (\<lambda>p. Some \<lparr>writes = [Accepted 1, Write_fail EINTR], data = []\<rparr>), out_fd = (\<lambda>p. 3)\<rparr>"

lemma demo_tcp:
  "\<exists>s. tcp_connect 30 (Some dual_stack) dual_start [Poll_timeout, Poll_ready dual_status] = (Inr 4, s)"
  unfolding tcp_connect_def option.case dual_events
  by (simp add: Let_def race_steps init_race_def MAX_ADDRS_def deadline_ms_small race_loop.simps
      scan.simps dual_status_def)

lemma demo_tls_open: "\<exists>t. tls_open default_options demo_tls host = (True, t)"
  by (simp add: tls_open_def tls_auth_def demo_tls_def default_options_def Let_def)

lemma demo_tls_built: "HGET_TLS demo_tls"
  by (simp add: demo_tls_def)

definition demo_url :: url where
  "demo_url = \<lparr>u_tls = True, u_host = ''a'', u_port = ''443'', u_path = ''/''\<rparr>"

lemma demo_url_parse: "url_parse ''https://a/'' = Some (Inr demo_url)"
  by (simp add: url_parse_def url_scheme_def url_copy_defs url_authority_def copied_def has_prefix_def
      const_defs demo_url_def)

definition demo_session :: session where
  "demo_session = snd (conn_open default_options demo_net ''a'' ''443'' True)"

lemma demo_open:
  "conn_open default_options demo_net ''a'' ''443'' True = (EX_OK, demo_session)"
  "ses_conn demo_session = demo_peer\<lparr>fd := 4, tls := True\<rparr>"
  using demo_tcp demo_tls_built demo_tls_open [of "''a''"]
  by (auto simp: demo_session_def conn_open_def demo_net_def default_options_def Let_def)

lemma demo_serves: "serves demo_session 200 ''OK'' ''hello''"
proof -
  have head: "response_head 200 ''OK'' (length ''hello'') = ''HTTP/1.1 200 OK'' @ CRLF @ ''Content-Length: 5''"
    by code_simp
  show ?thesis
    unfolding serves_def head demo_open
    by (simp add: demo_peer_def no_conn_def conn_ready_def conn_faulty_def conn_content_def crlf_defs
        const_defs NUL_def)
qed

lemma fetch_delivers_witness:
  "\<exists>r h. fetch default_options demo_outputs (\<lambda>_. demo_net) ''https://a/'' (Some ''f'') 0 = Some r \<and>
     status r = EX_OK \<and> data (sink r) = ''hello'' \<and> out_file r = Some ''f'' \<and> hops r = [h] \<and>
     sent (ses_conn (hop_ses h)) = request demo_url \<and> fd (ses_conn (hop_ses h)) = - 1"
  using fetch_delivers [of "''https://a/''" demo_url default_options "\<lambda>_. demo_net" demo_session 200 "''OK''"
      "''hello''" demo_outputs "Some ''f''" "Some ''f''" "\<lparr>writes = [Accepted 1, Write_fail EINTR], data = []\<rparr>"]
  by (simp add: demo_url_parse demo_open demo_serves choose_out_def demo_outputs_def file_ready_def
      demo_url_def demo_peer_def no_conn_def)

text \<open>The run of the demonstration, for the properties above that speak of a given result.\<close>

lemma demo_run:
  "\<exists>r h. fetch default_options demo_outputs (\<lambda>_. demo_net) ''https://a/'' None 0 = Some r \<and> hops r = [h] \<and>
     hop_url h = demo_url \<and> sent (ses_conn (hop_ses h)) = request demo_url"
  using fetch_success [of "''https://a/''" demo_url default_options "\<lambda>_. demo_net" 0 demo_session 200 "''OK''"
      "''hello''" demo_outputs None None "\<lparr>writes = [], data = []\<rparr>"]
  by (auto simp: demo_url_parse demo_open demo_serves choose_out_def demo_outputs_def file_ready_def
      demo_url_def demo_peer_def no_conn_def)

lemma demo_fresh: "fresh_net demo_net"
  by (auto simp: fresh_net_def demo_net_def dual_events)

lemma fetch_sockets_closed_witness:
  "\<exists>r h. fetch default_options demo_outputs (\<lambda>_. demo_net) ''https://a/'' None 0 = Some r \<and> h \<in> set (hops r) \<and>
     mset (opened (ses_race (hop_ses h))) = mset (closed (ses_race (hop_ses h)))"
proof -
  obtain r h where r: "fetch default_options demo_outputs (\<lambda>_. demo_net) ''https://a/'' None 0 = Some r"
    and h: "h \<in> set (hops r)"
    using demo_run by fastforce
  show ?thesis using fetch_sockets_closed [OF demo_fresh r h] r h by blast
qed

lemma fetch_sends_authenticated_witness:
  "\<exists>r h p. fetch default_options demo_outputs (\<lambda>_. demo_net) ''https://a/'' None 0 = Some r \<and> hops r = [h] \<and>
     prefix p (request (hop_url h)) \<and> sent (ses_conn (hop_ses h)) = sent demo_peer @ p \<and>
     (p \<noteq> [] \<and> u_tls (hop_url h) \<and> \<not> opt_insecure default_options \<longrightarrow>
        authenticated (u_host (hop_url h)) (opt_cafile default_options) demo_tls (ses_tls (hop_ses h)))"
proof -
  obtain r h where r: "fetch default_options demo_outputs (\<lambda>_. demo_net) ''https://a/'' None 0 = Some r"
    and h: "hops r = [h]"
    using demo_run by blast
  have "0 < length (hops r)" using h by simp
  from fetch_sends_authenticated [OF r this] show ?thesis
    using r h by (fastforce simp: demo_net_def)
qed

subsection \<open>The command line\<close>

text \<open>What the parser has accepted, relative to the options it started from.\<close>

definition args_ok :: "options \<Rightarrow> string option \<Rightarrow> string list \<Rightarrow> options \<Rightarrow> string option \<Rightarrow> bool" where
  "args_ok opts outpath args opts' outpath' =
     ((opt_insecure opts' \<longrightarrow> opt_insecure opts \<or> ''-k'' \<in> set args) \<and>
      (opt_cafile opts' = opt_cafile opts \<or> opt_cafile opts' \<in> set args) \<and>
      (outpath' = outpath \<or> (\<exists>p \<in> set args. outpath' = Some p)))"

lemma args_ok_trans:
  "args_ok opts out as o1 out1 \<Longrightarrow> args_ok o1 out1 bs o2 out2 \<Longrightarrow> set as \<subseteq> set cs \<Longrightarrow> set bs \<subseteq> set cs \<Longrightarrow>
     args_ok opts out cs o2 out2"
  by (auto simp: args_ok_def)

lemma args_ok_option:
  "args_ok opts outpath args opts outpath"
  "args_ok opts outpath args (opts\<lparr>opt_quiet := b\<rparr>) outpath"
  "args_ok opts outpath args (opts\<lparr>opt_follow := b\<rparr>) outpath"
  "args_ok opts outpath args (opts\<lparr>opt_timeout := t\<rparr>) outpath"
  "p \<in> set args \<Longrightarrow> args_ok opts outpath args (opts\<lparr>opt_cafile := p\<rparr>) outpath"
  "p \<in> set args \<Longrightarrow> args_ok opts outpath args opts (Some p)"
  by (auto simp: args_ok_def)

lemma parse_args_fetch:
  "parse_args opts outpath args = Cli_fetch opts' outpath' u \<Longrightarrow>
     u \<in> set args \<and> 0 < opt_timeout opts' \<and> args_ok opts outpath args opts' outpath'"
proof (induction "length args" arbitrary: opts outpath args rule: less_induct)
  case less
  show ?case
  proof (cases args)
    case Nil
    then show ?thesis using less.prems by simp
  next
    case (Cons a as)
    note step = less.prems [unfolded Cons parse_args.simps]
    have rec: ?thesis if "parse_args o1 out1 rest = Cli_fetch opts' outpath' u"
      "rest = as \<or> as \<noteq> [] \<and> rest = tl as" "args_ok opts outpath args o1 out1" for o1 out1 rest
    proof -
      have sub: "set rest \<subseteq> set args" "length rest < length args"
        using that(2) Cons by (auto simp: list.set_sel(2))
      show ?thesis
        using less.hyps [OF sub(2) that(1)] args_ok_trans [OF that(3) _ _ sub(1)] sub(1) by auto
    qed
    note ok = args_ok_option [where args = args and opts = opts and outpath = outpath]
    have k: "args_ok opts outpath args (opts\<lparr>opt_insecure := True\<rparr>) outpath" if "a = ''-k''"
      using Cons that by (simp add: args_ok_def)
    have arg: "as \<noteq> [] \<Longrightarrow> hd as \<in> set args" using Cons by simp
    show ?thesis
    proof (cases "take 1 a \<noteq> ''-'' \<or> a = ''-''")
      case True
      then show ?thesis using step Cons ok by (auto split: if_splits)
    next
      case False
      let ?R = "Cli_fetch opts' outpath' u"
      from step [unfolded if_not_P [OF False]]
      consider "as \<noteq> []" "parse_args opts (Some (hd as)) (tl as) = ?R"
        | "as \<noteq> []" "parse_args (opts\<lparr>opt_timeout := atoi (hd as)\<rparr>) outpath (tl as) = ?R"
        | "as \<noteq> []" "parse_args (opts\<lparr>opt_cafile := hd as\<rparr>) outpath (tl as) = ?R"
        | "parse_args (opts\<lparr>opt_quiet := True\<rparr>) outpath as = ?R"
        | "a = ''-k''" "parse_args (opts\<lparr>opt_insecure := True\<rparr>) outpath as = ?R"
        | "parse_args (opts\<lparr>opt_follow := True\<rparr>) outpath as = ?R"
        | "parse_args (opts\<lparr>opt_follow := False\<rparr>) outpath as = ?R"
        by (simp only: cli.distinct simp_thms split: if_split_asm)
      then show ?thesis
        by cases ((rule rec, assumption); auto intro: ok k arg)+
    qed
  qed
qed

text \<open>
  C4: the program as a whole. \<open>main\<close> always ends with an exit code; and unless \<open>-k\<close> is among the arguments, every byte sent to an \<open>https\<close> server went
  over a connection authenticated against the default bundle or one named on the command line.
\<close>

theorem hget_main_verified:
  assumes "''-k'' \<notin> set args"
  shows "\<exists>r. hget_main fs nets args = Some r \<and>
    (\<forall>i < length (hops r). u_tls (hop_url (hops r ! i)) \<longrightarrow>
       sent (ses_conn (hop_ses (hops r ! i))) = sent (peer (nets i)) \<or>
       (\<exists>ca \<in> insert (opt_cafile default_options) (set args).
          authenticated (u_host (hop_url (hops r ! i))) ca (tls_of (nets i)) (ses_tls (hop_ses (hops r ! i)))))"
proof (cases "parse_args default_options None args")
  case (Cli_exit e)
  then show ?thesis by (simp add: hget_main_def stop_def)
next
  case (Cli_fetch opts outpath u)
  have args: "\<not> opt_insecure opts" "opt_cafile opts \<in> insert (opt_cafile default_options) (set args)"
    using parse_args_fetch [OF Cli_fetch] assms by (auto simp: args_ok_def default_options_def)
  obtain r where "fetch opts fs nets u outpath 0 = Some r" and safe: "run_safe fs opts nets 0 r"
    using fetch_run by blast
  moreover have "sent (ses_conn (hop_ses (hops r ! i))) = sent (peer (nets i)) \<or>
      authenticated (u_host (hop_url (hops r ! i))) (opt_cafile opts) (tls_of (nets i))
        (ses_tls (hop_ses (hops r ! i)))"
    if "i < length (hops r)" "u_tls (hop_url (hops r ! i))" for i
  proof -
    have "hop_safe opts (nets i) (hops r ! i)" using safe that(1) by (simp add: run_safe_def)
    then show ?thesis using that(2) args(1) by (auto simp: hop_safe_def)
  qed
  ultimately show ?thesis
    using args(2) by (fastforce simp only: hget_main_def Cli_fetch cli.case)
qed

text \<open>The demonstration server gets the request, and is authenticated with the default CA bundle.\<close>

lemma hget_main_verified_witness:
  "\<exists>r h. hget_main demo_outputs (\<lambda>_. demo_net) [''https://a/''] = Some r \<and> hops r = [h] \<and>
     sent (ses_conn (hop_ses h)) = request demo_url \<and>
     (\<exists>ca \<in> {opt_cafile default_options, ''https://a/''}. authenticated ''a'' ca demo_tls (ses_tls (hop_ses h)))"
proof -
  obtain r h where r: "fetch default_options demo_outputs (\<lambda>_. demo_net) ''https://a/'' None 0 = Some r"
    and h: "hops r = [h]" "hop_url h = demo_url" "sent (ses_conn (hop_ses h)) = request demo_url"
    using demo_run by blast
  have run: "hget_main demo_outputs (\<lambda>_. demo_net) [''https://a/''] = Some r"
    using r by (simp add: hget_main_def default_options_def)
  have "request demo_url \<noteq> sent (peer demo_net)"
    by (simp add: request_def demo_net_def demo_peer_def no_conn_def)
  then show ?thesis
    using hget_main_verified [of "[''https://a/'']" demo_outputs "\<lambda>_. demo_net"] run h
    by (simp add: demo_url_def demo_net_def)
qed

end
