(* ===== verification/HgetRedirect.thy ===== *)
theory HgetRedirect
  imports HgetFetch
begin

text \<open>
  Redirects of \<open>fetch\<close> (\<open>board/hget/hget.c\<close>): a chain of redirecting servers is followed to
  its end, up to the limit of eight, and what a server puts into a \<open>Location\<close> header cannot
  add a line that ends in CRLF to the request that follows it.
\<close>

subsection \<open>A redirecting server\<close>

definition redirect_head :: "nat \<Rightarrow> string \<Rightarrow> string \<Rightarrow> string" where
  "redirect_head st reason loc =
     ''HTTP/1.1 '' @ dec_of st @ '' '' @ reason @ CRLF @ ''Location: '' @ loc"

text \<open>A server that answers with an absolute \<open>Location\<close>; whatever follows the blank line.\<close>

definition serves_redirect :: "session \<Rightarrow> nat \<Rightarrow> string \<Rightarrow> string \<Rightarrow> string \<Rightarrow> bool" where
  "serves_redirect ses st reason loc body =
     (conn_ready (ses_conn ses) \<and> 300 \<le> st \<and> st < 400 \<and>
      conn_content (ses_conn ses) = redirect_head st reason loc @ CRLF2 @ body \<and>
      CR \<notin> set reason \<and> NUL \<notin> set reason \<and> CR \<notin> set loc \<and> NUL \<notin> set loc \<and>
      is_absolute loc \<and> length loc < URLBUF \<and>
      length (redirect_head st reason loc) + 4 \<le> HDRBUF - 1)"

lemma absolute_start: "is_absolute loc \<Longrightarrow> \<exists>t. loc = CHR ''h'' # t"
  by (cases loc) (auto simp: is_absolute_def has_prefix_def)

lemma location_line:
  assumes "is_absolute loc" and "length loc < URLBUF"
  shows "header_line (''Location: '' @ loc) r = r\<lparr>r_location := loc\<rparr>"
proof -
  let ?h = "''Location: '' @ loc"
  have "\<not> ci_prefix ?h ''content-length:''" "\<not> ci_prefix ?h ''transfer-encoding:''"
    by (simp_all add: c_lower_def)
  moreover have "ci_prefix ?h ''location:''"
    by (subst ci_prefix_append) (simp, code_simp)
  moreover have "skip_ws (drop 9 ?h) = loc"
    using absolute_start [OF assms(1)] by (auto simp: skip_ws_def)
  ultimately show ?thesis
    using assms(2) by (simp only: header_line_def Let_def if_True if_False simp_thms)
qed

lemma redirect_response:
  assumes "serves_redirect ses st reason loc body" and "conn_write (ses_conn ses) bs = (ok, c)"
  shows "\<exists>hdr r c'. read_headers conn_read c = Some (Inr (hdr, r), c') \<and> r_status r = int st \<and>
     r_location r = loc"
proof -
  let ?sl = "''HTTP/1.1 '' @ dec_of st @ '' '' @ reason" and ?h = "''Location: '' @ loc"
  note srv = assms(1) [unfolded serves_redirect_def]
  have head: "redirect_head st reason loc = ?sl @ header_lines [?h]" by (simp add: redirect_head_def)
  have h: "CR \<notin> set ?h" "NUL \<notin> set ?h" "?h \<noteq> []" "CR \<notin> set ?sl"
    using srv dec_of_clean by (auto simp: CR_def NUL_def)
  have c: "conn_content c = redirect_head st reason loc @ CRLF2 @ body"
    using conn_write_content [OF assms(2)] srv by simp
  have "find_sub CRLF2 (conn_content c) = Some (length (redirect_head st reason loc))"
    unfolding c head by (rule head_blank [OF h(4,1,3)])
  from read_headers_split [OF this] srv obtain hdr c' where
    hdr: "hdr @ conn_content c' = conn_content c" "length (redirect_head st reason loc) + 4 \<le> length hdr"
    and rh: "read_headers conn_read c =
      (case parse_headers hdr (length (redirect_head st reason loc)) of
         Inl x \<Rightarrow> Some (Inl x, c') | Inr r \<Rightarrow> Some (Inr (hdr, r), c'))"
    by blast
  obtain body1 where body1: "hdr = (redirect_head st reason loc @ CRLF2) @ body1"
    using append_split [of hdr "conn_content c'" "redirect_head st reason loc @ CRLF2" body] hdr
    by (auto simp: c CRLF2_def)
  have st: "int st \<le> INT_MAX" using srv by (simp add: INT_MAX_def)
  show ?thesis
    using rh srv status_line_parsed [OF st _ _ h(1,2), of reason body1]
      location_line [of loc]
    by (simp add: body1 head)
qed

subsection \<open>Following a chain\<close>

text \<open>
  From depth \<open>d\<close> and URL \<open>s\<close>, the servers of the URLs \<open>us\<close> redirect one to the next, the last
  of them to \<open>t\<close>.
\<close>

inductive redirects :: "options \<Rightarrow> (nat \<Rightarrow> net) \<Rightarrow> nat \<Rightarrow> string \<Rightarrow> url list \<Rightarrow> string \<Rightarrow> bool"
  for opts nets where
  there: "redirects opts nets d s [] s"
| onward: "url_parse s = Some (Inr u) \<Longrightarrow>
    conn_open opts (nets d) (u_host u) (u_port u) (u_tls u) = (EX_OK, ses) \<Longrightarrow>
    serves_redirect ses st reason loc body \<Longrightarrow> redirects opts nets (Suc d) loc us t \<Longrightarrow>
    redirects opts nets d s (u # us) t"

text \<open>What a followed hop leaves: its request sent whole, its socket closed.\<close>

definition asked :: "net \<Rightarrow> url \<Rightarrow> hop \<Rightarrow> bool" where
  "asked n u h =
     (hop_url h = u \<and> sent (ses_conn (hop_ses h)) = sent (peer n) @ request u \<and>
      fd (ses_conn (hop_ses h)) = - 1)"

lemma exchange_redirect:
  assumes "serves_redirect ses st reason loc body" and "opt_follow opts" and "url_wf u"
    and "conn_open opts n (u_host u) (u_port u) (u_tls u) = (EX_OK, ses)"
  shows "\<exists>h. exchange opts fs outpath u ses = Redirect h loc \<and> asked n u h"
proof -
  obtain ok c where wr: "conn_write (ses_conn ses) (request u) = (ok, c)" by fastforce
  have ok: "ok" using conn_snk.wr_ready [OF wr] assms(1) by (simp add: serves_redirect_def)
  obtain hdr r c' where rh: "read_headers conn_read c = Some (Inr (hdr, r), c')"
    and r: "r_status r = int st" "r_location r = loc"
    using redirect_response [OF assms(1) wr] by blast
  have "is_redirect opts r" "is_absolute loc"
    using assms(1,2) r by (auto simp: is_redirect_def serves_redirect_def is_absolute_def has_prefix_def)
  moreover have "sent c' = sent (peer n) @ request u"
    using read_headers_ident [OF rh] conn_write_ident [OF wr] ok conn_open_ok [OF assms(4)]
    by (auto simp: ident_def)
  ultimately show ?thesis
    using wr ok rh r(2) request_fits [OF assms(3)]
    by (simp add: exchange_def asked_def conn_close_def)
qed

lemma fetch_chain:
  assumes "redirects opts nets d s us t" and "opt_follow opts" and "d + length us \<le> Suc MAX_REDIRECTS"
  shows "\<exists>hs. list_all2 (\<lambda>i h. asked (nets (d + i)) (us ! i) h) [0..<length us] hs \<and>
    fetch opts fs nets s outpath d =
      map_option (\<lambda>r. r\<lparr>hops := hs @ hops r\<rparr>) (fetch opts fs nets t outpath (d + length us))"
  using assms
proof (induction rule: redirects.induct)
  case (there d s)
  then show ?case by (cases "fetch opts fs nets s outpath d") auto
next
  case (onward s u d ses st reason loc body us t)
  have wf: "url_wf u" using url_parse_total [of s] onward.hyps(1) by auto
  obtain h where h: "exchange opts fs outpath u ses = Redirect h loc" "asked (nets d) u h"
    using exchange_redirect [OF onward.hyps(3) onward.prems(1) wf onward.hyps(2)] by blast
  obtain hs where hs: "list_all2 (\<lambda>i h. asked (nets (Suc d + i)) (us ! i) h) [0..<length us] hs"
    and rest: "fetch opts fs nets loc outpath (Suc d) =
      map_option (\<lambda>r. r\<lparr>hops := hs @ hops r\<rparr>) (fetch opts fs nets t outpath (Suc d + length us))"
    using onward.IH onward.prems by auto
  have "fetch opts fs nets s outpath d = add_hop h (fetch opts fs nets loc outpath (Suc d))"
    using onward.hyps(1,2) onward.prems(2) h(1) by (simp add: fetch.simps [of _ _ _ s])
  moreover have "list_all2 (\<lambda>i h. asked (nets (d + i)) ((u # us) ! i) h) [0..<length (u # us)] (h # hs)"
    using h(2) hs by (simp add: upt_conv_Cons map_Suc_upt [symmetric] list_all2_map1 del: upt_Suc)
  ultimately show ?case
    using rest by (intro exI [of _ "h # hs"]) (simp add: add_hop_def option.map_comp comp_def)
qed

lemma fetch_chain_delivers:
  assumes "redirects opts nets 0 s us t" and "opt_follow opts" and "length us \<le> MAX_REDIRECTS"
    and "url_parse t = Some (Inr u)"
    and "conn_open opts (nets (length us)) (u_host u) (u_port u) (u_tls u) = (EX_OK, ses)"
    and "serves ses st reason body" and "st < 400"
    and "choose_out fs outpath = Some (path, f)" and "file_ready f"
  shows "\<exists>r. fetch opts fs nets s outpath 0 = Some r \<and> status r = EX_OK \<and>
    data (sink r) = data f @ body \<and> out_file r = path \<and>
    list_all2 (\<lambda>i h. asked (nets i) ((us @ [u]) ! i) h) [0..<Suc (length us)] (hops r)"
proof -
  obtain r h where r: "fetch opts fs nets t outpath (length us) = Some r" "status r = EX_OK"
      "data (sink r) = data f @ body" "out_file r = path"
    and h: "hops r = [h]" "hop_url h = u" "sent (ses_conn (hop_ses h)) = sent (ses_conn ses) @ request u"
      "fd (ses_conn (hop_ses h)) = - 1"
    using fetch_success [where opts = opts and nets = nets, OF assms(4-9,3)] by blast
  have "asked (nets (length us)) u h" using h conn_open_ok [OF assms(5)] by (auto simp: asked_def)
  moreover obtain hs where hs: "list_all2 (\<lambda>i h. asked (nets i) (us ! i) h) [0..<length us] hs"
    and chain: "fetch opts fs nets s outpath 0 =
      map_option (\<lambda>r. r\<lparr>hops := hs @ hops r\<rparr>) (fetch opts fs nets t outpath (length us))"
    using fetch_chain [OF assms(1,2), of fs outpath] assms(3) by auto
  moreover have "list_all2 (\<lambda>i h. asked (nets i) ((us @ [u]) ! i) h) [0..<length us] hs"
    using hs by (auto simp: list_all2_conv_all_nth nth_append)
  ultimately show ?thesis
    using r h(1) by (auto simp: list_all2_appendI nth_append)
qed

text \<open>
  C2: a download, end to end and through redirects. When up to eight servers redirect from the
  given URL one to the next and the last one answers with a well-formed response below 400 with a
  \<open>Content-Length\<close>, the run succeeds however the bytes are cut into socket reads and file writes:
  the output holds exactly the body, every server on the way has received exactly the request for
  its own URL, in that order, and every socket is closed.
\<close>

theorem fetch_follows:
  assumes "redirects opts nets 0 s us t" and "opt_follow opts" and "length us \<le> MAX_REDIRECTS"
    and "url_parse t = Some (Inr u)"
    and "conn_open opts (nets (length us)) (u_host u) (u_port u) (u_tls u) = (EX_OK, ses)"
    and "serves ses st reason body" and "st < 400"
    and "choose_out fs outpath = Some (path, f)" and "file_ready f"
  shows "\<exists>r. fetch opts fs nets s outpath 0 = Some r \<and> status r = EX_OK \<and>
    data (sink r) = data f @ body \<and> out_file r = path \<and>
    list_all2 (\<lambda>i h. asked (nets i) ((us @ [u]) ! i) h) [0..<Suc (length us)] (hops r)"
  by (rule fetch_chain_delivers [OF assms])

text \<open>
  C21: the redirect limit. A chain of nine redirects is not followed to its end, whatever the last
  one points to: the run asks the nine servers and then gives up with \<open>EX_REDIRECT\<close>, having opened
  no output file and written nothing.
\<close>

theorem redirect_limit:
  assumes "redirects opts nets 0 s us t" and "opt_follow opts" and "length us = Suc MAX_REDIRECTS"
  shows "\<exists>r. fetch opts fs nets s outpath 0 = Some r \<and> status r = EX_REDIRECT \<and>
    sink r = stdout fs \<and> out_file r = None \<and>
    list_all2 (\<lambda>i h. asked (nets i) (us ! i) h) [0..<length us] (hops r)"
proof -
  have "fetch opts fs nets t outpath (length us) = stop fs EX_REDIRECT []"
    using assms(3) by (simp add: fetch.simps [of _ _ _ t])
  then show ?thesis
    using fetch_chain [OF assms(1,2), of fs outpath] assms(3) by (auto simp: stop_def)
qed

subsection \<open>What a redirect can put into a request\<close>

text \<open>A string in which no line ends.\<close>

definition one_line :: "string \<Rightarrow> bool" where
  "one_line x = (find_sub CRLF x = None)"

lemma one_line_iff: "one_line x \<longleftrightarrow> \<not> sublist CRLF x"
proof -
  have "has_prefix (drop j x) CRLF \<Longrightarrow> sublist CRLF x" for j
    using has_prefix_decomp [of "drop j x" CRLF] by (metis append_take_drop_id sublist_appendI)
  moreover have "\<exists>j \<le> length x. has_prefix (drop j x) CRLF" if "sublist CRLF x"
  proof -
    obtain ps ss where "x = ps @ CRLF @ ss" using \<open>sublist CRLF x\<close> by (auto simp: sublist_def)
    then show ?thesis by (intro exI [of _ "length ps"]) simp
  qed
  ultimately show ?thesis by (auto simp: one_line_def find_sub_None)
qed

lemma one_line_sublist: "one_line x \<Longrightarrow> sublist y x \<Longrightarrow> one_line y"
  by (auto simp: one_line_iff dest: sublist_order.order.trans)

lemma one_line_drop: "one_line x \<Longrightarrow> one_line (drop n x)"
  and one_line_take: "one_line x \<Longrightarrow> one_line (take n x)"
  and one_line_skip: "one_line x \<Longrightarrow> one_line (dropWhile P x)"
  and one_line_c_str: "one_line x \<Longrightarrow> one_line (c_str x)"
  by (auto simp: c_str_def elim!: one_line_sublist
      intro: suffix_imp_sublist prefix_imp_sublist suffix_drop take_is_prefix suffix_dropWhile
        takeWhile_is_prefix)

lemma one_line_append:
  "one_line a \<Longrightarrow> one_line b \<Longrightarrow> a = [] \<or> last a \<noteq> CR \<or> b = [] \<or> hd b \<noteq> LF \<Longrightarrow> one_line (a @ b)"
  by (auto simp: one_line_iff sublist_append CRLF_def Cons_eq_append_conv suffix_def prefix_def)

lemma one_line_no_CR: "CR \<notin> set x \<Longrightarrow> one_line x"
  by (simp add: one_line_def find_crlf_none)

lemma find_line_end: "one_line x \<Longrightarrow> find_sub CRLF (x @ CRLF @ t) = Some (length x)"
  using find_pair [of CR LF x t] by (simp add: one_line_def CRLF_def CR_def LF_def)

text \<open>Only a value without a line end is stored as the \<open>Location\<close>.\<close>

lemma header_line_one_line: "one_line l \<Longrightarrow> one_line (r_location r) \<Longrightarrow> one_line (r_location (header_line l r))"
  by (simp add: header_line_def Let_def skip_ws_def one_line_drop one_line_skip)

lemma find_sub_before:
  assumes "find_sub CRLF x = Some i" shows "one_line (take i x)"
proof -
  have "x = take i x @ CRLF @ drop (i + 2) x" using find_sub_split [OF assms] by (simp add: CRLF_def)
  then show ?thesis
    using assms find_sub_append_Some [of CRLF "take i x" _ "CRLF @ drop (i + 2) x"] find_sub_bound [of CRLF "take i x"]
    by (cases "find_sub CRLF (take i x)") (auto simp: one_line_def CRLF_def)
qed

lemma walk_lines_one_line: "one_line (r_location r) \<Longrightarrow> one_line (r_location (walk_lines s r))"
proof (induction s r rule: walk_lines.induct)
  case (1 s r)
  then show ?case
    by (subst walk_lines.simps)
       (auto simp: Let_def header_line_one_line find_sub_before one_line_def [symmetric] split: option.splits)
qed

lemma parse_headers_one_line: "parse_headers hdr e = Inr r \<Longrightarrow> one_line (r_location r)"
  by (auto simp: parse_headers_def Let_def empty_resp_def one_line_no_CR
      intro!: walk_lines_one_line split: if_splits option.splits)

lemma read_headers_one_line:
  assumes "read_headers conn_read c = Some (Inr (hdr, r), c')"
  shows "one_line (r_location r)"
proof -
  obtain e where "parse_headers hdr e = Inr r"
    using assms by (auto simp: read_headers_def split: option.splits sum.splits)
  then show ?thesis by (rule parse_headers_one_line)
qed

text \<open>The parts of a parsed URL are pieces of the string, so they have no line end either.\<close>

definition one_line_url :: "url \<Rightarrow> bool" where
  "one_line_url u = (one_line (u_path u) \<and> one_line (u_host u))"

lemmas one_line_pieces = one_line_drop one_line_take

lemma url_authority_one_line:
  "url_authority h port = Some (Inr (host, q)) \<Longrightarrow> one_line h \<Longrightarrow> one_line host"
  by (auto simp: url_authority_def url_copy_defs copied_def and_then_Inr one_line_pieces
      split: if_splits option.splits)

lemma url_parse_one_line:
  assumes "url_parse s = Some (Inr u)" and "one_line s"
  shows "one_line_url u"
proof -
  obtain tls port p where p: "url_scheme s = Some (tls, port, p)"
    using assms(1) by (auto simp: url_parse_def split: option.splits)
  then have "one_line p" using assms(2) one_line_drop by (auto simp: url_scheme_def split: if_splits)
  then show ?thesis
    using assms(1) p
    by (auto simp: url_parse_def and_then_Inr one_line_url_def url_copy_defs one_line_pieces
        one_line_no_CR [of "''/''", unfolded CR_def] intro: url_authority_one_line split: if_splits option.splits)
qed

lemma exchange_hop:
  "exchange opts fs outpath u ses = Redirect h l \<Longrightarrow> hop_url h = u \<and> one_line l"
  using read_headers_one_line
  by (fastforce simp: exchange_def Let_def split: if_splits option.splits prod.splits sum.splits)

lemma exchange_finished:
  "exchange opts fs outpath u ses = Finished (Some r) \<Longrightarrow> map hop_url (hops r) = [u]"
  using exchange_result [of opts fs outpath u ses] by (auto simp: one_hop_def hop_of_def)

lemma fetch_one_line:
  assumes "fetch opts fs nets s outpath depth = Some r"
  shows "case map hop_url (hops r) of
      [] \<Rightarrow> True
    | u # us \<Rightarrow> url_parse s = Some (Inr u) \<and> (\<forall>v \<in> set us. one_line_url v)"
  using assms
proof (induction "Suc MAX_REDIRECTS - depth" arbitrary: s depth r rule: less_induct)
  case less
  show ?case
  proof (cases rule: fetch_cases [of depth opts fs nets s outpath])
    case (finished u ses res)
    then show ?thesis using less.prems exchange_finished by auto
  next
    case (redirect u ses h l)
    then obtain r' where r': "fetch opts fs nets l outpath (Suc depth) = Some r'" "r = r'\<lparr>hops := h # hops r'\<rparr>"
      using less.prems [unfolded redirect(7)] by (auto simp: add_hop_def)
    have "case map hop_url (hops r') of
        [] \<Rightarrow> True
      | v # vs \<Rightarrow> url_parse l = Some (Inr v) \<and> (\<forall>w \<in> set vs. one_line_url w)"
      using redirect(1) by (intro less.hyps [OF _ r'(1)]) simp
    then show ?thesis
      using redirect(2) r'(2) exchange_hop [OF redirect(5)] url_parse_one_line [of l]
      by (cases "hops r'") auto
  qed (use less.prems in \<open>simp_all add: stop_def split: list.splits\<close>)
qed

text \<open>What a server sees that reads a request line by line.\<close>

function crlf_lines :: "string \<Rightarrow> string list" where
  "crlf_lines s =
     (case find_sub CRLF s of None \<Rightarrow> [s] | Some i \<Rightarrow> take i s # crlf_lines (drop (i + 2) s))"
  by pat_completeness auto
termination
  by (relation "measure length") (auto dest!: find_sub_bound simp: CRLF_def)

declare crlf_lines.simps [simp del]

lemma crlf_lines_append: "one_line x \<Longrightarrow> crlf_lines (x @ CRLF @ t) = x # crlf_lines t"
  by (subst crlf_lines.simps) (simp add: find_line_end, simp add: CRLF_def)

lemma crlf_lines_nil: "crlf_lines [] = [[]]"
  by (subst crlf_lines.simps) (simp add: CRLF_def)

lemma request_lines:
  assumes "one_line_url u"
  shows "crlf_lines (request u) =
    [''GET '' @ u_path u @ '' HTTP/1.1'', ''Host: '' @ u_host u, ''User-Agent: hget/1.0'',
     ''Accept: */*'', ''Connection: close'', [], []]"
proof -
  have const: "one_line ''GET ''" "one_line '' HTTP/1.1''" "one_line ''Host: ''"
    "one_line ''User-Agent: hget/1.0''" "one_line ''Accept: */*''" "one_line ''Connection: close''" "one_line []"
    by (simp_all add: one_line_no_CR CR_def)
  have "one_line (''GET '' @ u_path u @ '' HTTP/1.1'')"
    by (rule one_line_append [OF const(1) one_line_append [OF _ const(2)]])
       (use assms in \<open>simp_all add: one_line_url_def CR_def LF_def\<close>)
  moreover have "one_line (''Host: '' @ u_host u)"
    by (rule one_line_append [OF const(3)]) (use assms in \<open>simp_all add: one_line_url_def CR_def\<close>)
  moreover have "request u = (''GET '' @ u_path u @ '' HTTP/1.1'') @ CRLF @ (''Host: '' @ u_host u) @ CRLF @
      ''User-Agent: hget/1.0'' @ CRLF @ ''Accept: */*'' @ CRLF @ ''Connection: close'' @ CRLF @ [] @ CRLF @ []"
    by (simp add: request_def)
  ultimately show ?thesis
    by (simp only: crlf_lines_append const crlf_lines_nil)
qed

lemma request_line_feeds:
  "count_list (request u) LF = 6 + count_list (u_path u) LF + count_list (u_host u) LF"
  by (simp add: request_def CRLF_def CR_def LF_def)

text \<open>
  C5: no CRLF injection through a redirect. Take any request of a run that follows a redirect, or
  the first one if the URL on the command line contains no CRLF. Split at CRLF it is exactly the
  five lines \<open>fetch\<close> means to send and the blank line, whatever the servers put into their
  \<open>Location\<close> headers. A bare line feed does pass: the request holds six line feeds plus those in
  the path and host of the URL, so a server that takes a bare line feed for a line end reads that
  many lines more.
\<close>

theorem redirect_no_injection:
  assumes "fetch opts fs nets s outpath 0 = Some r" and "i < length (hops r)"
    and "0 < i \<or> find_sub CRLF s = None"
  shows "let u = hop_url (hops r ! i) in
    crlf_lines (request u) =
      [''GET '' @ u_path u @ '' HTTP/1.1'', ''Host: '' @ u_host u, ''User-Agent: hget/1.0'',
       ''Accept: */*'', ''Connection: close'', [], []] \<and>
    count_list (request u) LF = 6 + count_list (u_path u) LF + count_list (u_host u) LF"
proof -
  have "one_line_url (hop_url (hops r ! i))"
    using fetch_one_line [OF assms(1)] assms(2,3) url_parse_one_line [of s]
    by (cases "hops r"; cases i) (auto simp: one_line_def)
  then show ?thesis by (simp add: request_lines request_line_feeds)
qed

subsection \<open>A redirecting network\<close>

text \<open>A plain HTTP server that sends every request on to \<open>loc\<close>.\<close>

definition moved_peer :: "string \<Rightarrow> conn" where
  "moved_peer loc = no_conn\<lparr>recvs :=
     [Recv_bytes (CHR ''H'') (''TTP/1.1 302 Found'' @ CRLF @ ''Loca''), Recv_fail EINTR,
      Recv_bytes (CHR ''t'') (''ion: '' @ loc @ CRLF2)]\<rparr>"

definition moved_net :: "string \<Rightarrow> net" where
  "moved_net loc = demo_net\<lparr>peer := moved_peer loc\<rparr>"

definition moved_url :: url where
  "moved_url = \<lparr>u_tls = False, u_host = ''r'', u_port = ''80'', u_path = ''/''\<rparr>"

lemma moved_url_parse: "url_parse ''http://r/'' = Some (Inr moved_url)"
  by (simp add: url_parse_def url_scheme_def url_copy_defs url_authority_def copied_def has_prefix_def
      const_defs moved_url_def)

lemma moved_open:
  "\<exists>ses. conn_open default_options (moved_net loc) ''r'' ''80'' False = (EX_OK, ses) \<and>
     ses_conn ses = (moved_peer loc)\<lparr>fd := 4, tls := False\<rparr>"
  using demo_tcp by (auto simp: conn_open_def moved_net_def demo_net_def default_options_def)

lemma moved_serves:
  assumes "loc \<in> {''http://r/'', ''https://a/''}"
    and "ses_conn ses = (moved_peer loc)\<lparr>fd := 4, tls := False\<rparr>"
  shows "serves_redirect ses 302 ''Found'' loc []"
proof -
  have head: "redirect_head 302 ''Found'' loc = ''HTTP/1.1 302 Found'' @ CRLF @ ''Location: '' @ loc" for loc
  proof -
    have "dec_of 302 = ''302''" by code_simp
    then show ?thesis by (simp add: redirect_head_def)
  qed
  show ?thesis
    using assms
    by (auto simp: serves_redirect_def head moved_peer_def no_conn_def conn_ready_def conn_content_def
        crlf_defs const_defs NUL_def is_absolute_def has_prefix_def)
qed

lemma moved_redirects:
  assumes "nets d = moved_net loc" and "loc \<in> {''http://r/'', ''https://a/''}"
    and "redirects default_options nets (Suc d) loc us t"
  shows "redirects default_options nets d ''http://r/'' (moved_url # us) t"
proof -
  obtain ses where "conn_open default_options (moved_net loc) ''r'' ''80'' False = (EX_OK, ses)"
    and "ses_conn ses = (moved_peer loc)\<lparr>fd := 4, tls := False\<rparr>"
    using moved_open by blast
  then show ?thesis
    using onward [OF moved_url_parse _ moved_serves [OF assms(2)] assms(3)] assms(1)
    by (simp add: moved_url_def)
qed

definition moved_nets :: "nat \<Rightarrow> net" where
  "moved_nets d = (if d = 0 then moved_net ''https://a/'' else demo_net)"

lemma moved_chain: "redirects default_options moved_nets 0 ''http://r/'' [moved_url] ''https://a/''"
  by (rule moved_redirects [OF _ _ there]) (simp_all add: moved_nets_def)

lemma follows_default: "opt_follow default_options"
  by (simp add: default_options_def)

lemma fetch_follows_witness:
  "\<exists>r. fetch default_options demo_outputs moved_nets ''http://r/'' (Some ''f'') 0 = Some r \<and>
     status r = EX_OK \<and> data (sink r) = ''hello'' \<and> out_file r = Some ''f'' \<and>
     list_all2 (\<lambda>i h. asked (moved_nets i) ([moved_url, demo_url] ! i) h) [0..<2] (hops r)"
  using fetch_follows [OF moved_chain follows_default, of demo_url demo_session 200 "''OK''" "''hello''"
      demo_outputs "Some ''f''" "Some ''f''" "\<lparr>writes = [Accepted 1, Write_fail EINTR], data = []\<rparr>"]
  by (simp add: demo_url_parse demo_serves choose_out_def demo_outputs_def file_ready_def moved_nets_def
      MAX_REDIRECTS_def demo_url_def demo_open numeral_2_eq_2)

lemma moved_run:
  "\<exists>r h0 h1. fetch default_options demo_outputs moved_nets ''http://r/'' None 0 = Some r \<and>
     hops r = [h0, h1] \<and> hop_url h1 = demo_url"
proof -
  obtain r where "fetch default_options demo_outputs moved_nets ''http://r/'' None 0 = Some r"
    and "list_all2 (\<lambda>i h. asked (moved_nets i) ([moved_url, demo_url] ! i) h) [0, 1] (hops r)"
    using fetch_chain_delivers [OF moved_chain follows_default, of demo_url demo_session 200 "''OK''" "''hello''"
        demo_outputs None None "\<lparr>writes = [], data = []\<rparr>"]
    by (auto simp: demo_url_parse demo_serves choose_out_def demo_outputs_def file_ready_def moved_nets_def
        MAX_REDIRECTS_def demo_url_def demo_open)
  then show ?thesis by (auto simp: list_all2_Cons1 asked_def)
qed

lemma moved_for_ever:
  "redirects default_options (\<lambda>_. moved_net ''http://r/'') d ''http://r/'' (replicate n moved_url) ''http://r/''"
  by (induction n arbitrary: d) (auto intro: there moved_redirects)

lemma redirect_limit_witness:
  "\<exists>r. fetch default_options demo_outputs (\<lambda>_. moved_net ''http://r/'') ''http://r/'' (Some ''f'') 0 = Some r \<and>
     status r = EX_REDIRECT \<and> sink r = stdout demo_outputs \<and> out_file r = None \<and> length (hops r) = 9"
  using redirect_limit [OF moved_for_ever [of 0 9] follows_default, of demo_outputs "Some ''f''"]
  by (auto simp: MAX_REDIRECTS_def dest: list_all2_lengthD)

lemma redirect_no_injection_witness:
  "\<exists>r. fetch default_options demo_outputs moved_nets ''http://r/'' None 0 = Some r \<and>
     crlf_lines (request (hop_url (hops r ! 1))) =
       [''GET / HTTP/1.1'', ''Host: a'', ''User-Agent: hget/1.0'', ''Accept: */*'', ''Connection: close'', [], []] \<and>
     count_list (request (hop_url (hops r ! 1))) LF = 6"
proof -
  obtain r h0 h1 where r: "fetch default_options demo_outputs moved_nets ''http://r/'' None 0 = Some r"
    and h: "hops r = [h0, h1]" "hop_url h1 = demo_url"
    using moved_run by blast
  from redirect_no_injection [OF r, of 1] show ?thesis
    using r h by (simp add: Let_def demo_url_def LF_def)
qed

end
