(* ===== verification/HgetSay.thy ===== *)
theory HgetSay
  imports HgetFetch
begin

text \<open>
  What \<open>hget\<close> says: the lines \<open>msg\<close>, \<open>err\<close> and \<open>usage\<close> write to standard error along a run, in
  order. Each stage has a function that lists its error lines from the same tests as the stage
  itself; \<open>fetch_lines\<close> composes them as \<open>fetch\<close> composes the stages. Texts that come from the C
  library and mbedTLS are the record \<open>texts\<close>.
\<close>

datatype line = Err string | Msg string | Usage string

record texts =
  gai_text :: string
  handshake_rc :: int
  verify_text :: "u32 \<Rightarrow> string"
  clock_flags :: u32
  clock_text :: string
  session_text :: "string \<times> string"
  open_error :: string
  mbedtls_version :: "string option"

text \<open>\<open>%d\<close> and \<open>%lld\<close>; \<open>%04x\<close> of an \<open>int\<close>.\<close>

definition dec_int :: "int \<Rightarrow> string" where
  "dec_int i = (if i < 0 then ''-'' @ dec_of (nat (- i)) else dec_of (nat i))"

definition hex04 :: "int \<Rightarrow> string" where
  "hex04 i = (let h = hex_of (nat (i mod 2 ^ 32)) in replicate (4 - length h) (CHR ''0'') @ h)"

text \<open>The stream: \<open>err\<close> has its prefix and line end, \<open>msg\<close> is silenced by \<open>-q\<close>.\<close>

fun shown :: "options \<Rightarrow> line \<Rightarrow> string" where
  "shown opts (Err m) = ''hget: '' @ m @ [LF]"
| "shown opts (Msg m) = (if opt_quiet opts then [] else m)"
| "shown opts (Usage m) = m"

definition stderr_text :: "options \<Rightarrow> line list \<Rightarrow> string" where
  "stderr_text opts ls = concat (map (shown opts) ls)"

subsection \<open>url_parse\<close>

definition port_errors :: "string \<Rightarrow> line list" where
  "port_errors q = (if PORTBUF \<le> length q then [Err ''bad port in URL''] else [])"

definition authority_errors :: "string \<Rightarrow> line list" where
  "authority_errors h =
     (if take 1 h \<noteq> ''['' then
        (case strchr h (CHR '':'') of None \<Rightarrow> [] | Some j \<Rightarrow> port_errors (drop (Suc j) h))
      else
        (case strchr h (CHR '']'') of
           None \<Rightarrow> [Err ''unterminated IPv6 literal in URL'']
         | Some k \<Rightarrow> if take 1 (drop (Suc k) h) = '':'' then port_errors (drop (k + 2) h) else []))"

definition url_errors :: "string \<Rightarrow> line list" where
  "url_errors s =
     (case url_scheme s of
        None \<Rightarrow> [Err ''only http:// and https:// URLs are supported'']
      | Some (tls', port, p) \<Rightarrow>
          (case url_copy_path p of
             Some (Inl e) \<Rightarrow> [Err ''path too long'']
           | _ \<Rightarrow>
               (case url_copy_host p of
                  Some (Inl e) \<Rightarrow> [Err ''bad or missing host in URL'']
                | Some (Inr h) \<Rightarrow> authority_errors h
                | None \<Rightarrow> [])))"

subsection \<open>conn_open\<close>

definition tcp_errors :: "texts \<Rightarrow> string \<Rightarrow> string \<Rightarrow> exit_code + int \<Rightarrow> line list" where
  "tcp_errors T host port res =
     (case res of
        Inl e \<Rightarrow>
          (if e = EX_RESOLVE then [Err (''cannot resolve '' @ host @ '': '' @ gai_text T)]
           else [Err (''cannot connect to '' @ host @ '':'' @ port)])
      | Inr d \<Rightarrow> [])"

text \<open>How a handshake that fails does so.\<close>

fun verify_failed :: "handshake_event list \<Rightarrow> bool" where
  "verify_failed (Hs_want_read # es) = verify_failed es"
| "verify_failed (Hs_want_write # es) = verify_failed es"
| "verify_failed (Hs_verify_failed # es) = True"
| "verify_failed es = False"

definition handshake_errors :: "texts \<Rightarrow> tls_env \<Rightarrow> line list" where
  "handshake_errors T env =
     (if handshake_loop (handshakes env) then []
      else if verify_failed (handshakes env) then
        [Err (''certificate rejected:'' @ [LF] @ verify_text T (verify_flags env))] @
        (if verify_flags env AND clock_flags T \<noteq> 0
         then [Err (''the clock reads '' @ take 24 (clock_text T) @
           '' -- if that is wrong, set it (date -s) and retry; there is no RTC on this board'')]
         else [])
      else [Err (''TLS handshake failed (-0x'' @ hex04 (- handshake_rc T) @ '')'')])"

definition rc_error :: "string \<Rightarrow> int \<Rightarrow> line" where
  "rc_error what rc = Err (what @ '' (-0x'' @ hex04 (- rc) @ '')'')"

definition tls_errors :: "texts \<Rightarrow> options \<Rightarrow> tls_env \<Rightarrow> string \<Rightarrow> line list" where
  "tls_errors T opts env host =
     (if seed_rc env \<noteq> 0 then [rc_error ''cannot seed RNG'' (seed_rc env)]
      else if defaults_rc env \<noteq> 0 then [rc_error ''TLS config failed'' (defaults_rc env)]
      else if \<not> opt_insecure opts \<and> ca_rc env (opt_cafile opts) < 0 then
        [Err (''no CA bundle at '' @ opt_cafile opts @
          '' -- install ca-certificates, or pass -k to skip verification'')]
      else if setup_rc env \<noteq> 0 then [rc_error ''TLS setup failed'' (setup_rc env)]
      else if hostname_rc env host \<noteq> 0 then [rc_error ''cannot set TLS hostname'' (hostname_rc env host)]
      else (case handshake_errors T env of
          l # ls \<Rightarrow> l # ls
        | [] \<Rightarrow>
            if verify_flags env \<noteq> 0 \<and> \<not> opt_insecure opts
            then [Err (''certificate rejected:'' @ [LF] @ verify_text T (verify_flags env))]
            else []))"

definition conn_lines :: "texts \<Rightarrow> options \<Rightarrow> net \<Rightarrow> string \<Rightarrow> string \<Rightarrow> bool \<Rightarrow> line list" where
  "conn_lines T opts n host port tls' =
     (case tcp_errors T host port (fst (tcp_connect (opt_timeout opts) (resolver n host port) (start_of n) (polls n))) of
        l # ls \<Rightarrow> l # ls
      | [] \<Rightarrow>
          if \<not> tls' then []
          else if \<not> HGET_TLS (tls_of n) then [Err ''built without TLS support, cannot fetch https'']
          else (case tls_errors T opts (tls_of n) host of
              l # ls \<Rightarrow> l # ls
            | [] \<Rightarrow> [Msg (''* TLS '' @ fst (session_text T) @ '', '' @ snd (session_text T) @ [LF])]))"

subsection \<open>read_headers\<close>

definition parse_errors :: "string \<Rightarrow> line list" where
  "parse_errors hdr =
     (if \<not> has_prefix (c_str hdr) ''HTTP/'' then [Err ''malformed response: not HTTP'']
      else if strchr (c_str hdr) (CHR '' '') = None then [Err ''malformed status line'']
      else [])"

definition header_errors :: "('c \<Rightarrow> nat \<Rightarrow> string option \<times> 'c) \<Rightarrow> 'c \<Rightarrow> line list" where
  "header_errors rd c =
     (case header_loop rd c [] of
        None \<Rightarrow> []
      | Some (Inl e, c') \<Rightarrow> [Err ''read failed while reading headers'']
      | Some (Inr (hdr, found), c') \<Rightarrow>
          (case (case found of Some e \<Rightarrow> Some e | None \<Rightarrow> find_sub CRLF2 hdr) of
             None \<Rightarrow> [Err ''malformed response: no end of headers'']
           | Some e \<Rightarrow> parse_errors hdr))"

subsection \<open>fetch\<close>

text \<open>\<open>url_parse\<close> and \<open>conn_open\<close> have returned; the rest of one call, up to the redirect.\<close>

definition body_lines :: "texts \<Rightarrow> outputs \<Rightarrow> string option \<Rightarrow> conn \<Rightarrow> string \<Rightarrow> resp \<Rightarrow> line list" where
  "body_lines T fs outpath c hdr r =
     (case choose_out fs outpath of
        None \<Rightarrow> [Err (''cannot open '' @ the outpath @ '': '' @ open_error T)]
      | Some (path, f) \<Rightarrow>
          (case (if r_chunked r
                 then map_option (\<lambda>(rc, s, f', w). (rc, w)) (body_chunked conn_read write_all c hdr r f)
                 else map_option (\<lambda>(rc, c', f', w). (rc, w)) (body_plain conn_read write_all c hdr r f)) of
             None \<Rightarrow> []
           | Some (rc, w) \<Rightarrow>
               if rc \<noteq> EX_OK then [Err (''transfer failed after '' @ dec_int w @ '' bytes'')]
               else [Msg (''* '' @ dec_int w @ '' bytes'' @ [LF])]))"

definition exchange_lines :: "texts \<Rightarrow> options \<Rightarrow> outputs \<Rightarrow> string option \<Rightarrow> url \<Rightarrow> session \<Rightarrow> line list" where
  "exchange_lines T opts fs outpath u ses =
     (if REQBUF \<le> length (request u) then [Err ''request too long'']
      else (case conn_write (ses_conn ses) (request u) of
        (ok, c) \<Rightarrow>
          if \<not> ok then [Err ''failed to send request'']
          else (case read_headers conn_read c of
                  None \<Rightarrow> []
                | Some (Inl e, c') \<Rightarrow> header_errors conn_read c
                | Some (Inr (hdr, r), c') \<Rightarrow>
                    [Msg (''< HTTP '' @ dec_int (r_status r) @ [LF])] @
                    (if is_redirect opts r then
                       (if \<not> is_absolute (r_location r)
                        then [Err (''relative redirect to '' @ [CHR 0x27] @ r_location r @ [CHR 0x27] @ '' not supported'')]
                        else [Msg (''* redirect -> '' @ r_location r @ [LF])])
                     else if 400 \<le> r_status r then [Err (''server returned HTTP '' @ dec_int (r_status r))]
                     else body_lines T fs outpath c' hdr r))))"

function fetch_lines ::
    "texts \<Rightarrow> options \<Rightarrow> outputs \<Rightarrow> (nat \<Rightarrow> net) \<Rightarrow> string \<Rightarrow> string option \<Rightarrow> nat \<Rightarrow> line list" where
  "fetch_lines T opts fs nets urlstr outpath depth =
     (if MAX_REDIRECTS < depth then [Err ''too many redirects'']
      else (case url_parse urlstr of
              Some (Inr u) \<Rightarrow>
                [Msg (''* '' @ u_host u @ '':'' @ u_port u @ (if u_tls u then '' (TLS)'' else []) @ [LF])] @
                conn_lines T opts (nets depth) (u_host u) (u_port u) (u_tls u) @
                (case conn_open opts (nets depth) (u_host u) (u_port u) (u_tls u) of
                   (e, ses) \<Rightarrow>
                     if e \<noteq> EX_OK then []
                     else exchange_lines T opts fs outpath u ses @
                       (case exchange opts fs outpath u ses of
                          Finished res \<Rightarrow> []
                        | Redirect h url' \<Rightarrow> fetch_lines T opts fs nets url' outpath (Suc depth)))
            | _ \<Rightarrow> url_errors urlstr))"
  by pat_completeness auto
termination
  by (relation "measure (\<lambda>(T, opts, fs, nets, urlstr, outpath, depth). Suc MAX_REDIRECTS - depth)") auto

declare fetch_lines.simps [simp del]

subsection \<open>main\<close>

definition HGET_VERSION :: string where
  "HGET_VERSION = ''1.0''"

definition usage :: "options \<Rightarrow> line" where
  "usage opts = Usage (
     ''hget '' @ HGET_VERSION @ '' -- single-threaded HTTP/HTTPS GET'' @ [LF] @ [LF] @
     ''usage: hget [options] URL'' @ [LF] @ [LF] @
     ''  -o FILE   write body to FILE ('' @ [CHR 0x27] @ ''-'' @ [CHR 0x27] @ '' for stdout, the default)'' @ [LF] @
     ''  -q        quiet: no progress on stderr'' @ [LF] @
     ''  -k        do not verify the server certificate'' @ [LF] @
     ''  -L        follow redirects (default)'' @ [LF] @
     ''  -N        do not follow redirects'' @ [LF] @
     ''  -T SEC    connect and I/O timeout, default 30'' @ [LF] @
     ''  -c FILE   CA bundle (default '' @ opt_cafile opts @ '')'' @ [LF] @
     ''  -V        version'' @ [LF] @ [LF] @
     ''exit: 0 ok, 2 bad url, 3 resolve, 4 connect, 5 tls,'' @ [LF] @
     ''      6 http >=400, 7 i/o, 8 redirects, 9 bad response'' @ [LF])"

text \<open>What the command line alone makes the program print: on standard output, and its lines.\<close>

fun cli_lines :: "texts \<Rightarrow> options \<Rightarrow> string list \<Rightarrow> string \<times> line list" where
  "cli_lines T opts [] = ([], [usage opts])"
| "cli_lines T opts (a # as) =
     (if take 1 a \<noteq> ''-'' \<or> a = ''-'' then ([], [])
      else if a = ''-o'' \<and> as \<noteq> [] then cli_lines T opts (tl as)
      else if a = ''-T'' \<and> as \<noteq> [] then cli_lines T (opts\<lparr>opt_timeout := atoi (hd as)\<rparr>) (tl as)
      else if a = ''-c'' \<and> as \<noteq> [] then cli_lines T (opts\<lparr>opt_cafile := hd as\<rparr>) (tl as)
      else if a = ''-q'' then cli_lines T (opts\<lparr>opt_quiet := True\<rparr>) as
      else if a = ''-k'' then cli_lines T (opts\<lparr>opt_insecure := True\<rparr>) as
      else if a = ''-L'' then cli_lines T (opts\<lparr>opt_follow := True\<rparr>) as
      else if a = ''-N'' then cli_lines T (opts\<lparr>opt_follow := False\<rparr>) as
      else if a = ''-V'' then
        (''hget '' @ HGET_VERSION @
           (case mbedtls_version T of Some v \<Rightarrow> '' (mbedTLS '' @ v @ '')'' | None \<Rightarrow> '' (no TLS)'') @ [LF], [])
      else if a = ''-h'' \<or> a = ''--help'' then ([], [usage opts])
      else ([], [Err (''unknown option '' @ a), usage opts]))"

definition main_lines :: "texts \<Rightarrow> outputs \<Rightarrow> (nat \<Rightarrow> net) \<Rightarrow> string list \<Rightarrow> line list" where
  "main_lines T fs nets args =
     (case parse_args default_options None args of
        Cli_exit e \<Rightarrow> snd (cli_lines T default_options args)
      | Cli_fetch opts outpath url \<Rightarrow> fetch_lines T opts fs nets url outpath 0)"

subsection \<open>A failure is reported, a success is not called one\<close>

lemma port_errors_iff: "port_errors q = [] \<longleftrightarrow> url_copy_port q \<noteq> Some (Inl EX_URL)"
  by (auto simp: port_errors_def url_copy_defs copied_def)

lemma authority_errors_iff:
  "length h < HOSTBUF \<Longrightarrow> length port < PORTBUF \<Longrightarrow>
     authority_errors h = [] \<longleftrightarrow> url_authority h port \<noteq> Some (Inl EX_URL)"
  by (auto simp: authority_errors_def port_errors_iff url_authority_def and_then_iff
      url_copy_defs copied_def split: option.splits)

fun is_err :: "line \<Rightarrow> bool" where
  "is_err (Err m) = True"
| "is_err l = False"

definition progress :: "line list \<Rightarrow> bool" where
  "progress ls = (\<forall>l \<in> set ls. \<exists>m. l = Msg m)"

lemma progress_simps [simp]:
  "progress []" "progress (Msg m # ls) = progress ls" "\<not> progress (Err m # ls)"
  "progress (ls @ ls') = (progress ls \<and> progress ls')"
  by (auto simp: progress_def)

text \<open>The lines of a run that ends with an exit code: the last line reports a failure, and only a failure.\<close>

definition reports :: "exit_code \<Rightarrow> line list \<Rightarrow> bool" where
  "reports e ls = (if e = EX_OK then progress ls else ls \<noteq> [] \<and> is_err (last ls))"

lemma reports_append: "progress pre \<Longrightarrow> reports e ls \<Longrightarrow> reports e (pre @ ls)"
  by (fastforce simp: reports_def progress_def)

lemma reports_progress: "progress ls \<Longrightarrow> reports EX_OK ls"
  by (fastforce simp: reports_def progress_def)

lemma reports_err: "e \<noteq> EX_OK \<Longrightarrow> reports e [Err m]" "e \<noteq> EX_OK \<Longrightarrow> reports e [Err m, Err m']"
  by (simp_all add: reports_def)

lemma url_errors_reports:
  "url_parse s = Some (Inl e) \<Longrightarrow> reports e (url_errors s)"
  "url_parse s = Some (Inr u) \<Longrightarrow> url_errors s = []"
proof -
  have auth: "authority_errors h \<noteq> [] \<Longrightarrow> reports EX_URL (authority_errors h)" for h
    by (auto simp: authority_errors_def port_errors_def reports_err split: option.splits)
  have iff: "authority_errors h = [] \<longleftrightarrow> url_authority h port \<noteq> Some (Inl EX_URL)"
    if "url_copy_host p = Some (Inr h)" "url_scheme s = Some (t, port, q)" for h p port t q
    using authority_errors_iff [of h port] url_copy_host_cases [of p] url_scheme_port [OF that(2)] that(1) by auto
  show "reports e (url_errors s)" if parse: "url_parse s = Some (Inl e)"
  proof (cases "url_scheme s")
    case None
    then show ?thesis using parse by (auto simp: url_errors_def url_parse_def reports_err)
  next
    case (Some x)
    obtain t port p where x: "x = (t, port, p)" by (cases x) auto
    show ?thesis
      using parse Some x url_copy_path_cases [of p] url_copy_host_cases [of p] iff [of p _ t port p] auth url_parse_total [of s]
      by (auto simp: url_errors_def url_parse_def and_then_iff reports_err split: prod.splits)
  qed
  show "url_errors s = []" if parse: "url_parse s = Some (Inr u)"
    using parse iff by (fastforce simp: url_errors_def url_parse_def and_then_iff split: option.splits prod.splits)
qed

lemma handshake_errors_iff: "handshake_errors T env = [] \<longleftrightarrow> handshake_loop (handshakes env)"
  by (simp add: handshake_errors_def)

lemma tls_errors_reports:
  assumes "tls_open opts env host = (ok, t)"
  shows "if ok then tls_errors T opts env host = [] else reports EX_TLS (tls_errors T opts env host)"
proof -
  have hs: "handshake_errors T env \<noteq> [] \<Longrightarrow> reports EX_TLS (handshake_errors T env)"
    by (auto simp: handshake_errors_def reports_err)
  show ?thesis
    using assms hs handshake_errors_iff [of T env]
    by (auto simp: tls_open_def tls_auth_def tls_errors_def rc_error_def Let_def reports_err
        split: if_splits list.splits)
qed

lemma conn_lines_reports:
  assumes "conn_open opts n host port tls' = (e, ses)"
  shows "reports e (conn_lines T opts n host port tls')" "e = EX_OK \<Longrightarrow> progress (conn_lines T opts n host port tls')"
proof -
  obtain res r where tcp: "tcp_connect (opt_timeout opts) (resolver n host port) (start_of n) (polls n) = (res, r)"
    by fastforce
  have fail: "\<exists>m. tcp_errors T host port (Inl e) = [Err m]" for e
    by (simp add: tcp_errors_def)
  have code: "res = Inl e \<Longrightarrow> e \<noteq> EX_OK" for e
    using tcp by (auto simp: tcp_connect_def Let_def split: option.splits if_splits)
  obtain ok t where tls: "tls_open opts (tls_of n) host = (ok, t)" by fastforce
  note report = tls_errors_reports [OF tls, of T]
  show "reports e (conn_lines T opts n host port tls')"
  proof (cases res)
    case (Inl e')
    then show ?thesis using assms fail [of e'] code by (auto simp: conn_open_def conn_lines_def tcp reports_err)
  next
    case (Inr d)
    then show ?thesis
      using assms report
      by (cases "tls_errors T opts (tls_of n) host")
        (auto simp: conn_open_def conn_lines_def tcp tcp_errors_def tls Let_def reports_def split: if_splits bool.splits)
  qed
  show "progress (conn_lines T opts n host port tls')" if "e = EX_OK"
    using assms that code report
    by (cases res)
      (auto simp: conn_open_def conn_lines_def tcp tcp_errors_def tls Let_def split: if_splits bool.splits)
qed

lemma header_loop_code:
  assumes "header_loop rd c h = Some x"
  shows "\<forall>e. fst x = Inl e \<longrightarrow> e = EX_IO"
proof (rule header_loop.raw_induct
    [where P = "\<lambda>rd c h x. \<forall>e. fst x = Inl e \<longrightarrow> e = EX_IO", OF _ assms], goal_cases)
  case (1 loop rd c h x)
  obtain r c1 where rd: "rd c (HDRBUF - 1 - length h) = (r, c1)" by fastforce
  show ?case
    using 1 rd by (auto split: if_splits option.splits)
qed

lemma parse_errors_reports: "parse_headers hdr i = Inl e \<Longrightarrow> reports e (parse_errors hdr)"
  by (auto simp: parse_headers_def parse_errors_def Let_def reports_err split: option.splits if_splits)

lemma header_errors_reports:
  assumes "read_headers rd c = Some (Inl e, c')"
  shows "reports e (header_errors rd c)"
proof -
  obtain y c1 where x: "header_loop rd c [] = Some (y, c1)" using assms by (auto simp: read_headers_def split: option.splits)
  show ?thesis
  proof (cases y)
    case (Inl e')
    then show ?thesis
      using assms header_loop_code [OF x] by (auto simp: read_headers_def header_errors_def x reports_err)
  next
    case (Inr hf)
    then show ?thesis
      using assms parse_errors_reports [of "fst hf" _ e]
      by (auto simp: read_headers_def header_errors_def x reports_err split: option.splits sum.splits prod.splits)
  qed
qed

lemma body_lines_reports:
  assumes "receive_body fs outpath u ses c hdr r = Some res"
  shows "reports (status res) (body_lines T fs outpath c hdr r)"
  using assms
  by (auto simp: receive_body_def body_lines_def stop_def reports_err reports_progress split: option.splits if_splits prod.splits)

lemma exchange_lines_reports:
  "exchange opts fs outpath u ses = Finished (Some res) \<Longrightarrow> reports (status res) (exchange_lines T opts fs outpath u ses)"
  "exchange opts fs outpath u ses = Redirect h l \<Longrightarrow> progress (exchange_lines T opts fs outpath u ses)"
proof -
  obtain ok c where wr: "conn_write (ses_conn ses) (request u) = (ok, c)" by fastforce
  show "progress (exchange_lines T opts fs outpath u ses)" if "exchange opts fs outpath u ses = Redirect h l"
    using that
    by (auto simp: exchange_def exchange_lines_def wr Let_def split: if_splits option.splits sum.splits prod.splits)
  show "reports (status res) (exchange_lines T opts fs outpath u ses)"
    if ex: "exchange opts fs outpath u ses = Finished (Some res)"
  proof (cases "length (request u) < REQBUF \<and> ok")
    case False
    then show ?thesis using ex by (auto simp: exchange_def exchange_lines_def wr Let_def stop_def reports_err split: if_splits)
  next
    case True
    then obtain x c1 where rh: "read_headers conn_read c = Some (x, c1)"
      using ex by (auto simp: exchange_def wr Let_def split: option.splits)
    show ?thesis
    proof (cases x)
      case (Inl e)
      then show ?thesis
        using ex True header_errors_reports [of conn_read c e c1] rh
        by (auto simp: exchange_def exchange_lines_def wr Let_def stop_def)
    next
      case (Inr hr)
      obtain hdr r where hr: "hr = (hdr, r)" by fastforce
      have "reports (status res) ([Msg m] @ ls)" if "reports (status res) ls" for m ls
        using that by (intro reports_append) simp_all
      then show ?thesis
        using ex True rh Inr hr body_lines_reports [of fs outpath u ses c1 hdr r res T]
        by (auto simp: exchange_def exchange_lines_def wr Let_def stop_def reports_err split: if_splits)
    qed
  qed
qed

lemma opened_progress:
  "conn_open opts n host port tls' = (EX_OK, ses) \<Longrightarrow> progress ([Msg m] @ conn_lines T opts n host port tls')"
  using conn_lines_reports(2) [of opts n host port tls' EX_OK ses T] by simp

text \<open>One call of \<open>fetch\<close>, redirects included.\<close>

lemma fetch_lines_reports:
  "fetch opts fs nets urlstr outpath depth = Some res \<Longrightarrow>
     reports (status res) (fetch_lines T opts fs nets urlstr outpath depth)"
proof (induction "Suc MAX_REDIRECTS - depth" arbitrary: urlstr depth res rule: less_induct)
  case less
  note lines = fetch_lines.simps [of T opts fs nets urlstr outpath depth]
  show ?case
  proof (cases rule: fetch_cases [of depth opts fs nets urlstr outpath])
    case limit
    then show ?thesis using less.prems lines by (auto simp: stop_def reports_err)
  next
    case bad_url
    then show ?thesis using less.prems lines url_errors_reports(1) [OF bad_url(2)] by (auto simp: stop_def)
  next
    case (refused u e ses)
    then show ?thesis
      using less.prems lines reports_append [OF _ conn_lines_reports(1) [OF refused(4)], of "[Msg m]" T for m]
      by (auto simp: stop_def)
  next
    case (finished u ses r)
    have "reports (status r) (exchange_lines T opts fs outpath u ses)"
      by (rule exchange_lines_reports(1) [OF finished(5)])
    then show ?thesis
      using reports_append [OF opened_progress [OF finished(4)]] less.prems lines finished by simp
  next
    case (redirect u ses h l)
    then obtain r where r: "fetch opts fs nets l outpath (Suc depth) = Some r" "status res = status r"
      using less.prems [unfolded redirect(7)] by (auto simp: add_hop_def)
    have "reports (status res) (fetch_lines T opts fs nets l outpath (Suc depth))"
      unfolding r(2) using redirect(1) by (intro less.hyps [OF _ r(1)]) simp
    then show ?thesis
      using reports_append [OF exchange_lines_reports(2) [OF redirect(5)]]
        reports_append [OF opened_progress [OF redirect(4)]] lines redirect by simp
  qed
qed

lemma cli_lines_reports:
  "parse_args opts outpath args = Cli_exit e \<Longrightarrow>
     if e = EX_OK then \<forall>l \<in> set (snd (cli_lines T opts' args)). \<not> is_err l
     else \<exists>ls m. snd (cli_lines T opts' args) = ls @ [Usage m]"
proof (induction T opts' args arbitrary: opts outpath rule: cli_lines.induct)
  case (2 T opts' a as)
  have "\<exists>ls m. [Err x, usage o'] = ls @ [Usage m]" for x o'
    by (simp add: usage_def)
  with 2 show ?case
    by (auto simp: usage_def split: if_splits)
qed (auto simp: usage_def)

text \<open>
  C13: \<open>hget\<close> never fails silently and never reports a success as a failure. Every run ends; if the
  exit status is not 0 the last thing on standard error is an error line or the usage text, and if
  it is 0 there is no error line. \<open>-q\<close> hides progress only: then a transfer leaves standard error
  empty exactly when it succeeds.
\<close>

theorem main_reports:
  "\<exists>r. hget_main fs nets args = Some r \<and>
    (if status r = EX_OK then \<forall>m. Err m \<notin> set (main_lines T fs nets args)
     else \<exists>ls m. main_lines T fs nets args = ls @ [Err m] \<or> main_lines T fs nets args = ls @ [Usage m]) \<and>
    (\<forall>opts outpath url. parse_args default_options None args = Cli_fetch opts outpath url \<longrightarrow> opt_quiet opts \<longrightarrow>
       (stderr_text opts (main_lines T fs nets args) = [] \<longleftrightarrow> status r = EX_OK))"
proof (cases "parse_args default_options None args")
  case (Cli_exit e)
  show ?thesis
    using cli_lines_reports [OF Cli_exit, of T default_options]
    by (fastforce simp: hget_main_def main_lines_def Cli_exit stop_def split: if_splits)
next
  case (Cli_fetch opts outpath url)
  obtain r where r: "fetch opts fs nets url outpath 0 = Some r" using fetch_run by blast
  let ?ls = "fetch_lines T opts fs nets url outpath 0"
  have said: "reports (status r) ?ls" by (rule fetch_lines_reports [OF r])
  have last: "\<exists>ls m. ?ls = ls @ [Err m]" if "status r \<noteq> EX_OK"
  proof -
    have "?ls \<noteq> []" "is_err (last ?ls)" using said that by (simp_all add: reports_def)
    then show ?thesis by (metis append_butlast_last_id is_err.elims(2))
  qed
  have silent: "stderr_text opts ?ls = []" if "opt_quiet opts" "status r = EX_OK"
    using said that by (fastforce simp: reports_def progress_def stderr_text_def)
  have "stderr_text opts (ls @ [Err m]) \<noteq> []" for ls m by (simp add: stderr_text_def)
  then show ?thesis
    using r last silent said
    by (fastforce simp: hget_main_def main_lines_def Cli_fetch reports_def progress_def)
qed

definition demo_texts :: texts where
  "demo_texts = \<lparr>gai_text = ''no such host'', handshake_rc = - 0x2700, verify_text = (\<lambda>_. ''  expired''),
     clock_flags = 0x201, clock_text = ''Thu Jan  1 00:00:07 1970'', session_text = (''TLSv1.2'', ''AES''),
     open_error = ''No such file'', mbedtls_version = Some ''3.6.0''\<rparr>"

lemma main_reports_witness:
  "\<exists>r opts. hget_main demo_outputs (\<lambda>_. demo_net) [''-q'', ''ftp://x''] = Some r \<and> status r = EX_URL \<and>
     stderr_text opts (main_lines demo_texts demo_outputs (\<lambda>_. demo_net) [''-q'', ''ftp://x'']) =
       ''hget: only http:// and https:// URLs are supported'' @ [LF] \<and>
     opt_quiet opts"
proof -
  let ?args = "[''-q'', ''ftp://x'']"
  let ?opts = "default_options\<lparr>opt_quiet := True\<rparr>"
  have args: "parse_args default_options None ?args = Cli_fetch ?opts None ''ftp://x''"
    by (simp add: default_options_def)
  have parse: "url_parse ''ftp://x'' = Some (Inl EX_URL)"
    by (simp add: url_parse_def url_scheme_def has_prefix_def)
  obtain r where r: "hget_main demo_outputs (\<lambda>_. demo_net) ?args = Some r" "status r = EX_URL"
    using args parse by (simp add: hget_main_def fetch.simps stop_def MAX_REDIRECTS_def)
  have lines: "main_lines demo_texts demo_outputs (\<lambda>_. demo_net) ?args =
      [Err ''only http:// and https:// URLs are supported'']"
    using args parse
    by (simp add: main_lines_def fetch_lines.simps MAX_REDIRECTS_def url_errors_def url_scheme_def has_prefix_def)
  have "stderr_text ?opts (main_lines demo_texts demo_outputs (\<lambda>_. demo_net) ?args) \<noteq> []"
    using main_reports [of demo_outputs "\<lambda>_. demo_net" ?args demo_texts] r args by auto
  then show ?thesis
    using r lines by (intro exI [of _ r] exI [of _ ?opts]) (simp add: stderr_text_def)
qed

end
