(* ===== verification/P4Bus.thy ===== *)
theory P4Bus
  imports Prelude
begin

text \<open>
  Memory-mapped registers, as the files of \<open>bootloader/p4\<close> use them: \<open>REG32\<close>,
  \<open>reg_setbits\<close>, \<open>reg_clrsetbits\<close> and \<open>ets_delay_us\<close>. The hardware is an argument: the
  record \<open>bus\<close> says how the device state answers a read (which may change it), a write and a
  delay. The log keeps what the code did, in order.

  Straight-line register sequences are lists of operations (\<open>reg_op\<close>) executed by
  \<open>run_ops\<close>. Their abstract meaning is \<open>eval_ops\<close>, a function on register contents, and
  \<open>run_ops_eval\<close> relates the two on any hardware whose registers keep what is written to
  them, unless they are write-protected (\<open>registers\<close>).
\<close>

record 'd bus =
  bus_read :: "u32 \<Rightarrow> 'd \<Rightarrow> u32 \<times> 'd"
  bus_write :: "u32 \<Rightarrow> u32 \<Rightarrow> 'd \<Rightarrow> 'd"
  delay_us :: "u32 \<Rightarrow> 'd \<Rightarrow> 'd"

text \<open>What the bootloader does to the machine, as an ordered log.\<close>

datatype event =
    Ev_write u32 u32 | Ev_delay u32 | Ev_uart_idle
  | Ev_gpio_out u32 u32 | Ev_gpio_in u32 u32
  | Ev_regi2c u8 u8 u8 u8 u8
  | Ev_low_speed bool | Ev_chip_size u32 | Ev_flash_read u32 u32 u32
  | Ev_xtal u32 | Ev_cpu_set u32 | Ev_mpll_on | Ev_mpll_off | Ev_mpll_configure u32 u32
  | Ev_cache_hal | Ev_mmu_hal | Ev_psram_train
  | Ev_mmu_map u32 u32 u32 u32 | Ev_bus_enable u32 u32
  | Ev_writeback u32 u32 | Ev_invalidate u32 u32 | Ev_writeback_all | Ev_jump u32 u32

record 'd soc =
  dev :: 'd
  log :: "event list"

text \<open>A call into code that is not the bootloader's: its effect, and its entry in the log.\<close>

definition act :: "event \<Rightarrow> ('d \<Rightarrow> 'd) \<Rightarrow> 'd soc \<Rightarrow> 'd soc" where
  "act e f s = s\<lparr>dev := f (dev s), log := log s @ [e]\<rparr>"

lemma act_simps [simp]: "dev (act e f s) = f (dev s)" "log (act e f s) = log s @ [e]"
  by (simp_all add: act_def)

definition reg_read :: "('d, 'm) bus_scheme \<Rightarrow> u32 \<Rightarrow> 'd soc \<Rightarrow> u32 \<times> 'd soc" where
  "reg_read P a s = (case bus_read P a (dev s) of (v, d) \<Rightarrow> (v, s\<lparr>dev := d\<rparr>))"

definition reg_write :: "('d, 'm) bus_scheme \<Rightarrow> u32 \<Rightarrow> u32 \<Rightarrow> 'd soc \<Rightarrow> 'd soc" where
  "reg_write P a v s = s\<lparr>dev := bus_write P a v (dev s), log := log s @ [Ev_write a v]\<rparr>"

definition reg_setbits :: "('d, 'm) bus_scheme \<Rightarrow> u32 \<Rightarrow> u32 \<Rightarrow> 'd soc \<Rightarrow> 'd soc" where
  "reg_setbits P a bits s = (case reg_read P a s of (v, s') \<Rightarrow> reg_write P a (v OR bits) s')"

definition reg_clrsetbits :: "('d, 'm) bus_scheme \<Rightarrow> u32 \<Rightarrow> u32 \<Rightarrow> u32 \<Rightarrow> 'd soc \<Rightarrow> 'd soc" where
  "reg_clrsetbits P a clr st s =
     (case reg_read P a s of (v, s') \<Rightarrow> reg_write P a ((v AND NOT clr) OR st) s')"

definition ets_delay_us :: "('d, 'm) bus_scheme \<Rightarrow> u32 \<Rightarrow> 'd soc \<Rightarrow> 'd soc" where
  "ets_delay_us P n s = s\<lparr>dev := delay_us P n (dev s), log := log s @ [Ev_delay n]\<rparr>"

text \<open>What a step adds to the log comes from a set of events.\<close>

definition emits :: "event set \<Rightarrow> 'd soc \<Rightarrow> 'd soc \<Rightarrow> bool" where
  "emits E s s' = (\<exists>es. log s' = log s @ es \<and> set es \<subseteq> E)"

lemma emits_refl [simp]: "emits E s s"
  by (simp add: emits_def)

lemma emits_trans: "emits E s t \<Longrightarrow> emits E t u \<Longrightarrow> emits E s u"
  by (fastforce simp: emits_def)

lemma emits_mono: "emits E s t \<Longrightarrow> E \<subseteq> E' \<Longrightarrow> emits E' s t"
  by (auto simp: emits_def)

lemma emits_basic [simp]:
  "emits E s (act e f s) \<longleftrightarrow> e \<in> E"
  "emits E s (s\<lparr>dev := d\<rparr>)"
  "emits E s (snd (reg_read P a s))"
  "emits E s (reg_write P a v s) \<longleftrightarrow> Ev_write a v \<in> E"
  "emits E s (ets_delay_us P n s) \<longleftrightarrow> Ev_delay n \<in> E"
  by (auto simp: emits_def act_def reg_read_def reg_write_def ets_delay_us_def split: prod.splits)

lemma emits_read: "reg_read P a s = (v, s') \<Longrightarrow> emits E s s'"
  by (auto simp: emits_def reg_read_def split: prod.splits)

datatype reg_op = Op_store u32 u32 | Op_setbits u32 u32 | Op_clrsetbits u32 u32 u32 | Op_delay u32

fun exec_op :: "('d, 'm) bus_scheme \<Rightarrow> reg_op \<Rightarrow> 'd soc \<Rightarrow> 'd soc" where
  "exec_op P (Op_store a v) s = reg_write P a v s"
| "exec_op P (Op_setbits a m) s = reg_setbits P a m s"
| "exec_op P (Op_clrsetbits a clr st) s = reg_clrsetbits P a clr st s"
| "exec_op P (Op_delay n) s = ets_delay_us P n s"

definition run_ops :: "('d, 'm) bus_scheme \<Rightarrow> reg_op list \<Rightarrow> 'd soc \<Rightarrow> 'd soc" where
  "run_ops P ops s = fold (exec_op P) ops s"

subsection \<open>Bits and fields\<close>

text \<open>\<open>1u << n\<close>, and a mask of \<open>w\<close> ones shifted to bit \<open>n\<close> (\<open>FIELD_V << FIELD_S\<close>).\<close>

definition BIT :: "nat \<Rightarrow> u32" where
  "BIT n = push_bit n 1"

definition FIELD :: "nat \<Rightarrow> nat \<Rightarrow> u32" where
  "FIELD w n = push_bit n (mask w)"

lemma bit_BIT [bus_simps]: "bit (BIT n) i \<longleftrightarrow> i = n \<and> n < 32"
  by (auto simp: BIT_def bit_simps)

lemma bit_FIELD [bus_simps]: "bit (FIELD w n) i \<longleftrightarrow> n \<le> i \<and> i < n + w \<and> i < 32"
  by (auto simp: FIELD_def bit_simps)

lemma bit_word_32: "bit (x :: u32) i \<Longrightarrow> i < 32"
  using bit_imp_le_length [of x i] by simp

text \<open>Assignment to a bit field of \<open>w\<close> bits at bit \<open>n\<close> of the register at \<open>a\<close>, and its value.\<close>

definition set_field :: "u32 \<Rightarrow> nat \<Rightarrow> nat \<Rightarrow> u32 \<Rightarrow> reg_op" where
  "set_field a w n v = Op_clrsetbits a (FIELD w n) (push_bit n (v AND mask w))"

definition get_field :: "nat \<Rightarrow> nat \<Rightarrow> u32 \<Rightarrow> u32" where
  "get_field w n x = drop_bit n x AND mask w"

definition insert_field :: "nat \<Rightarrow> nat \<Rightarrow> u32 \<Rightarrow> u32 \<Rightarrow> u32" where
  "insert_field w n v x = (x AND NOT (FIELD w n)) OR push_bit n (v AND mask w)"

lemma bit_insert_field:
  "bit (insert_field w n v x) i \<longleftrightarrow> i < 32 \<and> (if n \<le> i \<and> i < n + w then bit v (i - n) else bit x i)"
  by (auto simp: insert_field_def bit_FIELD bit_simps)

lemma get_insert_field [bus_simps]:
  "n + w \<le> 32 \<Longrightarrow> get_field w n (insert_field w n v x) = v AND mask w"
  by (rule bit_word_eqI) (auto simp: get_field_def bit_insert_field bit_simps)

lemma get_insert_other [bus_simps]:
  "n + w \<le> n' \<or> n' + w' \<le> n \<Longrightarrow> get_field w n (insert_field w' n' v x) = get_field w n x"
  by (rule bit_word_eqI) (auto simp: get_field_def bit_insert_field bit_simps dest: bit_word_32)

subsection \<open>The abstract meaning\<close>

text \<open>A register may be protected: writes reach it only while another register holds a key.\<close>

type_synonym locks = "u32 \<Rightarrow> (u32 \<times> u32) option"

definition unlocked :: "locks \<Rightarrow> (u32 \<Rightarrow> u32) \<Rightarrow> u32 \<Rightarrow> bool" where
  "unlocked L r a = (case L a of None \<Rightarrow> True | Some (p, key) \<Rightarrow> r p = key)"

definition put :: "locks \<Rightarrow> u32 \<Rightarrow> u32 \<Rightarrow> (u32 \<Rightarrow> u32) \<Rightarrow> u32 \<Rightarrow> u32" where
  "put L a v r = (if unlocked L r a then r(a := v) else r)"

fun eval_op :: "locks \<Rightarrow> reg_op \<Rightarrow> (u32 \<Rightarrow> u32) \<Rightarrow> u32 \<Rightarrow> u32" where
  "eval_op L (Op_store a v) r = put L a v r"
| "eval_op L (Op_setbits a m) r = put L a (r a OR m) r"
| "eval_op L (Op_clrsetbits a clr st) r = put L a ((r a AND NOT clr) OR st) r"
| "eval_op L (Op_delay n) r = r"

definition eval_ops :: "locks \<Rightarrow> reg_op list \<Rightarrow> (u32 \<Rightarrow> u32) \<Rightarrow> u32 \<Rightarrow> u32" where
  "eval_ops L ops r = fold (eval_op L) ops r"

text \<open>
  Ordinary storage on the registers \<open>A\<close>: through the view \<open>pk\<close>, reads return the contents and
  change nothing, writes change the addressed register only (if it is not locked), delays change
  nothing. This is what the reference manual documents for configuration registers.
\<close>

definition agree :: "u32 set \<Rightarrow> (u32 \<Rightarrow> u32) \<Rightarrow> (u32 \<Rightarrow> u32) \<Rightarrow> bool" where
  "agree A r q = (\<forall>a \<in> A. r a = q a)"

definition registers ::
    "('d, 'm) bus_scheme \<Rightarrow> ('d \<Rightarrow> u32 \<Rightarrow> u32) \<Rightarrow> locks \<Rightarrow> u32 set \<Rightarrow> bool" where
  "registers P pk L A =
     ((\<forall>a \<in> A. \<forall>d. fst (bus_read P a d) = pk d a \<and> agree A (pk (snd (bus_read P a d))) (pk d)) \<and>
      (\<forall>a \<in> A. \<forall>v d. agree A (pk (bus_write P a v d)) (put L a v (pk d))) \<and>
      (\<forall>n d. agree A (pk (delay_us P n d)) (pk d)) \<and>
      (\<forall>a \<in> A. \<forall>p key. L a = Some (p, key) \<longrightarrow> p \<in> A))"

text \<open>The register an operation writes, if any; a sequence leaves all others alone.\<close>

fun op_reg :: "reg_op \<Rightarrow> u32 option" where
  "op_reg (Op_store a v) = Some a"
| "op_reg (Op_setbits a m) = Some a"
| "op_reg (Op_clrsetbits a clr st) = Some a"
| "op_reg (Op_delay n) = None"

definition within :: "reg_op list \<Rightarrow> u32 set \<Rightarrow> bool" where
  "within ops A = (\<forall>op \<in> set ops. \<forall>a. op_reg op = Some a \<longrightarrow> a \<in> A)"

lemma within_simps [bus_simps]:
  "within [] A" "within (op # ops) A \<longleftrightarrow> (\<forall>a. op_reg op = Some a \<longrightarrow> a \<in> A) \<and> within ops A"
  by (auto simp: within_def)

lemma registers_read: "registers P pk L A \<Longrightarrow> a \<in> A \<Longrightarrow> bus_read P a d = (v, d') \<Longrightarrow>
    v = pk d a \<and> agree A (pk d') (pk d)"
  unfolding registers_def by (metis fst_conv snd_conv)

lemma registers_write: "registers P pk L A \<Longrightarrow> a \<in> A \<Longrightarrow> agree A (pk (bus_write P a v d)) (put L a v (pk d))"
  by (simp add: registers_def)

lemma put_agree:
  "registers P pk L A \<Longrightarrow> a \<in> A \<Longrightarrow> agree A r q \<Longrightarrow> agree A (put L a v r) (put L a v q)"
  by (auto simp: agree_def put_def unlocked_def registers_def split: option.splits)

lemma agree_refl: "agree A r r"
  by (simp add: agree_def)

lemma agree_trans: "agree A r q \<Longrightarrow> agree A q p \<Longrightarrow> agree A r p"
  by (simp add: agree_def)

lemma agreeD: "agree A r q \<Longrightarrow> a \<in> A \<Longrightarrow> r a = q a"
  by (simp add: agree_def)

lemma exec_op_eval:
  assumes "registers P pk L A" and "\<forall>a. op_reg op = Some a \<longrightarrow> a \<in> A" and "agree A (pk (dev s)) r"
  shows "agree A (pk (dev (exec_op P op s))) (eval_op L op r)"
proof -
  note stored = agree_trans [OF registers_write [OF assms(1)] put_agree [OF assms(1)]]
  have rmw: "agree A (pk (bus_write P a (f v) d')) (put L a (f (r a)) r)"
    if "bus_read P a (dev s) = (v, d')" "a \<in> A" for a v d' f
  proof -
    have v: "v = r a" "agree A (pk d') r"
      using registers_read [OF assms(1) that(2,1)] assms(3) that(2) agree_trans agreeD by fastforce+
    show ?thesis using stored [OF that(2) that(2) v(2)] v(1) by blast
  qed
  have plain: "agree A (pk (bus_write P a v (dev s))) (put L a v r)" if "a \<in> A" for a v
    using stored [OF that that assms(3)] .
  have wait: "agree A (pk (delay_us P n (dev s))) r" for n
    using assms(1) by (intro agree_trans [OF _ assms(3)]) (simp add: registers_def)
  show ?thesis
    using assms(2) plain wait rmw [where f = "\<lambda>v. v OR _"]
      rmw [where f = "\<lambda>v. (v AND NOT _) OR _"]
    by (cases op) (auto simp: reg_setbits_def reg_clrsetbits_def reg_read_def reg_write_def
      ets_delay_us_def split: prod.splits)
qed

lemma run_ops_eval:
  "registers P pk L A \<Longrightarrow> within ops A \<Longrightarrow> agree A (pk (dev s)) r \<Longrightarrow>
     agree A (pk (dev (run_ops P ops s))) (eval_ops L ops r)"
  unfolding run_ops_def eval_ops_def
  by (induction ops arbitrary: s r) (simp_all add: exec_op_eval within_simps)

lemma run_ops_simps [bus_simps]:
  "run_ops P [] s = s"
  "run_ops P (op # ops) s = run_ops P ops (exec_op P op s)"
  by (simp_all add: run_ops_def)

lemma run_ops_append: "run_ops P (xs @ ys) s = run_ops P ys (run_ops P xs s)"
  by (simp add: run_ops_def)

lemma eval_ops_simps [bus_simps]:
  "eval_ops L [] r = r"
  "eval_ops L (op # ops) r = eval_ops L ops (eval_op L op r)"
  by (simp_all add: eval_ops_def)

lemma eval_ops_append: "eval_ops L (xs @ ys) r = eval_ops L ys (eval_ops L xs r)"
  by (simp add: eval_ops_def)

lemma within_append: "within (xs @ ys) A \<longleftrightarrow> within xs A \<and> within ys A"
  by (auto simp: within_def)

lemma put_plain [bus_simps]: "L a = None \<Longrightarrow> put L a v r = r(a := v)"
  by (simp add: put_def unlocked_def)

definition no_locks :: locks where
  [bus_simps]: "no_locks a = None"

lemma eval_set_field [bus_simps]:
  "eval_op no_locks (set_field a w n v) r = r(a := insert_field w n v (r a))"
  by (simp add: set_field_def insert_field_def put_plain no_locks_def)

lemma op_reg_set_field [bus_simps]: "op_reg (set_field a w n v) = Some a"
  by (simp add: set_field_def)

lemma eval_op_other: "Some b \<noteq> op_reg op \<Longrightarrow> eval_op L op r b = r b"
  by (cases op) (auto simp: put_def)

lemma eval_ops_other: "Some b \<notin> op_reg ` set ops \<Longrightarrow> eval_ops L ops r b = r b"
proof (induction ops arbitrary: r)
  case (Cons op ops)
  then have "Some b \<noteq> op_reg op" "Some b \<notin> op_reg ` set ops" by auto
  then show ?case using Cons.IH eval_op_other by (simp add: bus_simps)
qed (simp add: bus_simps)

text \<open>
  A sequence may also use locations \<open>B\<close> that are not storage (write-one-to-set registers, say).
  As long as accesses to them leave \<open>A\<close> alone, the meaning on \<open>A\<close> is the same.
\<close>

definition inert ::
    "('d, 'm) bus_scheme \<Rightarrow> ('d \<Rightarrow> u32 \<Rightarrow> u32) \<Rightarrow> u32 set \<Rightarrow> u32 set \<Rightarrow> bool" where
  "inert P pk A B =
     (A \<inter> B = {} \<and> (\<forall>a \<in> B. \<forall>d. agree A (pk (snd (bus_read P a d))) (pk d) \<and>
        (\<forall>v. agree A (pk (bus_write P a v d)) (pk d))))"

lemma agree_put_other: "a \<notin> A \<Longrightarrow> agree A r q \<Longrightarrow> agree A r (put L a v q)"
  by (auto simp: agree_def put_def)

lemma exec_op_inert:
  assumes "inert P pk A B" and "op_reg op = Some a" and "a \<in> B" and "agree A (pk (dev s)) r"
  shows "agree A (pk (dev (exec_op P op s))) (eval_op L op r)"
proof -
  have a: "a \<notin> A" using assms(1,3) by (auto simp: inert_def)
  have quiet: "agree A (pk (snd (bus_read P a d))) (pk d)" "agree A (pk (bus_write P a v d)) (pk d)" for v d
    using assms(1,3) by (auto simp: inert_def)
  have "agree A (pk (bus_write P a v d)) (put L a w r)"
    if "d = dev s \<or> d = snd (bus_read P a (dev s))" for v w d
    using that quiet assms(4) agree_trans agree_put_other [OF a] by blast
  then show ?thesis
    using assms(2)
    by (cases op) (auto simp: reg_setbits_def reg_clrsetbits_def reg_read_def reg_write_def
        split: prod.splits)
qed

lemma run_ops_inert:
  "registers P pk L A \<Longrightarrow> inert P pk A B \<Longrightarrow> within ops (A \<union> B) \<Longrightarrow> agree A (pk (dev s)) r \<Longrightarrow>
     agree A (pk (dev (run_ops P ops s))) (eval_ops L ops r)"
  unfolding run_ops_def eval_ops_def
proof (induction ops arbitrary: s r)
  case (Cons op ops)
  have "agree A (pk (dev (exec_op P op s))) (eval_op L op r)"
    using Cons.prems exec_op_eval [of P pk L A op s r] exec_op_inert [of P pk A B op _ s r L]
    by (cases "op_reg op") (auto simp: within_simps)
  then show ?case using Cons by (simp add: within_simps)
qed simp

text \<open>A sequence logs writes to its own registers, and delays.\<close>

definition register_events :: "u32 set \<Rightarrow> event set" where
  "register_events A = {Ev_write a v | a v. a \<in> A} \<union> range Ev_delay"

lemma register_events_mono: "A \<subseteq> B \<Longrightarrow> register_events A \<subseteq> register_events B"
  by (auto simp: register_events_def)

lemma register_events_iff [simp]:
  "Ev_write a v \<in> register_events A \<longleftrightarrow> a \<in> A" "Ev_delay n \<in> register_events A"
  by (auto simp: register_events_def)

lemma exec_op_emits:
  "\<forall>a. op_reg op = Some a \<longrightarrow> a \<in> A \<Longrightarrow> emits (register_events A) s (exec_op P op s)"
  by (cases op) (auto simp: reg_setbits_def reg_clrsetbits_def reg_write_def reg_read_def emits_def
      ets_delay_us_def split: prod.splits)

lemma run_ops_emits: "within ops A \<Longrightarrow> emits (register_events A) s (run_ops P ops s)"
  unfolding run_ops_def
proof (induction ops arbitrary: s)
  case (Cons op ops)
  then have "emits (register_events A) s (exec_op P op s)"
    by (intro exec_op_emits) (simp add: within_simps)
  then show ?case
    using Cons.IH [of "exec_op P op s"] Cons.prems by (auto simp: within_simps intro: emits_trans)
qed simp

text \<open>A register file: the simplest hardware that satisfies the contract.\<close>

definition file_bus :: "locks \<Rightarrow> (u32 \<Rightarrow> u32) bus" where
  "file_bus L = \<lparr>bus_read = (\<lambda>a d. (d a, d)), bus_write = put L, delay_us = (\<lambda>_ d. d)\<rparr>"

lemma file_registers: "(\<forall>a \<in> A. \<forall>p key. L a = Some (p, key) \<longrightarrow> p \<in> A) \<Longrightarrow> registers (file_bus L) (\<lambda>d. d) L A"
  by (simp add: registers_def file_bus_def agree_def)

end
