(* ===== verification/P4Uart.thy ===== *)
theory P4Uart
  imports P4Bus
begin

text \<open>
  \<open>bootloader/p4/p4_uart.c\<close>: the divider arithmetic of \<open>p4_uart0_set_baud\<close> in the widths the
  code uses (a 64-bit product truncated to 32 bits, 32-bit products that wrap), and its register
  writes. A division is written out with its zero case: \<open>None\<close> is a division by zero.
\<close>

definition UART_CLKDIV_SYNC_REG :: u32 where [const_defs]: "UART_CLKDIV_SYNC_REG = 0x500CA000 + 0x14"
definition UART_REG_UPDATE_REG :: u32 where [const_defs]: "UART_REG_UPDATE_REG = 0x500CA000 + 0x98"
definition PERI_CLK_CTRL110 :: u32 where [const_defs]: "PERI_CLK_CTRL110 = 0x500E6000 + 0x68"
definition PERI_CLK_CTRL111 :: u32 where [const_defs]: "PERI_CLK_CTRL111 = 0x500E6000 + 0x6c"

definition UART_CLKDIV_M :: u32 where "UART_CLKDIV_M = 0xFFF"
definition UART_CLKDIV_FRAG_M :: u32 where "UART_CLKDIV_FRAG_M = 0xF"
definition UART0_SCLK_DIV_NUM_M :: u32 where "UART0_SCLK_DIV_NUM_M = 0xFF"

definition UART_REG_UPDATE :: u32 where "UART_REG_UPDATE = BIT 0"
definition UART0_CLK_SRC_SEL :: u32 where "UART0_CLK_SRC_SEL = FIELD 2 24"
definition UART0_CLK_EN :: u32 where "UART0_CLK_EN = BIT 26"

text \<open>The dividers: pre-divider, integer part and sixteenths; \<open>Some None\<close> is \<open>return false\<close>.\<close>

definition max_div_baud :: "u32 \<Rightarrow> u32" where
  "max_div_baud baud = ucast (ucast UART_CLKDIV_M * ucast baud :: u64)"

definition uart_dividers :: "u32 \<Rightarrow> u32 \<Rightarrow> (u32 \<times> u32 \<times> u32) option option" where
  "uart_dividers baud sclk_hz =
     (if baud = 0 then Some None
      else
        (let p = max_div_baud baud in
         if p = 0 then None
         else
           (let sclk_div = (sclk_hz + p - 1) div p in
            if sclk_div = 0 \<or> UART0_SCLK_DIV_NUM_M + 1 < sclk_div then Some None
            else if baud * sclk_div = 0 then None
            else
              (let clk_div = ucast (push_bit 4 (ucast sclk_hz :: u64) div ucast (baud * sclk_div));
                   clkdiv_int = drop_bit 4 clk_div;
                   clkdiv_frag = clk_div AND 0xf
               in if UART_CLKDIV_M < clkdiv_int then Some None
                  else Some (Some (sclk_div, clkdiv_int, clkdiv_frag))))))"

text \<open>The register writes, and the wait for the self-clearing update bit.\<close>

definition uart_ops :: "u32 \<Rightarrow> u32 \<Rightarrow> u32 \<Rightarrow> reg_op list" where
  "uart_ops sclk_div clkdiv_int clkdiv_frag =
    [Op_clrsetbits PERI_CLK_CTRL110 UART0_CLK_SRC_SEL UART0_CLK_EN,
     Op_clrsetbits PERI_CLK_CTRL111 UART0_SCLK_DIV_NUM_M ((sclk_div - 1) AND UART0_SCLK_DIV_NUM_M),
     Op_store UART_CLKDIV_SYNC_REG
       ((clkdiv_int AND UART_CLKDIV_M) OR push_bit 20 (clkdiv_frag AND UART_CLKDIV_FRAG_M)),
     Op_store UART_REG_UPDATE_REG UART_REG_UPDATE]"

partial_function (option) uart_wait_update :: "('d, 'm) bus_scheme \<Rightarrow> 'd soc \<Rightarrow> 'd soc option" where
  "uart_wait_update B s =
     (case reg_read B UART_REG_UPDATE_REG s of
        (v, s') \<Rightarrow> if v AND UART_REG_UPDATE \<noteq> 0 then uart_wait_update B s' else Some s')"

record 'd uart_rom = "'d bus" +
  uart_tx_wait_idle :: "'d \<Rightarrow> 'd"

definition tx_wait_idle :: "('d, 'm) uart_rom_scheme \<Rightarrow> 'd soc \<Rightarrow> 'd soc" where
  "tx_wait_idle P s = s\<lparr>dev := uart_tx_wait_idle P (dev s), log := log s @ [Ev_uart_idle]\<rparr>"

text \<open>\<open>None\<close>: a division by zero, or an update bit that never clears.\<close>

definition p4_uart0_set_baud ::
    "('d, 'm) uart_rom_scheme \<Rightarrow> u32 \<Rightarrow> u32 \<Rightarrow> 'd soc \<Rightarrow> (bool \<times> 'd soc) option" where
  "p4_uart0_set_baud P baud sclk_hz s =
     (case uart_dividers baud sclk_hz of
        None \<Rightarrow> None
      | Some None \<Rightarrow> Some (False, s)
      | Some (Some (sclk_div, i, f)) \<Rightarrow>
          map_option (\<lambda>s'. (True, s'))
            (uart_wait_update P (run_ops P (uart_ops sclk_div i f) (tx_wait_idle P s))))"

subsection \<open>No division by zero\<close>

lemma max_div_baud_mult: "max_div_baud baud = 0xFFF * baud"
proof -
  have "uint baud mod 18446744073709551616 = uint baud"
    using uint_bounded [of baud] by simp
  then have "uint (max_div_baud baud) = uint (0xFFF * baud)"
    by (simp add: max_div_baud_def UART_CLKDIV_M_def uint_word_ariths unsigned_ucast_eq take_bit_eq_mod
        mod_mod_cancel)
  then show ?thesis by (rule word_uint_eqI)
qed

text \<open>0xFFF is odd, so multiplication by it is injective on 32-bit words.\<close>

lemma times_FFF_inv: "(4278185983 :: u32) * (0xFFF * x) = x"
proof -
  have "(4278185983 :: u32) * 0xFFF = 1" by simp
  then show ?thesis by (simp only: mult.assoc [symmetric] mult_1_left)
qed

lemma times_FFF_zero: "0xFFF * x = 0 \<Longrightarrow> x = (0 :: u32)"
  using times_FFF_inv [of x] by simp

lemma div_times_nonzero:
  fixes x p :: u32
  assumes "p \<noteq> 0" and "x div p \<noteq> 0"
  shows "p * (x div p) \<noteq> 0"
proof -
  have "unat p * unat (x div p) \<le> unat x" by (simp add: unat_div)
  moreover have "unat x < 2 ^ LENGTH(32)" by (rule unsigned_less)
  ultimately have "unat (p * (x div p)) = unat p * unat (x div p)"
    by (subst unat_mult_lem [symmetric]) simp
  moreover have "unat p * unat (x div p) \<noteq> 0" using assms by (simp add: unat_eq_0)
  ultimately show ?thesis by (metis unat_0)
qed

lemma uart_dividers_defined: "uart_dividers baud sclk_hz \<noteq> None"
proof -
  let ?p = "0xFFF * baud"
  let ?sd = "(sclk_hz + ?p - 1) div ?p"
  have "baud * ?sd \<noteq> 0" if "baud \<noteq> 0" "?sd \<noteq> 0"
  proof
    assume "baud * ?sd = 0"
    then have "?p * ?sd = 0" by (simp only: mult.assoc mult_zero_right)
    then show False using div_times_nonzero [of ?p "sclk_hz + ?p - 1"] times_FFF_zero that by blast
  qed
  then show ?thesis
    using times_FFF_zero [of baud]
    by (auto simp: uart_dividers_def max_div_baud_mult Let_def)
qed

subsection \<open>Exactness of the dividers\<close>

text \<open>The intended arithmetic, on unbounded numbers: a rounded-up pre-divider, then sixteenths.\<close>

definition ideal_dividers :: "nat \<Rightarrow> nat \<Rightarrow> (nat \<times> nat \<times> nat) option" where
  "ideal_dividers baud sclk =
     (let sd = (sclk + 4095 * baud - 1) div (4095 * baud);
          q = 16 * sclk div (baud * sd)
      in if sd = 0 \<or> 256 < sd then None
         else if 4095 < q div 16 then None
         else Some (sd, q div 16, q mod 16))"

lemma unat_mult_small: "unat x * unat y < 2 ^ 32 \<Longrightarrow> unat (x * y) = unat x * unat y" for x y :: u32
  using unat_mult_lem [of x y] by simp

lemma unat_pre_divider:
  fixes baud sclk :: u32
  assumes "baud \<noteq> 0" and "sclk \<noteq> 0" and "4095 * unat baud + unat sclk \<le> 2 ^ 32"
  shows "unat ((sclk + 0xFFF * baud - 1) div (0xFFF * baud)) =
      (unat sclk + 4095 * unat baud - 1) div (4095 * unat baud)"
    and "unat baud * unat ((sclk + 0xFFF * baud - 1) div (0xFFF * baud)) < 2 ^ 32"
proof -
  let ?p = "0xFFF * baud :: u32"
  have b: "0 < unat baud" "0 < unat sclk" using assms(1,2) by (simp_all add: unat_gt_0)
  have p: "unat ?p = 4095 * unat baud"
    using assms(3) unat_mult_small [of "0xFFF" baud] b by simp
  have x: "unat (sclk + ?p - 1) = unat sclk + 4095 * unat baud - 1"
  proof -
    have "sclk + ?p - 1 = of_nat (unat sclk + unat ?p - 1)"
      using b p by (simp add: of_nat_diff)
    moreover have "unat sclk + unat ?p - 1 < 2 ^ 32" using assms(3) p b by simp
    ultimately show ?thesis using p by (simp add: unat_of_nat)
  qed
  show *: "unat ((sclk + ?p - 1) div ?p) = (unat sclk + 4095 * unat baud - 1) div (4095 * unat baud)"
    by (simp only: unat_div x p)
  have "4095 * unat baud * unat ((sclk + ?p - 1) div ?p) \<le> unat sclk + 4095 * unat baud - 1"
    unfolding * by (rule times_div_less_eq_dividend)
  then show "unat baud * unat ((sclk + ?p - 1) div ?p) < 2 ^ 32"
    using assms(3) b by linarith
qed

lemma unat_and_15: "unat (x AND 0xF) = unat x mod 16" for x :: u32
proof -
  have "x AND 0xF = x mod 16"
    using take_bit_eq_mask [of 4 x] by (simp add: take_bit_eq_mod mask_eq_exp_minus_1)
  then show ?thesis by (simp add: unat_mod)
qed

lemma unat_drop_4: "unat (drop_bit 4 x) = unat x div 16" for x :: u32
  by (simp add: drop_bit_eq_div unat_div)

lemma unat_clk_div:
  fixes sclk k :: u32
  assumes "k \<noteq> 0" and "16 * unat sclk div unat k < 2 ^ 32"
  shows "unat (ucast (push_bit 4 (ucast sclk :: u64) div ucast k) :: u32) = 16 * unat sclk div unat k"
proof -
  have "unat sclk < 2 ^ LENGTH(32)" "unat k < 2 ^ LENGTH(32)" by (rule unsigned_less)+
  then have "unat (push_bit 4 (ucast sclk :: u64)) = 16 * unat sclk" "unat (ucast k :: u64) = unat k"
    by (simp_all add: push_bit_eq_mult unat_word_ariths unsigned_ucast_eq take_bit_nat_eq_self)
  then have "unat (push_bit 4 (ucast sclk :: u64) div ucast k) = 16 * unat sclk div unat k"
    by (simp add: unat_div)
  then show ?thesis using assms(2) by (simp add: unsigned_ucast_eq take_bit_nat_eq_self)
qed

text \<open>
  C35: the divider arithmetic is defined for every argument, although both divisors are 32-bit
  products that wrap; and as long as nothing wraps it computes exactly the intended dividers.
\<close>

theorem uart_dividers_exact:
  assumes "baud \<noteq> 0" and "sclk_hz \<noteq> 0" and "4095 * unat baud + unat sclk_hz \<le> 2 ^ 32"
  shows "(\<forall>b c. uart_dividers b c \<noteq> None) \<and>
    map_option (map_option (\<lambda>(sd, i, f). (unat sd, unat i, unat f))) (uart_dividers baud sclk_hz) =
      Some (ideal_dividers (unat baud) (unat sclk_hz))"
proof -
  let ?p = "0xFFF * baud"
  let ?sd = "(sclk_hz + ?p - 1) div ?p"
  let ?n = "(unat sclk_hz + 4095 * unat baud - 1) div (4095 * unat baud)"
  have sd: "unat ?sd = ?n" and small: "unat baud * unat ?sd < 2 ^ 32"
    using unat_pre_divider [OF assms] by simp_all
  have b: "0 < unat baud" "0 < unat sclk_hz" using assms(1,2) by (simp_all add: unat_gt_0)
  have n: "0 < ?n" using b by (simp add: div_greater_zero_iff)
  have prod: "unat (baud * ?sd) = unat baud * ?n"
    using unat_mult_small [OF small] sd by simp
  have "unat sclk_hz \<le> 4095 * (unat baud * ?n)"
  proof -
    have "unat sclk_hz + 4095 * unat baud - 1 < (?n + 1) * (4095 * unat baud)"
      using b by (metis dividend_less_div_times mult.commute add.commute Suc_eq_plus1 mult_Suc_right
        mult_is_0 neq0_conv zero_neq_numeral)
    then show ?thesis using b by (simp add: algebra_simps)
  qed
  then have q: "16 * unat sclk_hz div (unat baud * ?n) \<le> 65520"
    by (intro less_mult_imp_div_less [of _ 65521, unfolded less_Suc_eq_le [of _ 65520, simplified]]) (use b n in simp)
  let ?q = "16 * unat sclk_hz div (unat baud * ?n)"
  let ?cd = "ucast (push_bit 4 (ucast sclk_hz :: u64) div ucast (baud * ?sd)) :: u32"
  have nz: "baud * ?sd \<noteq> 0" "?p \<noteq> 0" "?sd \<noteq> 0"
    using prod b n sd times_FFF_zero [of baud] assms(1) by (auto simp: unat_eq_0 [symmetric] simp del: unat_eq_0)
  have cd: "unat ?cd = ?q"
    using unat_clk_div [OF nz(1), of sclk_hz] q unfolding prod by simp
  have frag: "unat (?cd AND 0xF) = ?q mod 16"
    unfolding cd [symmetric] by (rule unat_and_15)
  have int: "unat (drop_bit 4 ?cd) = ?q div 16"
    unfolding cd [symmetric] by (rule unat_drop_4)
  have "UART0_SCLK_DIV_NUM_M + 1 < ?sd \<longleftrightarrow> 256 < ?n"
    by (simp add: UART0_SCLK_DIV_NUM_M_def word_less_nat_alt sd)
  moreover have "UART_CLKDIV_M < drop_bit 4 ?cd \<longleftrightarrow> 4095 < ?q div 16"
    by (simp add: UART_CLKDIV_M_def word_less_nat_alt int)
  ultimately show ?thesis
    using nz n sd int frag assms(1) uart_dividers_defined
    by (simp add: uart_dividers_def ideal_dividers_def max_div_baud_mult Let_def)
qed

lemma console_dividers: "uart_dividers 4000000 40000000 = Some (Some (1, 10, 0))"
  by code_simp

lemma uart_dividers_exact_witness:
  "(\<forall>b c. uart_dividers b c \<noteq> None) \<and>
    map_option (map_option (\<lambda>(sd, i, f). (unat sd, unat i, unat f))) (uart_dividers 115200 40000000) =
      Some (ideal_dividers 115200 40000000)"
  using uart_dividers_exact [of 115200 40000000] by simp

text \<open>Where the 32-bit truncation does bite: a rate the hardware can make is refused.\<close>

lemma uart_dividers_truncated:
  "uart_dividers 1048833 40000000 = Some None" "ideal_dividers 1048833 40000000 = Some (1, 38, 2)"
  by (code_simp, simp add: ideal_dividers_def)

subsection \<open>The change of rate\<close>

lemma uart_wait_log:
  assumes "uart_wait_update P s = Some s'"
  shows "log s' = log s"
proof (rule uart_wait_update.raw_induct [where P = "\<lambda>P s s'. log s' = log s", OF _ assms], goal_cases)
  case (1 loop B s s')
  obtain v s1 where r: "reg_read B UART_REG_UPDATE_REG s = (v, s1)" by fastforce
  then have "log s1 = log s" by (auto simp: reg_read_def split: prod.splits)
  then show ?case using 1 r by (auto split: if_splits)
qed

lemma reg_clrsetbits_log:
  "\<exists>v. reg_clrsetbits P a clr st s = (let (w, d) = bus_read P a (dev s) in
     reg_write P a ((w AND NOT clr) OR st) (s\<lparr>dev := d\<rparr>)) \<and>
     log (reg_clrsetbits P a clr st s) = log s @ [Ev_write a ((v AND NOT clr) OR st)]"
  by (auto simp: reg_clrsetbits_def reg_read_def reg_write_def split: prod.splits)

lemma run_uart_ops_log:
  "\<exists>v w. log (run_ops P (uart_ops sd i f) s) = log s @
     [Ev_write PERI_CLK_CTRL110 ((v AND NOT UART0_CLK_SRC_SEL) OR UART0_CLK_EN),
      Ev_write PERI_CLK_CTRL111
        ((w AND NOT UART0_SCLK_DIV_NUM_M) OR ((sd - 1) AND UART0_SCLK_DIV_NUM_M)),
      Ev_write UART_CLKDIV_SYNC_REG
        ((i AND UART_CLKDIV_M) OR push_bit 20 (f AND UART_CLKDIV_FRAG_M)),
      Ev_write UART_REG_UPDATE_REG UART_REG_UPDATE]"
  unfolding uart_ops_def run_ops_simps exec_op.simps
  using reg_clrsetbits_log [of P PERI_CLK_CTRL110 UART0_CLK_SRC_SEL UART0_CLK_EN s]
    reg_clrsetbits_log [of P PERI_CLK_CTRL111 UART0_SCLK_DIV_NUM_M "(sd - 1) AND UART0_SCLK_DIV_NUM_M"
      "reg_clrsetbits P PERI_CLK_CTRL110 UART0_CLK_SRC_SEL UART0_CLK_EN s"]
  by (fastforce simp: reg_write_def)

text \<open>
  A refused rate leaves the port exactly as it was. An accepted one first drains the
  transmitter at the old rate, then selects XTAL with the clock enabled, then sets the
  pre-divider and the divider of \<open>uart_dividers\<close>, and strobes the update bit last.
\<close>

theorem set_baud_sequence:
  assumes "p4_uart0_set_baud P baud sclk_hz s = Some (ok, s')"
  shows "(ok \<longleftrightarrow> (\<exists>t. uart_dividers baud sclk_hz = Some (Some t))) \<and> (\<not> ok \<longrightarrow> s' = s) \<and>
    (\<forall>sd i f. uart_dividers baud sclk_hz = Some (Some (sd, i, f)) \<longrightarrow>
      (\<exists>v w. log s' = log s @
        [Ev_uart_idle,
         Ev_write PERI_CLK_CTRL110 ((v AND NOT UART0_CLK_SRC_SEL) OR UART0_CLK_EN),
         Ev_write PERI_CLK_CTRL111
           ((w AND NOT UART0_SCLK_DIV_NUM_M) OR ((sd - 1) AND UART0_SCLK_DIV_NUM_M)),
         Ev_write UART_CLKDIV_SYNC_REG
           ((i AND UART_CLKDIV_M) OR push_bit 20 (f AND UART_CLKDIV_FRAG_M)),
         Ev_write UART_REG_UPDATE_REG UART_REG_UPDATE]))"
proof -
  have "\<exists>v w. log s1 = log s @ [Ev_uart_idle,
         Ev_write PERI_CLK_CTRL110 ((v AND NOT UART0_CLK_SRC_SEL) OR UART0_CLK_EN),
         Ev_write PERI_CLK_CTRL111
           ((w AND NOT UART0_SCLK_DIV_NUM_M) OR ((sd - 1) AND UART0_SCLK_DIV_NUM_M)),
         Ev_write UART_CLKDIV_SYNC_REG
           ((i AND UART_CLKDIV_M) OR push_bit 20 (f AND UART_CLKDIV_FRAG_M)),
         Ev_write UART_REG_UPDATE_REG UART_REG_UPDATE]"
    if "uart_wait_update P (run_ops P (uart_ops sd i f) (tx_wait_idle P s)) = Some s1" for s1 sd i f
    using uart_wait_log [OF that] run_uart_ops_log [of P sd i f "tx_wait_idle P s"]
    by (simp add: tx_wait_idle_def)
  then show ?thesis
    using assms by (auto simp: p4_uart0_set_baud_def split: option.splits)
qed

text \<open>A UART whose update bit clears when it is next read.\<close>

definition uart_chip :: "(u32 \<Rightarrow> u32) uart_rom" where
  "uart_chip = bus.extend
     ((file_bus no_locks)\<lparr>bus_read := \<lambda>a d. (if a = UART_REG_UPDATE_REG then 0 else d a, d)\<rparr>)
     (uart_rom.fields (\<lambda>d. d))"

lemma set_baud_sequence_witness:
  "\<exists>s'. p4_uart0_set_baud uart_chip 4000000 40000000 \<lparr>dev = (\<lambda>_. 0), log = []\<rparr> = Some (True, s') \<and>
     (\<exists>v w. log s' =
        [Ev_uart_idle,
         Ev_write PERI_CLK_CTRL110 ((v AND NOT UART0_CLK_SRC_SEL) OR UART0_CLK_EN),
         Ev_write PERI_CLK_CTRL111 (w AND NOT UART0_SCLK_DIV_NUM_M),
         Ev_write UART_CLKDIV_SYNC_REG 10,
         Ev_write UART_REG_UPDATE_REG UART_REG_UPDATE])"
proof -
  have wait: "uart_wait_update uart_chip s = Some (s\<lparr>dev := dev s\<rparr>)" for s
    by (subst uart_wait_update.simps)
      (simp add: reg_read_def uart_chip_def bus.defs uart_rom.defs file_bus_def)
  obtain s' where run: "p4_uart0_set_baud uart_chip 4000000 40000000 \<lparr>dev = (\<lambda>_. 0), log = []\<rparr> = Some (True, s')"
    by (simp add: p4_uart0_set_baud_def console_dividers wait)
  with set_baud_sequence [OF run] show ?thesis
    by (simp add: console_dividers UART_CLKDIV_M_def UART_CLKDIV_FRAG_M_def)
qed

end
