(* ===== verification/P4Ldo.thy ===== *)
theory P4Ldo
  imports P4Bus
begin

text \<open>
  \<open>bootloader/p4/p4_ldo.c\<close> and the part of \<open>vendor/include/hal/ldo_ll.h\<close> it inlines: the search
  for the two codes that make a voltage, and the order in which a regulator channel is brought
  up. Assignments to bit fields of the PMU are read-modify-writes of their register
  (\<open>set_field\<close>). The eFuse fields are an argument (\<open>ldo_fuses\<close>): they are constants of the chip.
\<close>

record ldo_fuses =
  blk_version :: nat
  chip_revision :: nat
  vo1_dref :: u8
  vo1_mul :: u8
  vo2_dref :: u8
  vo2_mul :: u8
  vo3_k :: u8
  vo3_vos :: u8
  vo3_c :: u8
  vo4_k :: u8
  vo4_k_1 :: u8
  vo4_vos :: u8
  vo4_c :: u8

definition LDO_LL_RAIL_VOLTAGE_MV :: int where "LDO_LL_RAIL_VOLTAGE_MV = 3300"
definition P4_LDO_CHAN_PSRAM :: int where [const_defs]: "P4_LDO_CHAN_PSRAM = 2"
definition P4_LDO_MV_PSRAM :: int where [const_defs]: "P4_LDO_MV_PSRAM = 1800"
definition P4_LDO_CHAN_SDMMC :: int where [const_defs]: "P4_LDO_CHAN_SDMMC = 4"
definition P4_LDO_MV_SDMMC :: int where [const_defs]: "P4_LDO_MV_SDMMC = 3300"

definition ldo_ll_is_valid_ldo_channel :: "int \<Rightarrow> bool" where
  "ldo_ll_is_valid_ldo_channel ldo_chan = (ldo_chan > 0 \<and> ldo_chan \<le> 4)"

definition LDO_ID2UNIT :: "int \<Rightarrow> int" where
  "LDO_ID2UNIT ldo_id = ldo_id - 1"

subsection \<open>The codes for a voltage\<close>

text \<open>The eFuse fields are sign-and-magnitude numbers; zero means not programmed.\<close>

definition fuse_k :: "ldo_fuses \<Rightarrow> int \<Rightarrow> u8" where
  "fuse_k E u = (if u = 3 then push_bit 6 (vo4_k_1 E AND mask 2) + (vo4_k E AND mask 6)
     else if u = 2 then vo3_k E else 0)"

definition fuse_vos :: "ldo_fuses \<Rightarrow> int \<Rightarrow> u8" where
  "fuse_vos E u = (if u = 3 then vo4_vos E AND mask 6 else if u = 2 then vo3_vos E AND mask 6 else 0)"

definition fuse_c :: "ldo_fuses \<Rightarrow> int \<Rightarrow> u8" where
  "fuse_c E u = (if u = 3 then vo4_c E AND mask 6 else if u = 2 then vo3_c E AND mask 6 else 0)"

definition fuse_signed :: "u8 \<Rightarrow> u8 \<Rightarrow> u8 \<Rightarrow> int \<Rightarrow> int \<Rightarrow> int" where
  "fuse_signed x sign_bit magnitude base unset =
     (if x = 0 then unset
      else if x AND sign_bit \<noteq> 0 then - 1 * uint (x AND magnitude) + base
      else uint x + base)"

definition ldo_calibration :: "ldo_fuses \<Rightarrow> int \<Rightarrow> int \<times> int \<times> int" where
  "ldo_calibration E u =
     (if blk_version E \<ge> 1
      then (fuse_signed (fuse_k E u) 0x80 0x7F 975 1000,
            fuse_signed (fuse_vos E u) 0x20 0x1F (- 3) 0,
            fuse_signed (fuse_c E u) 0x20 0x1F 990 1000)
      else (1000, 0, 1000))"

definition vref_20 :: "nat \<Rightarrow> int" where
  "vref_20 dref_val = (if dref_val < 9 then 10 + int dref_val else 20 + (int dref_val - 9) * 2)"

definition vout :: "int \<times> int \<times> int \<Rightarrow> nat \<times> nat \<Rightarrow> int" where
  "vout cal code = (case (cal, code) of ((K, V, C), (d, m)) \<Rightarrow>
     (vref_20 d * K + 20 * V) * (4000 + int m * C))"

definition ldo_try :: "int \<times> int \<times> int \<Rightarrow> int \<Rightarrow> nat \<times> nat \<Rightarrow> int \<times> nat \<times> nat \<Rightarrow> int \<times> nat \<times> nat" where
  "ldo_try cal mv code best =
     (let diff = mv * 80000 - vout cal code; diff = (if diff < 0 then - diff else diff)
      in if diff < fst best then (diff, code) else best)"

definition ldo_codes :: "(nat \<times> nat) list" where
  "ldo_codes = List.product [0..<16] [0..<8]"

definition ldo_search :: "int \<times> int \<times> int \<Rightarrow> int \<Rightarrow> int \<times> nat \<times> nat" where
  "ldo_search cal mv = fold (ldo_try cal mv) ldo_codes (400000000, 0, 0)"

definition ldo_ll_voltage_to_dref_mul :: "ldo_fuses \<Rightarrow> int \<Rightarrow> int \<Rightarrow> nat \<times> nat \<times> bool" where
  "ldo_ll_voltage_to_dref_mul E unit mv =
     (let (d, m) = snd (ldo_search (ldo_calibration E unit) mv);
          (d, m) = (if blk_version E \<ge> 1 \<and> unit = 0 \<and> mv = 1800 \<and> vo1_dref E AND mask 4 \<noteq> 0 \<and> vo1_mul E AND mask 3 \<noteq> 0
                    then (unat (vo1_dref E AND mask 4), unat (vo1_mul E AND mask 3)) else (d, m));
          (d, m) = (if blk_version E \<ge> 1 \<and> unit = 1 \<and> mv = 1800 \<and> vo2_dref E AND mask 4 \<noteq> 0 \<and> vo2_mul E AND mask 3 \<noteq> 0
                    then (unat (vo2_dref E AND mask 4), unat (vo2_mul E AND mask 3)) else (d, m))
      in (d, m, mv = LDO_LL_RAIL_VOLTAGE_MV))"

subsection \<open>The channel registers\<close>

definition PMU_BASE :: u32 where [const_defs]: "PMU_BASE = 0x50115000"
definition HP_ACTIVE_REGULATOR0 :: u32 where [const_defs]: "HP_ACTIVE_REGULATOR0 = PMU_BASE + 0x28"

definition index_array :: "int \<Rightarrow> u32" where
  "index_array unit = [0, 3, 1, 4] ! nat unit"

definition pmu_ext_ldo :: "int \<Rightarrow> u32" where
  "pmu_ext_ldo unit = PMU_BASE + 0x1b8 + 8 * index_array unit"

definition pmu_ext_ldo_ana :: "int \<Rightarrow> u32" where
  "pmu_ext_ldo_ana unit = PMU_BASE + 0x1bc + 8 * index_array unit"

definition ldo_ll_set_owner :: "int \<Rightarrow> u32 \<Rightarrow> reg_op list" where
  "ldo_ll_set_owner unit owner =
     [set_field (pmu_ext_ldo unit) 1 7 owner, set_field (pmu_ext_ldo unit) 3 9 0]"

definition ldo_ll_adjust_voltage :: "int \<Rightarrow> nat \<Rightarrow> nat \<Rightarrow> bool \<Rightarrow> reg_op list" where
  "ldo_ll_adjust_voltage unit dref mul use_rail =
     [set_field (pmu_ext_ldo unit) 1 14 (of_bool use_rail),
      set_field (pmu_ext_ldo_ana unit) 4 28 (of_nat dref),
      set_field (pmu_ext_ldo_ana unit) 3 23 (of_nat mul)]"

definition ldo_ll_enable :: "ldo_fuses \<Rightarrow> int \<Rightarrow> bool \<Rightarrow> reg_op list" where
  "ldo_ll_enable E unit enable =
     (if 100 \<le> chip_revision E \<and> unit = 0
      then [set_field HP_ACTIVE_REGULATOR0 4 19 (if enable then 8 else 0)] else []) @
     [set_field (pmu_ext_ldo unit) 1 8 (of_bool enable)]"

definition ldo_ll_enable_current_limit :: "int \<Rightarrow> bool \<Rightarrow> reg_op list" where
  "ldo_ll_enable_current_limit unit enable = [set_field (pmu_ext_ldo_ana unit) 1 27 (of_bool enable)]"

definition ldo_ll_enable_ripple_suppression :: "int \<Rightarrow> bool \<Rightarrow> reg_op list" where
  "ldo_ll_enable_ripple_suppression unit enable =
     [set_field (pmu_ext_ldo_ana unit) 1 26 (of_bool enable)]"

definition ldo_ops :: "ldo_fuses \<Rightarrow> int \<Rightarrow> int \<Rightarrow> reg_op list" where
  "ldo_ops E unit voltage_mv =
     (case ldo_ll_voltage_to_dref_mul E unit voltage_mv of (dref, mul, use_rail) \<Rightarrow>
       ldo_ll_enable_current_limit unit True @
       ldo_ll_adjust_voltage unit dref mul use_rail @
       ldo_ll_set_owner unit 1 @
       ldo_ll_enable_ripple_suppression unit True @
       ldo_ll_enable E unit True @
       ldo_ll_enable_current_limit unit False)"

definition p4_ldo_enable ::
    "('d, 'm) bus_scheme \<Rightarrow> ldo_fuses \<Rightarrow> int \<Rightarrow> int \<Rightarrow> 'd soc \<Rightarrow> bool \<times> 'd soc" where
  "p4_ldo_enable P E chan_id voltage_mv s =
     (if \<not> ldo_ll_is_valid_ldo_channel chan_id then (False, s)
      else (True, run_ops P (ldo_ops E (LDO_ID2UNIT chan_id) voltage_mv) s))"

subsection \<open>The search finds the nearest voltage\<close>

lemma uint_u8_bits:
  fixes x :: u8
  shows "uint (x AND 0x7F) \<le> 127" "uint (x AND 0x1F) \<le> 31"
    "x AND 0x80 = 0 \<Longrightarrow> uint x \<le> 127"
    "x AND 0xE0 = 0 \<Longrightarrow> uint x \<le> 31"
proof -
  have le: "uint (y AND 0x7F) \<le> 127 \<and> uint (y AND 0x1F) \<le> 31" for y :: u8
    using AND_upper2 [of 127 "uint y"] AND_upper2 [of 31 "uint y"] by (simp add: unsigned_and_eq)
  show "uint (x AND 0x7F) \<le> 127" "uint (x AND 0x1F) \<le> 31" using le by simp_all
  have "(0xFF :: u8) = - 1" by simp
  then have "x AND 0xFF = x" by (simp only: and.right_neutral)
  then have "x = (x AND 0x80) OR (x AND 0x7F)" "x = (x AND 0xE0) OR (x AND 0x1F)"
    by (simp_all flip: bit.conj_disj_distrib)
  then show "x AND 0x80 = 0 \<Longrightarrow> uint x \<le> 127" "x AND 0xE0 = 0 \<Longrightarrow> uint x \<le> 31"
    using le [of x] by simp_all
qed

lemma six_bits:
  fixes x :: u8
  assumes "x AND mask 6 = x" and "x AND 0x20 = 0"
  shows "x AND 0xE0 = 0"
proof -
  have "x AND 0xE0 = (x AND mask 6) AND 0xE0" by (simp only: assms(1))
  also have "\<dots> = x AND 0x20" by (simp add: and.assoc mask_eq_exp_minus_1)
  finally show ?thesis using assms(2) by simp
qed

definition calibrated :: "int \<times> int \<times> int \<Rightarrow> bool" where
  "calibrated cal = (case cal of (K, V, C) \<Rightarrow>
     848 \<le> K \<and> K \<le> 1102 \<and> - 34 \<le> V \<and> V \<le> 28 \<and> 959 \<le> C \<and> C \<le> 1021)"

lemma fuse_six_bits: "fuse_vos E u AND mask 6 = fuse_vos E u" "fuse_c E u AND mask 6 = fuse_c E u"
  by (simp_all add: fuse_vos_def fuse_c_def and.assoc)

lemma fuse_signed_bounds:
  assumes "uint (x AND magnitude) \<le> M" and "x AND sign_bit = 0 \<Longrightarrow> uint x \<le> M"
    and "base - M \<le> unset" and "unset \<le> base + M"
  shows "base - M \<le> fuse_signed x sign_bit magnitude base unset \<and>
    fuse_signed x sign_bit magnitude base unset \<le> base + M"
  using assms uint_ge_0 [of x] uint_ge_0 [of "x AND magnitude"]
  by (auto simp: fuse_signed_def simp del: uint_ge_0 unsigned_greater_eq)

lemma ldo_calibration_bounds: "calibrated (ldo_calibration E u)"
proof -
  note six = six_bits [THEN uint_u8_bits(4)]
  show ?thesis
    using fuse_signed_bounds [OF uint_u8_bits(1) uint_u8_bits(3), where x = "fuse_k E u" and base = 975 and unset = 1000]
      fuse_signed_bounds [OF uint_u8_bits(2) six [OF fuse_six_bits(1)], where base = "- 3" and unset = 0]
      fuse_signed_bounds [OF uint_u8_bits(2) six [OF fuse_six_bits(2)], where base = 990 and unset = 1000]
    by (simp add: calibrated_def ldo_calibration_def)
qed

lemma vref_20_bounds: "d < 16 \<Longrightarrow> 10 \<le> vref_20 d \<and> vref_20 d \<le> 32"
  by (auto simp: vref_20_def)

lemma vout_bounds:
  assumes "calibrated cal" and "d < 16" and "m < 8"
  shows "0 < vout cal (d, m) \<and> vout cal (d, m) < 400000000"
proof -
  obtain K V C where cal: "cal = (K, V, C)" by (cases cal)
  let ?a = "vref_20 d * K + 20 * V" and ?b = "4000 + int m * C"
  have v: "10 \<le> vref_20 d" "vref_20 d \<le> 32" using vref_20_bounds [OF assms(2)] by auto
  have "10 * 848 \<le> vref_20 d * K" "vref_20 d * K \<le> 32 * 1102"
    using assms(1) v by (intro mult_mono; simp add: cal calibrated_def)+
  then have a: "0 < ?a" "?a \<le> 35824" using assms(1) by (auto simp: cal calibrated_def)
  have C: "0 \<le> C" "C \<le> 1021" using assms(1) by (simp_all add: cal calibrated_def)
  have "int m * C \<le> 7 * 1021" using assms(3) C by (intro mult_mono) auto
  moreover have "0 \<le> int m * C" using C by simp
  ultimately have b: "0 < ?b" "?b \<le> 11147" by auto
  have "?a * ?b \<le> 35824 * 11147" using a b by (intro mult_mono) auto
  then show ?thesis using a b by (simp add: vout_def cal)
qed

lemma ldo_fold:
  "fold (ldo_try cal mv) cs b = b' \<Longrightarrow> fst b' \<le> fst b \<and>
     (\<forall>c \<in> set cs. fst b' \<le> \<bar>mv * 80000 - vout cal c\<bar>) \<and>
     (b' = b \<or> snd b' \<in> set cs \<and> fst b' = \<bar>mv * 80000 - vout cal (snd b')\<bar>)"
proof (induction cs arbitrary: b)
  case (Cons c cs)
  have "fst (ldo_try cal mv c b) \<le> fst b \<and> fst (ldo_try cal mv c b) \<le> \<bar>mv * 80000 - vout cal c\<bar> \<and>
      (ldo_try cal mv c b = b \<or> ldo_try cal mv c b = (\<bar>mv * 80000 - vout cal c\<bar>, c))"
    by (auto simp: ldo_try_def Let_def)
  with Cons.IH [of "ldo_try cal mv c b"] Cons.prems show ?case by fastforce
qed simp

lemma ldo_codes_iff: "(d, m) \<in> set ldo_codes \<longleftrightarrow> d < 16 \<and> m < 8"
  by (auto simp: ldo_codes_def)

lemma ldo_search_best:
  assumes "calibrated cal" and "0 \<le> mv" and "mv \<le> 3300" and "ldo_search cal mv = (diff, d, m)"
  shows "d < 16 \<and> m < 8 \<and> diff = \<bar>mv * 80000 - vout cal (d, m)\<bar> \<and>
    (\<forall>d' < 16. \<forall>m' < 8. diff \<le> \<bar>mv * 80000 - vout cal (d', m')\<bar>)"
proof -
  note best = ldo_fold [OF assms(4) [unfolded ldo_search_def]]
  have "\<bar>mv * 80000 - vout cal (0, 0)\<bar> < 400000000"
    using vout_bounds [OF assms(1), of 0 0] assms(2,3) by auto
  moreover have "(0, 0) \<in> set ldo_codes" by (simp add: ldo_codes_iff)
  ultimately have "diff < 400000000" using best by fastforce
  then have "(d, m) \<in> set ldo_codes" "diff = \<bar>mv * 80000 - vout cal (d, m)\<bar>"
    using best by auto
  then show ?thesis using best by (auto simp: ldo_codes_iff)
qed

text \<open>
  C36: on a chip whose codes are not fused, the search returns, for every voltage up to the rail,
  codes that fit their fields and whose output is at least as near to the voltage as that of any
  other pair of codes, whatever the calibration; every intermediate value fits an \<open>int\<close>.
\<close>

theorem ldo_voltage_best:
  assumes "0 \<le> mv" and "mv \<le> 3300" and "blk_version E = 0 \<or> unit \<notin> {0, 1} \<or> mv \<noteq> 1800"
    and "ldo_ll_voltage_to_dref_mul E unit mv = (dref, mul, rail)"
  shows "dref < 16 \<and> mul < 8 \<and> rail = (mv = 3300) \<and>
    (\<forall>d < 16. \<forall>m < 8.
      \<bar>mv * 80000 - vout (ldo_calibration E unit) (dref, mul)\<bar> \<le>
        \<bar>mv * 80000 - vout (ldo_calibration E unit) (d, m)\<bar> \<and>
      {vout (ldo_calibration E unit) (d, m), mv * 80000 - vout (ldo_calibration E unit) (d, m)}
        \<subseteq> {INT_MIN<..INT_MAX})"
proof -
  let ?cal = "ldo_calibration E unit"
  obtain diff d m where search: "ldo_search ?cal mv = (diff, d, m)" by (cases "ldo_search ?cal mv")
  have code: "dref = d" "mul = m" "rail = (mv = 3300)"
    using assms(3,4) by (auto simp: ldo_ll_voltage_to_dref_mul_def search LDO_LL_RAIL_VOLTAGE_MV_def
      split: if_splits)
  have "{vout ?cal (d, m), mv * 80000 - vout ?cal (d, m)} \<subseteq> {INT_MIN<..INT_MAX}"
    if "d < 16" "m < 8" for d m
    using vout_bounds [OF ldo_calibration_bounds that, of E unit] assms(1,2)
    by (auto simp: const_defs)
  then show ?thesis
    using ldo_search_best [OF ldo_calibration_bounds assms(1,2) search] code by auto
qed

text \<open>The two rails this bootloader uses, on a chip without calibration.\<close>

definition plain_fuses :: ldo_fuses where
  "plain_fuses = \<lparr>blk_version = 0, chip_revision = 100, vo1_dref = 0, vo1_mul = 0, vo2_dref = 0,
     vo2_mul = 0, vo3_k = 0, vo3_vos = 0, vo3_c = 0, vo4_k = 0, vo4_k_1 = 0, vo4_vos = 0, vo4_c = 0\<rparr>"

lemma psram_codes:
  "ldo_ll_voltage_to_dref_mul plain_fuses 1 1800 = (6, 5, False)" "vout (1000, 0, 1000) (6, 5) = 1800 * 80000"
  by code_simp+

lemma ldo_voltage_best_witness:
  "\<bar>1800 * 80000 - vout (1000, 0, 1000) (6, 5)\<bar> \<le> \<bar>1800 * 80000 - vout (1000, 0, 1000) (9, 4)\<bar>"
  using ldo_voltage_best [OF _ _ _ psram_codes(1)]
  by (simp add: plain_fuses_def ldo_calibration_def)

subsection \<open>The channel after the sequence\<close>

lemma pmu_addresses:
  assumes "unit \<in> {0, 1, 2, 3}"
  shows "pmu_ext_ldo_ana unit = pmu_ext_ldo unit + 4" "pmu_ext_ldo unit \<noteq> HP_ACTIVE_REGULATOR0"
    "pmu_ext_ldo_ana unit \<noteq> HP_ACTIVE_REGULATOR0" "pmu_ext_ldo unit \<noteq> pmu_ext_ldo_ana unit"
  using assms by (auto simp: pmu_ext_ldo_def pmu_ext_ldo_ana_def index_array_def const_defs)

definition ldo_regs :: "int \<Rightarrow> u32 set" where
  "ldo_regs unit = {pmu_ext_ldo unit, pmu_ext_ldo_ana unit, HP_ACTIVE_REGULATOR0}"

lemma ldo_ops_within: "within (ldo_ops E unit mv) (ldo_regs unit)"
  by (auto simp: within_def ldo_ops_def ldo_regs_def ldo_ll_enable_current_limit_def
      ldo_ll_adjust_voltage_def ldo_ll_set_owner_def ldo_ll_enable_ripple_suppression_def
      ldo_ll_enable_def set_field_def split: prod.splits if_splits)

lemma fused_codes: "unat (x AND mask 4 :: u8) < 16" "unat (x AND mask 3 :: u8) < 8"
proof -
  have "x AND mask n = take_bit n x" for n by (simp add: take_bit_eq_mask)
  then show "unat (x AND mask 4 :: u8) < 16" "unat (x AND mask 3 :: u8) < 8"
    by (simp_all add: take_bit_eq_mod unat_mod)
qed

lemma ldo_codes_fit:
  assumes "0 \<le> mv" and "mv \<le> 3300" and "ldo_ll_voltage_to_dref_mul E unit mv = (dref, mul, rail)"
  shows "dref < 16 \<and> mul < 8 \<and> rail = (mv = 3300)"
proof -
  obtain diff d m where search: "ldo_search (ldo_calibration E unit) mv = (diff, d, m)"
    by (cases "ldo_search (ldo_calibration E unit) mv")
  show ?thesis
    using ldo_search_best [OF ldo_calibration_bounds assms(1,2) search] assms(3) fused_codes
    by (auto simp: ldo_ll_voltage_to_dref_mul_def search LDO_LL_RAIL_VOLTAGE_MV_def split: if_splits)
qed

lemma of_nat_mask: "k < 2 ^ n \<Longrightarrow> (of_nat k :: u32) AND mask n = of_nat k"
  by (simp add: take_bit_eq_mask [symmetric] take_bit_of_nat take_bit_nat_eq_self)

lemma valid_unit: "ldo_ll_is_valid_ldo_channel chan \<Longrightarrow> LDO_ID2UNIT chan \<in> {0, 1, 2, 3}"
  by (auto simp: ldo_ll_is_valid_ldo_channel_def LDO_ID2UNIT_def)

text \<open>The part of the sequence before the regulator is switched on, and the rest.\<close>

lemma ldo_ops_split:
  assumes "ldo_ll_voltage_to_dref_mul E unit mv = (dref, mul, rail)"
  shows "ldo_ops E unit mv =
    (ldo_ll_enable_current_limit unit True @ ldo_ll_adjust_voltage unit dref mul rail @
     ldo_ll_set_owner unit 1 @ ldo_ll_enable_ripple_suppression unit True @
     (if 100 \<le> chip_revision E \<and> unit = 0 then [set_field HP_ACTIVE_REGULATOR0 4 19 8] else [])) @
    set_field (pmu_ext_ldo unit) 1 8 1 # ldo_ll_enable_current_limit unit False"
  using assms by (simp add: ldo_ops_def ldo_ll_enable_def)

lemmas ldo_ll_defs = ldo_ll_enable_current_limit_def ldo_ll_adjust_voltage_def ldo_ll_set_owner_def
  ldo_ll_enable_ripple_suppression_def

definition ldo_set_up :: "int \<Rightarrow> nat \<Rightarrow> nat \<Rightarrow> bool \<Rightarrow> bool \<Rightarrow> (u32 \<Rightarrow> u32) \<Rightarrow> bool" where
  "ldo_set_up unit dref mul rail limited r =
     (get_field 1 7 (r (pmu_ext_ldo unit)) = 1 \<and> get_field 3 9 (r (pmu_ext_ldo unit)) = 0 \<and>
      get_field 1 14 (r (pmu_ext_ldo unit)) = of_bool rail \<and>
      get_field 4 28 (r (pmu_ext_ldo_ana unit)) = of_nat dref \<and>
      get_field 3 23 (r (pmu_ext_ldo_ana unit)) = of_nat mul \<and>
      get_field 1 26 (r (pmu_ext_ldo_ana unit)) = 1 \<and>
      get_field 1 27 (r (pmu_ext_ldo_ana unit)) = of_bool limited)"

lemma ldo_eval:
  fixes r :: "u32 \<Rightarrow> u32"
  assumes "unit \<in> {0, 1, 2, 3}" and "dref < 16" and "mul < 8"
    and "ldo_ll_voltage_to_dref_mul E unit mv = (dref, mul, rail)"
  shows "\<exists>pre. ldo_ops E unit mv =
      pre @ set_field (pmu_ext_ldo unit) 1 8 1 # ldo_ll_enable_current_limit unit False \<and>
      ldo_set_up unit dref mul rail True (eval_ops no_locks pre r)"
    and "ldo_set_up unit dref mul rail False (eval_ops no_locks (ldo_ops E unit mv) r)"
    and "get_field 1 8 (eval_ops no_locks (ldo_ops E unit mv) r (pmu_ext_ldo unit)) = 1"
  using pmu_addresses [OF assms(1)] of_nat_mask [of dref 4] of_nat_mask [of mul 3] assms(2,3)
  unfolding ldo_ops_split [OF assms(4)]
  by (auto simp: ldo_ll_defs bus_simps ldo_set_up_def)

lemma ldo_enable_result:
  assumes "registers P pk no_locks A" and "ldo_regs unit \<subseteq> A" and "0 \<le> mv" and "mv \<le> 3300"
    and "ldo_ll_voltage_to_dref_mul E unit mv = (dref, mul, rail)"
    and "p4_ldo_enable P E (unit + 1) mv s = (ok, s')"
  shows "ok = (unit \<in> {0, 1, 2, 3}) \<and> (\<not> ok \<longrightarrow> s' = s) \<and>
    (ok \<longrightarrow> ldo_set_up unit dref mul rail False (pk (dev s')) \<and>
      get_field 1 8 (pk (dev s') (pmu_ext_ldo unit)) = 1 \<and>
      (\<forall>a \<in> A - ldo_regs unit. pk (dev s') a = pk (dev s) a) \<and>
      (\<exists>pre. s' = run_ops P (pre @ set_field (pmu_ext_ldo unit) 1 8 1 # ldo_ll_enable_current_limit unit False) s \<and>
        ldo_set_up unit dref mul rail True (pk (dev (run_ops P pre s)))))"
proof (cases "unit \<in> {0, 1, 2, 3}")
  case True
  note regs = run_ops_eval [OF assms(1), where r = "pk (dev s)" and s = s, OF _ agree_refl]
  have codes: "dref < 16" "mul < 8" using ldo_codes_fit [OF assms(3-5)] by auto
  have run: "ok" "s' = run_ops P (ldo_ops E unit mv) s"
    using assms(6) True by (auto simp: p4_ldo_enable_def ldo_ll_is_valid_ldo_channel_def LDO_ID2UNIT_def)
  have in_A: "pmu_ext_ldo unit \<in> A" "pmu_ext_ldo_ana unit \<in> A" using assms(2) by (auto simp: ldo_regs_def)
  have w: "within (ldo_ops E unit mv) A" using ldo_ops_within assms(2) unfolding within_def by blast
  have set_up: "ldo_set_up unit dref mul rail b (pk d)"
    if "ldo_set_up unit dref mul rail b q" "agree A (pk d) q" for b d q
    using that agreeD [OF that(2) in_A(1)] agreeD [OF that(2) in_A(2)] by (simp add: ldo_set_up_def)
  note final = regs [OF w, folded run(2)]
  have "pk (dev s') a = pk (dev s) a" if "a \<in> A - ldo_regs unit" for a
  proof -
    have "Some a \<notin> op_reg ` set (ldo_ops E unit mv)"
      using ldo_ops_within [of E unit mv] that by (auto simp: within_def)
    then show ?thesis using agreeD [OF final] that eval_ops_other by fastforce
  qed
  moreover have "get_field 1 8 (pk (dev s') (pmu_ext_ldo unit)) = 1"
    using ldo_eval(3) [OF True codes assms(5)] agreeD [OF final in_A(1)] by simp
  moreover have "ldo_set_up unit dref mul rail False (pk (dev s'))"
    by (rule set_up [OF ldo_eval(2) [OF True codes assms(5)] final])
  moreover obtain pre where pre: "ldo_ops E unit mv =
        pre @ set_field (pmu_ext_ldo unit) 1 8 1 # ldo_ll_enable_current_limit unit False"
      "ldo_set_up unit dref mul rail True (eval_ops no_locks pre (pk (dev s)))"
    using ldo_eval(1) [OF True codes assms(5)] by blast
  moreover have "ldo_set_up unit dref mul rail True (pk (dev (run_ops P pre s)))"
    using pre w by (intro set_up [OF pre(2) regs]) (auto simp: within_def)
  ultimately show ?thesis using True run by auto
next
  case False
  then show ?thesis
    using assms(6) by (auto simp: p4_ldo_enable_def ldo_ll_is_valid_ldo_channel_def LDO_ID2UNIT_def)
qed

text \<open>
  C37: on registers that keep what is written, \<open>p4_ldo_enable\<close> refuses an invalid channel
  without touching anything; for a valid one the regulator ends up on, under software control,
  with the codes of the voltage and the current limit released, and no register of another
  channel changes. When the regulator is switched on, the codes are already set and the current
  limit is on.
\<close>

theorem ldo_enabled:
  assumes "registers P pk no_locks A" and "ldo_regs unit \<subseteq> A" and "0 \<le> mv" and "mv \<le> 3300"
    and "ldo_ll_voltage_to_dref_mul E unit mv = (dref, mul, rail)"
    and "p4_ldo_enable P E (unit + 1) mv s = (ok, s')"
  shows "ok = (unit \<in> {0, 1, 2, 3}) \<and> (\<not> ok \<longrightarrow> s' = s) \<and>
    (ok \<longrightarrow> ldo_set_up unit dref mul rail False (pk (dev s')) \<and>
      get_field 1 8 (pk (dev s') (pmu_ext_ldo unit)) = 1 \<and>
      (\<forall>a \<in> A - ldo_regs unit. pk (dev s') a = pk (dev s) a) \<and>
      (\<exists>pre. s' = run_ops P (pre @ set_field (pmu_ext_ldo unit) 1 8 1 # ldo_ll_enable_current_limit unit False) s \<and>
        ldo_set_up unit dref mul rail True (pk (dev (run_ops P pre s)))))"
  using assms by (rule ldo_enable_result)

lemma ldo_enabled_witness:
  "let s' = snd (p4_ldo_enable (file_bus no_locks) plain_fuses 2 1800 \<lparr>dev = (\<lambda>_. - 1), log = []\<rparr>)
   in ldo_set_up 1 6 5 False False (dev s') \<and> dev s' (pmu_ext_ldo 0) = - 1 \<and> dev s' (pmu_ext_ldo 2) = - 1"
proof -
  have "registers (file_bus no_locks) (\<lambda>d. d) no_locks UNIV"
    by (rule file_registers) (simp add: no_locks_def)
  from ldo_enabled [OF this _ _ _ psram_codes(1), of "\<lparr>dev = (\<lambda>_. - 1), log = []\<rparr>"] show ?thesis
    by (auto simp: Let_def prod_eq_iff ldo_regs_def pmu_ext_ldo_def pmu_ext_ldo_ana_def index_array_def const_defs)
qed

end
