(* ===== verification/P4String.thy ===== *)
theory P4String
  imports Prelude
begin

text \<open>
  \<open>bootloader/p4/p4_string.c\<close>: \<open>memset\<close>, \<open>memcpy\<close>, \<open>memcmp\<close> and \<open>memmove\<close> over a
  byte-addressed 32-bit memory. Addresses are \<open>u32\<close>, so pointer arithmetic wraps; a C object
  never does, which is the hypothesis \<open>fits\<close> of the theorems.
\<close>

type_synonym mem = "u32 \<Rightarrow> u8"

fun memset :: "mem \<Rightarrow> u32 \<Rightarrow> u8 \<Rightarrow> nat \<Rightarrow> mem" where
  "memset m d c 0 = m"
| "memset m d c (Suc n) = memset (m(d := c)) (d + 1) c n"

fun memcpy :: "mem \<Rightarrow> u32 \<Rightarrow> u32 \<Rightarrow> nat \<Rightarrow> mem" where
  "memcpy m d s 0 = m"
| "memcpy m d s (Suc n) = memcpy (m(d := m s)) (d + 1) (s + 1) n"

fun memcmp :: "mem \<Rightarrow> u32 \<Rightarrow> u32 \<Rightarrow> nat \<Rightarrow> int" where
  "memcmp m x y 0 = 0"
| "memcmp m x y (Suc n) =
     (if m x \<noteq> m y then uint (m x) - uint (m y) else memcmp m (x + 1) (y + 1) n)"

text \<open>The copy from the end: both pointers are decremented before each byte.\<close>

fun memcpy_down :: "mem \<Rightarrow> u32 \<Rightarrow> u32 \<Rightarrow> nat \<Rightarrow> mem" where
  "memcpy_down m d s 0 = m"
| "memcpy_down m d s (Suc n) =
     (let d' = d - 1; s' = s - 1 in memcpy_down (m(d' := m s')) d' s' n)"

definition memmove :: "mem \<Rightarrow> u32 \<Rightarrow> u32 \<Rightarrow> nat \<Rightarrow> mem" where
  "memmove m d s n =
     (if d = s \<or> n = 0 then m
      else if d < s then memcpy m d s n
      else memcpy_down m (d + of_nat n) (s + of_nat n) n)"

subsection \<open>Ranges\<close>

definition fits :: "u32 \<Rightarrow> nat \<Rightarrow> bool" where
  "fits a n = (unat a + n \<le> 2 ^ 32)"

definition in_range :: "u32 \<Rightarrow> nat \<Rightarrow> u32 \<Rightarrow> bool" where
  "in_range a n x = (unat a \<le> unat x \<and> unat x < unat a + n)"

lemma unat_next: "fits a (Suc n) \<Longrightarrow> 0 < n \<Longrightarrow> unat (a + 1) = Suc (unat a)"
  by (simp add: fits_def unat_word_ariths)

lemma fits_next: "fits a (Suc n) \<Longrightarrow> fits (a + 1) n"
  by (cases "n = 0") (auto simp: unat_next, auto simp: fits_def unat_word_ariths)

lemma in_range_next:
  "fits a (Suc n) \<Longrightarrow> in_range a (Suc n) x \<longleftrightarrow> x = a \<or> in_range (a + 1) n x"
  by (cases "n = 0") (auto simp: in_range_def unat_next word_unat_eq_iff)

lemma unat_shift: "in_range d n x \<Longrightarrow> fits s n \<Longrightarrow> unat (s + (x - d)) = unat s + (unat x - unat d)"
  by (auto simp: in_range_def fits_def unat_word_ariths unat_sub word_le_nat_alt)

lemma memset_result:
  "fits d n \<Longrightarrow> memset m d c n x = (if in_range d n x then c else m x)"
proof (induction n arbitrary: m d)
  case (Suc n)
  then show ?case
    using Suc.IH [OF fits_next [OF Suc.prems]] by (auto simp: in_range_next)
qed (auto simp: in_range_def)

lemma in_range_0 [simp]: "\<not> in_range a 0 x"
  by (simp add: in_range_def)

lemma in_range_start: "in_range a (Suc n) a"
  by (simp add: in_range_def)

lemma next_shift: "(s + 1) + (x - (d + 1)) = s + (x - d)" for s :: u32
  by simp

text \<open>Copying upwards is right when the destination starts no later, or the ranges are disjoint.\<close>

definition apart :: "u32 \<Rightarrow> u32 \<Rightarrow> nat \<Rightarrow> bool" where
  "apart d s n = (unat d + n \<le> unat s \<or> unat s + n \<le> unat d)"

lemma memcpy_up:
  "fits d n \<Longrightarrow> fits s n \<Longrightarrow> unat d \<le> unat s \<or> apart d s n \<Longrightarrow>
     memcpy m d s n x = (if in_range d n x then m (s + (x - d)) else m x)"
proof (induction n arbitrary: m d s)
  case (Suc n)
  have IH: "memcpy (m(d := m s)) (d + 1) (s + 1) n x =
      (if in_range (d + 1) n x then (m(d := m s)) ((s + 1) + (x - (d + 1))) else (m(d := m s)) x)"
  proof (cases "n = 0")
    case False
    then have "unat (d + 1) \<le> unat (s + 1) \<or> apart (d + 1) (s + 1) n"
      using Suc.prems unat_next [of d n] unat_next [of s n] by (auto simp: apart_def)
    then show ?thesis
      by (intro Suc.IH fits_next Suc.prems)
  qed simp
  have "s + (x - d) \<noteq> d" if "in_range (d + 1) n x"
  proof -
    have "in_range d (Suc n) x \<and> x \<noteq> d"
      using that Suc.prems unat_next [of d n] by (cases "n = 0") (auto simp: in_range_def)
    then show ?thesis
      using unat_shift [of d "Suc n" x s] Suc.prems
      by (auto simp: word_unat_eq_iff in_range_def apart_def)
  qed
  then show ?case
    using IH Suc.prems by (auto simp: next_shift in_range_next)
qed simp

text \<open>Copying downwards is right when the destination starts no earlier, or the ranges are disjoint.\<close>

lemma unat_end: "fits a (Suc n) \<Longrightarrow> unat (a + of_nat n) = unat a + n"
  by (simp add: fits_def unat_word_ariths unat_of_nat)

lemma in_range_last:
  "fits a (Suc n) \<Longrightarrow> in_range a (Suc n) x \<longleftrightarrow> x = a + of_nat n \<or> in_range a n x"
  using unat_end [of a n] by (auto simp: in_range_def word_unat_eq_iff)

lemma fits_less: "fits a (Suc n) \<Longrightarrow> fits a n"
  by (simp add: fits_def)

lemma memcpy_down_result:
  "fits d n \<Longrightarrow> fits s n \<Longrightarrow> unat s \<le> unat d \<or> apart d s n \<Longrightarrow>
     memcpy_down m (d + of_nat n) (s + of_nat n) n x = (if in_range d n x then m (s + (x - d)) else m x)"
proof (induction n arbitrary: m)
  case (Suc n)
  let ?m = "m(d + of_nat n := m (s + of_nat n))"
  have "unat s \<le> unat d \<or> apart d s n" using Suc.prems by (auto simp: apart_def)
  then have IH: "memcpy_down ?m (d + of_nat n) (s + of_nat n) n x =
      (if in_range d n x then ?m (s + (x - d)) else ?m x)"
    by (rule Suc.IH [OF fits_less [OF Suc.prems(1)] fits_less [OF Suc.prems(2)]])
  have "s + (x - d) \<noteq> d + of_nat n" if "in_range d n x"
    using that unat_shift [of d n x s] unat_end [of d n] Suc.prems fits_less
    by (auto simp: word_unat_eq_iff in_range_def apart_def)
  moreover have notin: "\<not> in_range d n (d + of_nat n)"
    using unat_end [OF Suc.prems(1)] by (simp add: in_range_def)
  ultimately have "memcpy_down ?m (d + of_nat n) (s + of_nat n) n x =
      (if in_range d (Suc n) x then m (s + (x - d)) else m x)"
    using IH notin by (simp add: in_range_last [OF Suc.prems(1)])
  moreover have "a + of_nat (Suc n) - 1 = a + of_nat n" for a :: u32 by simp
  ultimately show ?case by (simp only: memcpy_down.simps Let_def)
qed simp

lemma memmove_result:
  assumes "fits d n" and "fits s n"
  shows "memmove m d s n x = (if in_range d n x then m (s + (x - d)) else m x)"
proof (cases "d = s \<or> n = 0")
  case False
  then show ?thesis
    using memcpy_up [OF assms, of m x] memcpy_down_result [OF assms, of m x]
    by (auto simp: memmove_def word_less_nat_alt)
qed (auto simp: memmove_def)

text \<open>The \<open>n\<close> bytes at an address.\<close>

definition bytes_at :: "mem \<Rightarrow> u32 \<Rightarrow> nat \<Rightarrow> u8 list" where
  "bytes_at m a n = map (\<lambda>i. m (a + of_nat i)) [0..<n]"

lemma in_range_index: "fits a n \<Longrightarrow> i < n \<Longrightarrow> in_range a n (a + of_nat i)"
  by (auto simp: in_range_def fits_def unat_word_ariths unat_of_nat)

text \<open>
  \<open>memmove\<close> is right for every overlap: afterwards the destination holds what the source
  held before, and no byte outside the destination has changed. \<open>memcpy\<close> does the same when the
  two objects do not overlap.
\<close>

theorem memmove_correct:
  assumes "fits d n" and "fits s n"
  shows "bytes_at (memmove m d s n) d n = bytes_at m s n \<and>
    (\<forall>x. \<not> in_range d n x \<longrightarrow> memmove m d s n x = m x) \<and>
    (apart d s n \<longrightarrow> memcpy m d s n = memmove m d s n)"
  using memmove_result [OF assms] in_range_index [OF assms(1)] memcpy_up [OF assms]
  by (auto simp: bytes_at_def)

lemma memmove_correct_witness:
  "bytes_at (memmove (\<lambda>a. ucast a) 0x1002 0x1000 8) 0x1002 8 = bytes_at (\<lambda>a. ucast a) 0x1000 8 \<and>
    memmove (\<lambda>a. ucast a) 0x1002 0x1000 8 0x100A = 0x0A \<and> memmove (\<lambda>a. ucast a) 0x1002 0x1000 8 0x1001 = 1 \<and>
    memcpy (\<lambda>a. ucast a) 0x2000 0x1000 8 = memmove (\<lambda>a. ucast a) 0x2000 0x1000 8"
  using memmove_correct [where d = "0x1002" and s = "0x1000" and n = 8 and m = "\<lambda>a. ucast a"]
    memmove_correct [where d = "0x2000" and s = "0x1000" and n = 8 and m = "\<lambda>a. ucast a"]
  by (simp add: fits_def in_range_def apart_def)

lemma bytes_at_Suc: "bytes_at m a (Suc n) = m a # bytes_at m (a + 1) n"
  by (simp add: bytes_at_def map_upt_Suc add.assoc del: upt_Suc)

lemma memcmp_zero: "memcmp m x y n = 0 \<longleftrightarrow> bytes_at m x n = bytes_at m y n"
  by (induction n arbitrary: x y) (auto simp: bytes_at_Suc dest: unsigned_word_eqI, simp add: bytes_at_def)

lemma memcmp_swap: "memcmp m y x n = - memcmp m x y n"
proof (induction n arbitrary: x y)
  case (Suc n)
  show ?case using Suc.IH [of "y + 1" "x + 1"] by simp
qed simp

text \<open>
  \<open>memcmp\<close> is 0 exactly on equal contents and swapping its arguments negates it; \<open>memset\<close>
  fills its range and changes nothing else.
\<close>

theorem memcmp_memset_correct:
  assumes "fits d n"
  shows "(memcmp m x y n = 0 \<longleftrightarrow> bytes_at m x n = bytes_at m y n) \<and>
    memcmp m y x n = - memcmp m x y n \<and>
    bytes_at (memset m d c n) d n = replicate n c \<and>
    (\<forall>z. \<not> in_range d n z \<longrightarrow> memset m d c n z = m z)"
proof (intro conjI allI impI)
  show "memcmp m x y n = 0 \<longleftrightarrow> bytes_at m x n = bytes_at m y n" by (rule memcmp_zero)
  show "memcmp m y x n = - memcmp m x y n" by (rule memcmp_swap)
  show "bytes_at (memset m d c n) d n = replicate n c"
    using in_range_index [OF assms]
    by (intro nth_equalityI) (simp_all add: bytes_at_def memset_result [OF assms])
qed (simp add: memset_result [OF assms])

lemma memcmp_memset_correct_witness:
  "(memcmp (\<lambda>a. ucast a) 0x10 0x110 16 = 0 \<longleftrightarrow> bytes_at (\<lambda>a. ucast a) 0x10 16 = bytes_at (\<lambda>a. ucast a) 0x110 16) \<and>
    memcmp (\<lambda>a. ucast a) 0x110 0x10 16 = - memcmp (\<lambda>a. ucast a) 0x10 0x110 16 \<and>
    bytes_at (memset (\<lambda>a. ucast a) 0xFFFFFFF0 7 16) 0xFFFFFFF0 16 = replicate 16 7 \<and>
    memset (\<lambda>a. ucast a) 0xFFFFFFF0 7 16 0xFFFFFFEF = 0xEF \<and> memset (\<lambda>a. ucast a) 0xFFFFFFF0 7 16 0 = 0"
  using memcmp_memset_correct [where d = "0xFFFFFFF0" and n = 16 and m = "\<lambda>a. ucast a" and x = "0x10" and y = "0x110" and c = 7]
  by (simp add: fits_def in_range_def)

end
