(* ===== verification/P4Platform.thy ===== *)
theory P4Platform
  imports P4Uart P4Ldo P4String
begin

text \<open>
  The code the bootloader calls but does not own: the boot ROM (\<open>esp_rom_*\<close>) and the ESP-IDF
  sources under \<open>bootloader/vendor\<close>. Each entry point is a field of the record \<open>platform\<close>,
  next to the bus; what the bootloader relies on about them is stated as contracts
  (\<open>rom_flash\<close>, \<open>rom_crc\<close>, \<open>cached_memory\<close>), the documented behaviour of those routines.
\<close>

record cpu_freq_config =
  clk_source :: nat
  source_freq_mhz :: u32
  clk_div_int_den_num :: "u32 \<times> u32 \<times> u32"
  freq_mhz :: u32

record 'd platform = "'d uart_rom" +
  fuses :: ldo_fuses
  reset_reason :: "'d \<Rightarrow> u32"
  gpio_connect_out :: "u32 \<Rightarrow> u32 \<Rightarrow> bool \<Rightarrow> bool \<Rightarrow> 'd \<Rightarrow> 'd"
  gpio_connect_in :: "u32 \<Rightarrow> u32 \<Rightarrow> bool \<Rightarrow> 'd \<Rightarrow> 'd"
  regi2c_write_mask :: "u8 \<Rightarrow> u8 \<Rightarrow> u8 \<Rightarrow> u8 \<Rightarrow> u8 \<Rightarrow> u8 \<Rightarrow> 'd \<Rightarrow> 'd"
  enter_low_speed_mode :: "bool \<Rightarrow> 'd \<Rightarrow> 'd"
  chip_size :: "'d \<Rightarrow> u32"
  set_chip_size :: "u32 \<Rightarrow> 'd \<Rightarrow> 'd"
  spiflash_read :: "u32 \<Rightarrow> u32 \<Rightarrow> u32 \<Rightarrow> 'd \<Rightarrow> int \<times> 'd"
  crc32_le :: "u32 \<Rightarrow> u32 \<Rightarrow> u32 \<Rightarrow> 'd \<Rightarrow> u32 \<times> 'd"
  peek :: "'d \<Rightarrow> u32 \<Rightarrow> u8"
  cache_writeback_addr :: "u32 \<Rightarrow> u32 \<Rightarrow> 'd \<Rightarrow> 'd"
  cache_invalidate_addr :: "u32 \<Rightarrow> u32 \<Rightarrow> 'd \<Rightarrow> 'd"
  cache_writeback_all :: "'d \<Rightarrow> 'd"
  xtal_freq_update :: "u32 \<Rightarrow> 'd \<Rightarrow> 'd"
  xtal_get_freq_mhz :: "'d \<Rightarrow> u32"
  cpu_mhz_to_config :: "u32 \<Rightarrow> 'd \<Rightarrow> cpu_freq_config option"
  cpu_set_config :: "cpu_freq_config \<Rightarrow> 'd \<Rightarrow> 'd"
  cpu_get_config :: "'d \<Rightarrow> cpu_freq_config"
  mpll_enable :: "'d \<Rightarrow> 'd"
  mpll_disable :: "'d \<Rightarrow> 'd"
  mpll_configure :: "u32 \<Rightarrow> u32 \<Rightarrow> bool \<Rightarrow> 'd \<Rightarrow> 'd"
  cache_hal_init :: "nat \<Rightarrow> u32 \<Rightarrow> u32 \<Rightarrow> 'd \<Rightarrow> 'd"
  mmu_hal_init :: "nat \<Rightarrow> u32 \<Rightarrow> 'd \<Rightarrow> 'd"
  mmu_map_region :: "u32 \<Rightarrow> nat \<Rightarrow> u32 \<Rightarrow> u32 \<Rightarrow> u32 \<Rightarrow> 'd \<Rightarrow> u32 \<times> 'd"
  l1_get_bus :: "u32 \<Rightarrow> u32 \<Rightarrow> u32 \<Rightarrow> u32"
  l1_enable_bus :: "u32 \<Rightarrow> u32 \<Rightarrow> 'd \<Rightarrow> 'd"
  psram_enable :: "'d \<Rightarrow> int \<times> 'd"
  psram_physical_size :: "'d \<Rightarrow> int \<times> u32"

text \<open>
  Where the linker put the two buffers the flash code reads into: the 4 KB staging buffer
  \<open>s_buf\<close> and, on the stack, one partition entry.
\<close>

record buffers =
  s_buf :: u32
  entry_buf :: u32

subsection \<open>Contracts\<close>

text \<open>
  The ROM's flash reader, for word-aligned requests into the memory \<open>ram\<close>: it succeeds exactly
  when the request lies within the chip size the ROM was told, and then the destination holds the
  flash contents \<open>F\<close> and no other byte has changed.
\<close>

definition rom_flash :: "'d platform \<Rightarrow> mem \<Rightarrow> u32 set \<Rightarrow> bool" where
  "rom_flash P F ram =
     ((\<forall>off dest len d. off AND 3 = 0 \<longrightarrow> dest AND 3 = 0 \<longrightarrow> len AND 3 = 0 \<longrightarrow>
        fits dest (unat len) \<longrightarrow> (\<forall>a. in_range dest (unat len) a \<longrightarrow> a \<in> ram) \<longrightarrow>
        (case spiflash_read P off dest len d of (r, d') \<Rightarrow>
          (r = 0 \<longleftrightarrow> unat off + unat len \<le> unat (chip_size P d)) \<and> chip_size P d' = chip_size P d \<and>
          (r = 0 \<longrightarrow> (\<forall>a. peek P d' a = (if in_range dest (unat len) a then F (off + (a - dest)) else peek P d a))))) \<and>
      (\<forall>n d. chip_size P (set_chip_size P n d) = n))"

text \<open>
  The ROM's CRC reads memory, changes nothing, and chains; it inverts on the way in and out, so
  the CRC of nothing is the start value.
\<close>

definition rom_crc :: "'d platform \<Rightarrow> (u32 \<Rightarrow> u8 list \<Rightarrow> u32) \<Rightarrow> bool" where
  "rom_crc P crcf =
     ((\<forall>c a n d. case crc32_le P c a n d of (c', d') \<Rightarrow>
        c' = crcf c (bytes_at (peek P d) a (unat n)) \<and> peek P d' = peek P d \<and> chip_size P d' = chip_size P d) \<and>
      (\<forall>c xs ys. crcf (crcf c xs) ys = crcf c (xs @ ys)) \<and> (\<forall>c. crcf c [] = c))"

text \<open>
  Memory behind a write-back cache: \<open>peek\<close> is what the CPU reads, \<open>chip\<close> what the chip holds.
  At any time a dirty line may reach the chip. Writing back makes the chip agree with the CPU on
  a range of whole lines; invalidating makes the CPU agree with the chip.
\<close>

definition evicts :: "'d platform \<Rightarrow> ('d \<Rightarrow> mem) \<Rightarrow> 'd \<Rightarrow> 'd \<Rightarrow> u32 \<Rightarrow> bool" where
  "evicts P chip d d' a = (chip d' a = chip d a \<or> chip d' a = peek P d a)"

definition cached_memory :: "'d platform \<Rightarrow> ('d \<Rightarrow> mem) \<Rightarrow> bool" where
  "cached_memory P chip =
     ((\<forall>a n d. a AND 63 = 0 \<longrightarrow> n AND 63 = 0 \<longrightarrow> peek P (cache_writeback_addr P a n d) = peek P d \<and>
        (\<forall>x. if in_range a (unat n) x then chip (cache_writeback_addr P a n d) x = peek P d x
             else evicts P chip d (cache_writeback_addr P a n d) x)) \<and>
      (\<forall>a n d. a AND 63 = 0 \<longrightarrow> n AND 63 = 0 \<longrightarrow> chip (cache_invalidate_addr P a n d) = chip d \<and>
        (\<forall>x. peek P (cache_invalidate_addr P a n d) x = (if in_range a (unat n) x then chip d x else peek P d x))) \<and>
      (\<forall>off dest len d x. \<not> in_range dest (unat len) x \<longrightarrow> evicts P chip d (snd (spiflash_read P off dest len d)) x) \<and>
      (\<forall>c a n d x. evicts P chip d (snd (crc32_le P c a n d)) x) \<and>
      (\<forall>a n d. chip_size P (cache_writeback_addr P a n d) = chip_size P d \<and>
        chip_size P (cache_invalidate_addr P a n d) = chip_size P d))"

end
