(* ===== verification/P4Flash.thy ===== *)
theory P4Flash
  imports P4Platform P4String
begin

text \<open>
  \<open>bootloader/p4/p4_flash.c\<close>: reading flash through the ROM, walking the partition table,
  the streaming CRC, and the copy into PSRAM. The ROM routines write to memory, which the code
  then reads (\<open>peek\<close>); messages on the console are not modelled.
\<close>

definition P4_PART_TABLE_OFFSET :: u32 where [const_defs]: "P4_PART_TABLE_OFFSET = 0x8000"
definition P4_PART_TABLE_LEN :: u32 where [const_defs]: "P4_PART_TABLE_LEN = 0x1000"
definition P4_PART_MAX_ENTRIES :: nat where [const_defs]: "P4_PART_MAX_ENTRIES = unat P4_PART_TABLE_LEN div 32"
definition P4_PART_MAGIC :: u16 where [const_defs]: "P4_PART_MAGIC = 0x50AA"
definition P4_PART_MAGIC_MD5 :: u16 where [const_defs]: "P4_PART_MAGIC_MD5 = 0xEBEB"
definition P4_FLASH_SIZE :: u32 where [const_defs]: "P4_FLASH_SIZE = 16 * 1024 * 1024"
definition CHUNK :: u32 where [const_defs]: "CHUNK = 4096"

record p4_part_entry =
  magic :: u16
  ptype :: u8
  subtype :: u8
  poffset :: u32
  psize :: u32
  plabel :: "u8 list"
  pflags :: u32

record p4_partition =
  part_offset :: u32
  part_size :: u32
  part_label :: "u8 list"

subsection \<open>Reading\<close>

definition p4_flash_init :: "'d platform \<Rightarrow> 'd soc \<Rightarrow> bool \<times> 'd soc" where
  "p4_flash_init P s =
     (let s = act (Ev_low_speed True) (enter_low_speed_mode P True) s;
          s = act (Ev_chip_size P4_FLASH_SIZE) (set_chip_size P P4_FLASH_SIZE) s
      in (chip_size P (dev s) = P4_FLASH_SIZE, s))"

definition p4_flash_read :: "'d platform \<Rightarrow> u32 \<Rightarrow> u32 \<Rightarrow> u32 \<Rightarrow> 'd soc \<Rightarrow> bool \<times> 'd soc" where
  "p4_flash_read P off dest len s =
     (if off AND 3 \<noteq> 0 \<or> len AND 3 \<noteq> 0 \<or> dest AND 3 \<noteq> 0 then (False, s)
      else (case spiflash_read P off dest len (dev s) of
        (r, d) \<Rightarrow> (r = 0, act (Ev_flash_read off dest len) (\<lambda>_. d) s)))"

subsection \<open>The partition table\<close>

definition u16_le :: "(u32 \<Rightarrow> u8) \<Rightarrow> u32 \<Rightarrow> u16" where
  "u16_le m a = ucast (m a) OR push_bit 8 (ucast (m (a + 1)))"

definition u32_le :: "(u32 \<Rightarrow> u8) \<Rightarrow> u32 \<Rightarrow> u32" where
  "u32_le m a = ucast (m a) OR push_bit 8 (ucast (m (a + 1))) OR push_bit 16 (ucast (m (a + 2)))
     OR push_bit 24 (ucast (m (a + 3)))"

lemma bit_u32_le:
  "bit (u32_le m a) i \<longleftrightarrow> (if i < 8 then bit (m a) i else if i < 16 then bit (m (a + 1)) (i - 8)
     else if i < 24 then bit (m (a + 2)) (i - 16) else i < 32 \<and> bit (m (a + 3)) (i - 24))"
  by (auto simp: u32_le_def bit_simps dest: bit_imp_le_length)

text \<open>The 32-byte layout of \<open>p4_part_entry_t\<close>, little-endian, at an address.\<close>

definition entry_at :: "(u32 \<Rightarrow> u8) \<Rightarrow> u32 \<Rightarrow> p4_part_entry" where
  "entry_at m a = \<lparr>magic = u16_le m a, ptype = m (a + 2), subtype = m (a + 3),
     poffset = u32_le m (a + 4), psize = u32_le m (a + 8), plabel = bytes_at m (a + 12) 16,
     pflags = u32_le m (a + 28)\<rparr>"

text \<open>
  \<open>part_walk\<close> over the entries still to visit; the visitor answers whether to go on and
  updates its context. The result is the code's return value and the context.
\<close>

fun part_walk_from :: "'d platform \<Rightarrow> buffers \<Rightarrow> (p4_part_entry \<Rightarrow> 'c \<Rightarrow> bool \<times> 'c) \<Rightarrow> nat list \<Rightarrow>
    'c \<Rightarrow> 'd soc \<Rightarrow> bool \<times> 'c \<times> 'd soc" where
  "part_walk_from P B visit [] ctx s = (True, ctx, s)"
| "part_walk_from P B visit (i # is) ctx s =
     (case p4_flash_read P (P4_PART_TABLE_OFFSET + of_nat i * 32) (entry_buf B) 32 s of
        (False, s') \<Rightarrow> (False, ctx, s')
      | (True, s') \<Rightarrow>
          let e = entry_at (peek P (dev s')) (entry_buf B) in
          if magic e = P4_PART_MAGIC_MD5 then part_walk_from P B visit is ctx s'
          else if magic e \<noteq> P4_PART_MAGIC then (True, ctx, s')
          else (case visit e ctx of
              (False, ctx') \<Rightarrow> (True, ctx', s')
            | (True, ctx') \<Rightarrow> part_walk_from P B visit is ctx' s'))"

definition part_walk :: "'d platform \<Rightarrow> buffers \<Rightarrow> (p4_part_entry \<Rightarrow> 'c \<Rightarrow> bool \<times> 'c) \<Rightarrow> 'c \<Rightarrow>
    'd soc \<Rightarrow> bool \<times> 'c \<times> 'd soc" where
  "part_walk P B visit ctx s = part_walk_from P B visit [0..<P4_PART_MAX_ENTRIES] ctx s"

text \<open>The label is copied and terminated.\<close>

definition find_visit :: "u8 \<Rightarrow> u8 \<Rightarrow> p4_part_entry \<Rightarrow> p4_partition option \<Rightarrow> bool \<times> p4_partition option" where
  "find_visit typ sub e f =
     (if ptype e \<noteq> typ \<or> subtype e \<noteq> sub then (True, f)
      else (False, Some \<lparr>part_offset = poffset e, part_size = psize e, part_label = plabel e @ [0]\<rparr>))"

definition p4_part_find :: "'d platform \<Rightarrow> buffers \<Rightarrow> u8 \<Rightarrow> u8 \<Rightarrow> 'd soc \<Rightarrow> p4_partition option \<times> 'd soc" where
  "p4_part_find P B typ sub s =
     (case part_walk P B (find_visit typ sub) None s of
        (False, f, s') \<Rightarrow> (None, s')
      | (True, f, s') \<Rightarrow> (f, s'))"

definition dump_visit :: "p4_part_entry \<Rightarrow> p4_part_entry list \<Rightarrow> bool \<times> p4_part_entry list" where
  "dump_visit e shown = (True, shown @ [e])"

definition p4_part_dump :: "'d platform \<Rightarrow> buffers \<Rightarrow> 'd soc \<Rightarrow> p4_part_entry list \<times> 'd soc" where
  "p4_part_dump P B s = (case part_walk P B dump_visit [] s of (ok, shown, s') \<Rightarrow> (shown, s'))"

subsection \<open>The chunked loops\<close>

text \<open>
  \<open>while (done < len) { want = min(len - done, sizeof s_buf); ...; done += want; }\<close>: the
  loop that \<open>p4_flash_crc32\<close> and \<open>p4_flash_copy\<close> share.
\<close>

definition chunk_want :: "u32 \<Rightarrow> u32 \<Rightarrow> u32" where
  "chunk_want len pos = (let want = len - pos in if want > CHUNK then CHUNK else want)"

lemma chunk_want_bounds:
  assumes "pos < len"
  shows "0 < unat (chunk_want len pos) \<and> unat pos + unat (chunk_want len pos) \<le> unat len \<and>
    unat (chunk_want len pos) \<le> 4096 \<and> unat (pos + chunk_want len pos) = unat pos + unat (chunk_want len pos)"
proof -
  have d: "unat (len - pos) = unat len - unat pos" "unat pos < unat len"
    using assms unat_sub [of pos len] by (simp_all add: word_less_nat_alt word_le_nat_alt)
  then have w: "0 < unat (chunk_want len pos)" "unat (chunk_want len pos) \<le> unat len - unat pos"
    "unat (chunk_want len pos) \<le> 4096"
    by (auto simp: chunk_want_def Let_def CHUNK_def word_less_nat_alt)
  moreover have "unat len < 2 ^ LENGTH(32)" by (rule unsigned_less)
  then have "unat pos + unat (chunk_want len pos) < 2 ^ 32" using w d(2) by simp
  ultimately show ?thesis using d(2) by (simp add: unat_word_ariths)
qed

function chunk_loop :: "(u32 \<Rightarrow> u32 \<Rightarrow> 'x \<Rightarrow> bool \<times> 'x) \<Rightarrow> u32 \<Rightarrow> u32 \<Rightarrow> 'x \<Rightarrow> bool \<times> 'x" where
  "chunk_loop body len pos x =
     (if pos < len
      then (case body pos (chunk_want len pos) x of
          (False, y) \<Rightarrow> (False, y)
        | (True, y) \<Rightarrow> chunk_loop body len (pos + chunk_want len pos) y)
      else (True, x))"
  by auto

termination
proof (relation "measure (\<lambda>(body, len, pos, x). unat len - unat pos)", goal_cases)
  case (2 body len pos x)
  then show ?case using chunk_want_bounds [of pos len] by auto
qed simp

declare chunk_loop.simps [simp del]

definition crc_body :: "'d platform \<Rightarrow> buffers \<Rightarrow> u32 \<Rightarrow> u32 \<Rightarrow> u32 \<Rightarrow> u32 \<times> 'd soc \<Rightarrow> bool \<times> u32 \<times> 'd soc" where
  "crc_body P B off pos want x =
     (case x of (crc, s) \<Rightarrow>
       case p4_flash_read P (off + pos) (s_buf B) ((want + 3) AND NOT 3) s of
         (False, s') \<Rightarrow> (False, crc, s')
       | (True, s') \<Rightarrow>
           case crc32_le P crc (s_buf B) want (dev s') of
             (crc', d) \<Rightarrow> (True, crc', s'\<lparr>dev := d\<rparr>))"

definition p4_flash_crc32 :: "'d platform \<Rightarrow> buffers \<Rightarrow> u32 \<Rightarrow> u32 \<Rightarrow> 'd soc \<Rightarrow> u32 option \<times> 'd soc" where
  "p4_flash_crc32 P B off len s =
     (if off AND 3 \<noteq> 0 then (None, s)
      else (case chunk_loop (crc_body P B off) len 0 (0, s) of
          (False, crc, s') \<Rightarrow> (None, s')
        | (True, crc, s') \<Rightarrow> (Some crc, s')))"

definition p4_mem_crc32 :: "'d platform \<Rightarrow> u32 \<Rightarrow> u32 \<Rightarrow> 'd soc \<Rightarrow> u32 \<times> 'd soc" where
  "p4_mem_crc32 P addr len s = (case crc32_le P 0 addr len (dev s) of (c, d) \<Rightarrow> (c, s\<lparr>dev := d\<rparr>))"

definition copy_body :: "'d platform \<Rightarrow> u32 \<Rightarrow> u32 \<Rightarrow> u32 \<Rightarrow> u32 \<Rightarrow> 'd soc \<Rightarrow> bool \<times> 'd soc" where
  "copy_body P off dest pos want s = p4_flash_read P (off + pos) (dest + pos) want s"

definition p4_flash_copy :: "'d platform \<Rightarrow> u32 \<Rightarrow> u32 \<Rightarrow> u32 \<Rightarrow> 'd soc \<Rightarrow> bool \<times> 'd soc" where
  "p4_flash_copy P off len dest s =
     (if dest AND 3 \<noteq> 0 \<or> off AND 3 \<noteq> 0 then (False, s)
      else (case chunk_loop (copy_body P off dest) len 0 s of
          (False, s') \<Rightarrow> (False, s')
        | (True, s') \<Rightarrow>
            (True, act (Ev_invalidate dest len) (cache_invalidate_addr P dest len)
              (act (Ev_writeback dest len) (cache_writeback_addr P dest len) s'))))"

definition p4_flash_selftest :: "'d platform \<Rightarrow> buffers \<Rightarrow> 'd soc \<Rightarrow> bool \<times> 'd soc" where
  "p4_flash_selftest P B s =
     (let off = 0x20000; len = 0x10000 in
      case p4_flash_crc32 P B off len s of
        (None, s') \<Rightarrow> (False, s')
      | (Some a, s') \<Rightarrow>
          (case p4_flash_crc32 P B off len s' of
             (None, s'') \<Rightarrow> (False, s'')
           | (Some b, s'') \<Rightarrow> (a = b, s'')))"

end
