(* ===== verification/Flashmap.thy ===== *)
theory Flashmap
  imports P4Flash Cstring
begin

text \<open>
  The tool that lays out the flash the bootloader reads (\<open>bootloader/flashmap.py\<close>), and the
  recipes of \<open>bootloader/Makefile\<close> that write it. The input is the list of rows that
  \<open>csv.reader\<close> makes of the layout file; \<open>sys.exit\<close> and uncaught exceptions are error values.
  \<open>hashlib.md5\<close>, \<open>zlib.crc32\<close> and \<open>espflash\<close> are parameters.
\<close>

subsection \<open>Python's strings and integers\<close>

text \<open>White space, as \<open>str.strip\<close> and \<open>int\<close> skip it, among the first 256 code points.\<close>

definition py_space :: "char \<Rightarrow> bool" where
  "py_space c = (let n = of_char c :: nat in 9 \<le> n \<and> n \<le> 13 \<or> 28 \<le> n \<and> n \<le> 32 \<or> n = 133 \<or> n = 160)"

definition strip :: "string \<Rightarrow> string" where
  "strip s = rev (dropWhile py_space (rev (dropWhile py_space s)))"

text \<open>UTF-8, the default of \<open>str.encode\<close>, for these code points.\<close>

definition encode_char :: "char \<Rightarrow> u8 list" where
  "encode_char c =
     (let n = of_char c :: nat
      in if n < 128 then [of_nat n] else [of_nat (192 + n div 64), of_nat (128 + n mod 64)])"

definition encode :: "string \<Rightarrow> u8 list" where
  "encode s = concat (map encode_char s)"

definition py_digit :: "nat \<Rightarrow> char \<Rightarrow> nat option" where
  "py_digit b c = (case hex_digit c of None \<Rightarrow> None | Some d \<Rightarrow> if d < b then Some d else None)"

text \<open>Digits of a base, single underscores between them allowed.\<close>

fun py_digits :: "nat \<Rightarrow> nat \<Rightarrow> string \<Rightarrow> nat option" where
  "py_digits b acc [] = Some acc"
| "py_digits b acc [c] = (case py_digit b c of None \<Rightarrow> None | Some v \<Rightarrow> Some (acc * b + v))"
| "py_digits b acc (c # d # cs) =
     (if c = CHR ''_'' then (case py_digit b d of None \<Rightarrow> None | Some v \<Rightarrow> py_digits b (acc * b + v) cs)
      else (case py_digit b c of None \<Rightarrow> None | Some v \<Rightarrow> py_digits b (acc * b + v) (d # cs)))"

definition py_nat :: "nat \<Rightarrow> string \<Rightarrow> nat option" where
  "py_nat b s = (if s = [] \<or> hd s = CHR ''_'' then None else py_digits b 0 s)"

text \<open>\<open>int(s, 0)\<close>: the prefix gives the base, and a decimal number has no leading zeros.\<close>

definition base_prefix :: "string \<Rightarrow> nat option" where
  "base_prefix s =
     (if take 1 s = ''0'' \<and> 1 < length s then
        (if s ! 1 \<in> {CHR ''x'', CHR ''X''} then Some 16
         else if s ! 1 \<in> {CHR ''o'', CHR ''O''} then Some 8
         else if s ! 1 \<in> {CHR ''b'', CHR ''B''} then Some 2
         else None)
      else None)"

definition py_int0 :: "string \<Rightarrow> int option" where
  "py_int0 s =
     (let (sg, t) = split_sign (strip s)
      in case base_prefix t of
           Some b \<Rightarrow>
             map_option (\<lambda>n. sg * int n) (py_nat b (if take 1 (drop 2 t) = ''_'' then drop 3 t else drop 2 t))
         | None \<Rightarrow>
             (case py_nat 10 t of
                None \<Rightarrow> None
              | Some n \<Rightarrow> if take 1 t = ''0'' \<and> n \<noteq> 0 then None else Some (sg * int n)))"

subsection \<open>The layout file\<close>

record csv_part =
  p_name :: string
  p_type :: int
  p_sub :: int
  p_off :: int
  p_size :: int

datatype layout_error = Field_count nat | Bad_number nat
  | Overlaps_table string | Offset_unaligned string | Size_unaligned string | Overlap string string
  | Label_too_long string | Struct_error string
  | No_partition string | Payload_too_large string | Empty_partition string

definition type_code :: "string \<Rightarrow> int option" where
  "type_code s = (if s = ''app'' then Some 0 else if s = ''data'' then Some 1 else py_int0 s)"

definition trim_row :: "string list \<Rightarrow> string list" where
  "trim_row row = rev (dropWhile (\<lambda>c. c = []) (rev (map strip row)))"

definition parse_row :: "nat \<Rightarrow> string list \<Rightarrow> layout_error + csv_part" where
  "parse_row lineno row =
     (case row of
        [name, ptyp, psub, off, sz] \<Rightarrow>
          (case (type_code ptyp, py_int0 psub, py_int0 off, py_int0 sz) of
             (Some t, Some u, Some a, Some n) \<Rightarrow>
               Inr \<lparr>p_name = name, p_type = t, p_sub = u, p_off = a, p_size = n\<rparr>
           | _ \<Rightarrow> Inl (Bad_number lineno))
      | _ \<Rightarrow> Inl (Field_count lineno))"

fun parse_from :: "nat \<Rightarrow> string list list \<Rightarrow> layout_error + csv_part list" where
  "parse_from lineno [] = Inr []"
| "parse_from lineno (r # rows) =
     (let row = trim_row r
      in if row = [] \<or> take 1 (hd row) = ''#'' then parse_from (lineno + 1) rows
         else (case parse_row lineno row of
             Inl e \<Rightarrow> Inl e
           | Inr p \<Rightarrow> map_sum id (\<lambda>ps. p # ps) (parse_from (lineno + 1) rows)))"

definition parse_layout :: "string list list \<Rightarrow> layout_error + csv_part list" where
  "parse_layout rows = parse_from 1 rows"

definition check_part :: "csv_part \<Rightarrow> layout_error option" where
  "check_part p =
     (if p_off p < 0x9000 then Some (Overlaps_table (p_name p))
      else if p_off p mod 0x1000 \<noteq> 0 then Some (Offset_unaligned (p_name p))
      else if p_size p mod 0x1000 \<noteq> 0 then Some (Size_unaligned (p_name p))
      else None)"

fun check_parts :: "csv_part list \<Rightarrow> layout_error option" where
  "check_parts [] = None"
| "check_parts (p # ps) = (case check_part p of Some e \<Rightarrow> Some e | None \<Rightarrow> check_parts ps)"

fun check_neighbours :: "csv_part list \<Rightarrow> layout_error option" where
  "check_neighbours (a # b # ps) =
     (if p_off a + p_size a > p_off b then Some (Overlap (p_name a) (p_name b)) else check_neighbours (b # ps))"
| "check_neighbours ps = None"

definition check_layout :: "csv_part list \<Rightarrow> layout_error option" where
  "check_layout ps =
     (case check_parts ps of Some e \<Rightarrow> Some e | None \<Rightarrow> check_neighbours (sort_key p_off ps))"

subsection \<open>The binary table\<close>

definition le32 :: "u32 \<Rightarrow> u8 list" where
  "le32 v = [ucast v, ucast (drop_bit 8 v), ucast (drop_bit 16 v), ucast (drop_bit 24 v)]"

text \<open>The fields \<open>B\<close> and \<open>L\<close> of \<open>struct.pack\<close>, which refuses what does not fit.\<close>

definition pack_B :: "int \<Rightarrow> u8 list option" where
  "pack_B x = (if 0 \<le> x \<and> x < 2 ^ 8 then Some [word_of_int x] else None)"

definition pack_L :: "int \<Rightarrow> u8 list option" where
  "pack_L x = (if 0 \<le> x \<and> x < 2 ^ 32 then Some (le32 (word_of_int x)) else None)"

definition pack_entry :: "csv_part \<Rightarrow> layout_error + u8 list" where
  "pack_entry p =
     (let label = encode (p_name p)
      in if length label > 16 then Inl (Label_too_long (p_name p))
         else (case (pack_B (p_type p), pack_B (p_sub p), pack_L (p_off p), pack_L (p_size p)) of
             (Some t, Some u, Some a, Some n) \<Rightarrow>
               Inr ([0xAA, 0x50] @ t @ u @ a @ n @ label @ replicate (16 - length label) 0 @ le32 0)
           | _ \<Rightarrow> Inl (Struct_error (p_name p))))"

fun pack_entries :: "csv_part list \<Rightarrow> layout_error + u8 list" where
  "pack_entries [] = Inr []"
| "pack_entries (p # ps) =
     (case pack_entry p of Inl e \<Rightarrow> Inl e | Inr bs \<Rightarrow> map_sum id (\<lambda>rest. bs @ rest) (pack_entries ps))"

definition md5_entry :: "(u8 list \<Rightarrow> u8 list) \<Rightarrow> u8 list \<Rightarrow> u8 list" where
  "md5_entry md5 blob = [0xEB, 0xEB] @ replicate 14 0xFF @ md5 blob"

definition cmd_binary :: "(u8 list \<Rightarrow> u8 list) \<Rightarrow> string list list \<Rightarrow> layout_error + u8 list" where
  "cmd_binary md5 rows =
     (case parse_layout rows of
        Inl e \<Rightarrow> Inl e
      | Inr ps \<Rightarrow>
          (case check_layout ps of
             Some e \<Rightarrow> Inl e
           | None \<Rightarrow> map_sum id (\<lambda>blob. blob @ md5_entry md5 blob) (pack_entries ps)))"

subsection \<open>Regions and checksums\<close>

text \<open>\<open>{p[0]: p for p in parse(...)}\<close>: the last line of a name counts.\<close>

definition part_named :: "csv_part list \<Rightarrow> string \<Rightarrow> csv_part option" where
  "part_named ps name = find (\<lambda>p. p_name p = name) (rev ps)"

definition cmd_region :: "string list list \<Rightarrow> string \<Rightarrow> layout_error + int \<times> int" where
  "cmd_region rows name =
     (case parse_layout rows of
        Inl e \<Rightarrow> Inl e
      | Inr ps \<Rightarrow>
          (case part_named ps name of
             None \<Rightarrow> Inl (No_partition name)
           | Some p \<Rightarrow> Inr (p_off p, p_size p)))"

text \<open>The loop over the padding; the chunk is empty only when there is nothing to pad.\<close>

function crc_pad :: "(u32 \<Rightarrow> u8 list \<Rightarrow> u32) \<Rightarrow> u8 list \<Rightarrow> nat \<Rightarrow> u32 \<Rightarrow> u32" where
  "crc_pad crc chunk pad c =
     (if pad = 0 \<or> chunk = [] then c
      else (let n = min pad (length chunk) in crc_pad crc chunk (pad - n) (crc c (take n chunk))))"
  by auto

termination by (relation "measure (\<lambda>(crc, chunk, pad, c). pad)") auto

declare crc_pad.simps [simp del]

text \<open>The percentage that is printed along divides by the size.\<close>

definition cmd_crc :: "(u32 \<Rightarrow> u8 list \<Rightarrow> u32) \<Rightarrow> string list list \<Rightarrow> string \<Rightarrow> u8 list \<Rightarrow> layout_error + u32" where
  "cmd_crc crc rows name payload =
     (case parse_layout rows of
        Inl e \<Rightarrow> Inl e
      | Inr ps \<Rightarrow>
          (case part_named ps name of
             None \<Rightarrow> Inl (No_partition name)
           | Some p \<Rightarrow>
               if int (length payload) > p_size p then Inl (Payload_too_large name)
               else if p_size p = 0 then Inl (Empty_partition name)
               else (let pad = nat (p_size p) - length payload
                     in Inr (crc_pad crc (replicate (min pad 65536) 0xFF) pad (crc 0 payload)))))"

subsection \<open>Writing the flash\<close>

record espflash =
  erase_region :: "u32 \<Rightarrow> u32 \<Rightarrow> mem \<Rightarrow> mem"
  write_bin :: "u32 \<Rightarrow> u8 list \<Rightarrow> mem \<Rightarrow> mem"

definition flash_parts :: "espflash \<Rightarrow> u8 list \<Rightarrow> mem \<Rightarrow> mem" where
  "flash_parts T table F = write_bin T 0x8000 table (erase_region T 0x8000 0x1000 F)"

definition flash_payload :: "espflash \<Rightarrow> int \<times> int \<Rightarrow> u8 list \<Rightarrow> mem \<Rightarrow> mem" where
  "flash_payload T region payload F =
     (case region of (off, n) \<Rightarrow>
        write_bin T (word_of_int off) payload (erase_region T (word_of_int off) (word_of_int n) F))"

text \<open>\<open>make flash-all\<close>: the bootloader image, the table, the kernel, the device tree.\<close>

definition flash_all :: "espflash \<Rightarrow> (u8 list \<Rightarrow> u8 list) \<Rightarrow> string list list \<Rightarrow> u8 list \<Rightarrow> u8 list \<Rightarrow> u8 list \<Rightarrow>
    mem \<Rightarrow> layout_error + mem" where
  "flash_all T md5 rows boot kern dtb F =
     (case cmd_binary md5 rows of
        Inl e \<Rightarrow> Inl e
      | Inr table \<Rightarrow>
          (case cmd_region rows ''kernel'' of
             Inl e \<Rightarrow> Inl e
           | Inr k \<Rightarrow>
               (case cmd_region rows ''dtb'' of
                  Inl e \<Rightarrow> Inl e
                | Inr d \<Rightarrow>
                    Inr (flash_payload T d dtb (flash_payload T k kern
                      (flash_parts T table (write_bin T 0x2000 boot F)))))))"

end
