(* ===== verification/P4Wdt.thy ===== *)
theory P4Wdt
  imports P4Bus
begin

text \<open>
  \<open>bootloader/p4/p4_wdt.c\<close>: the sequence that keeps the three watchdogs quiet, and that it
  does so on hardware whose configuration registers are write-protected.
\<close>

definition LP_WDT_BASE :: u32 where [const_defs]: "LP_WDT_BASE = 0x50116000"
definition LP_WDT_CONFIG0_REG :: u32 where [const_defs]: "LP_WDT_CONFIG0_REG = LP_WDT_BASE + 0x00"
definition LP_WDT_WPROTECT_REG :: u32 where [const_defs]: "LP_WDT_WPROTECT_REG = LP_WDT_BASE + 0x18"
definition LP_WDT_SWD_CONFIG_REG :: u32 where [const_defs]: "LP_WDT_SWD_CONFIG_REG = LP_WDT_BASE + 0x1c"
definition LP_WDT_SWD_WPROTECT_REG :: u32 where
  [const_defs]: "LP_WDT_SWD_WPROTECT_REG = LP_WDT_BASE + 0x20"

definition LP_WDT_WDT_EN :: u32 where "LP_WDT_WDT_EN = BIT 31"
definition LP_WDT_WDT_FLASHBOOT_MOD_EN :: u32 where "LP_WDT_WDT_FLASHBOOT_MOD_EN = BIT 12"
definition LP_WDT_SWD_AUTO_FEED_EN :: u32 where "LP_WDT_SWD_AUTO_FEED_EN = BIT 18"

definition WDT_WKEY_VALUE :: u32 where [const_defs]: "WDT_WKEY_VALUE = 0x50D83AA1"

definition TIMG0_BASE :: u32 where [const_defs]: "TIMG0_BASE = 0x500C2000"
definition TIMG_WDTCONFIG0_REG :: u32 where [const_defs]: "TIMG_WDTCONFIG0_REG = TIMG0_BASE + 0x48"
definition TIMG_WDTWPROTECT_REG :: u32 where [const_defs]: "TIMG_WDTWPROTECT_REG = TIMG0_BASE + 0x64"

definition TIMG_WDT_EN :: u32 where "TIMG_WDT_EN = BIT 31"
definition TIMG_WDT_FLASHBOOT_MOD_EN :: u32 where "TIMG_WDT_FLASHBOOT_MOD_EN = BIT 14"

lemmas wdt_bits = LP_WDT_WDT_EN_def LP_WDT_WDT_FLASHBOOT_MOD_EN_def LP_WDT_SWD_AUTO_FEED_EN_def
  TIMG_WDT_EN_def TIMG_WDT_FLASHBOOT_MOD_EN_def

definition wdt_ops :: "reg_op list" where
  "wdt_ops =
    [Op_store LP_WDT_SWD_WPROTECT_REG WDT_WKEY_VALUE,
     Op_setbits LP_WDT_SWD_CONFIG_REG LP_WDT_SWD_AUTO_FEED_EN,
     Op_store LP_WDT_SWD_WPROTECT_REG 0,
     Op_store LP_WDT_WPROTECT_REG WDT_WKEY_VALUE,
     Op_clrsetbits LP_WDT_CONFIG0_REG LP_WDT_WDT_FLASHBOOT_MOD_EN 0,
     Op_clrsetbits LP_WDT_CONFIG0_REG LP_WDT_WDT_EN 0,
     Op_store LP_WDT_WPROTECT_REG 0,
     Op_store TIMG_WDTWPROTECT_REG WDT_WKEY_VALUE,
     Op_clrsetbits TIMG_WDTCONFIG0_REG TIMG_WDT_FLASHBOOT_MOD_EN 0,
     Op_clrsetbits TIMG_WDTCONFIG0_REG TIMG_WDT_EN 0,
     Op_store TIMG_WDTWPROTECT_REG 0]"

definition p4_wdt_disable_all :: "('d, 'm) bus_scheme \<Rightarrow> 'd soc \<Rightarrow> 'd soc" where
  "p4_wdt_disable_all P s = run_ops P wdt_ops s"

text \<open>The hardware's protection: each configuration register has its own key register.\<close>

definition wdt_locks :: locks where
  "wdt_locks a =
     (if a = LP_WDT_SWD_CONFIG_REG then Some (LP_WDT_SWD_WPROTECT_REG, WDT_WKEY_VALUE)
      else if a = LP_WDT_CONFIG0_REG then Some (LP_WDT_WPROTECT_REG, WDT_WKEY_VALUE)
      else if a = TIMG_WDTCONFIG0_REG then Some (TIMG_WDTWPROTECT_REG, WDT_WKEY_VALUE)
      else None)"

definition wdt_regs :: "u32 set" where
  "wdt_regs = {LP_WDT_SWD_WPROTECT_REG, LP_WDT_SWD_CONFIG_REG, LP_WDT_WPROTECT_REG,
     LP_WDT_CONFIG0_REG, TIMG_WDTWPROTECT_REG, TIMG_WDTCONFIG0_REG}"

lemma wdt_within: "within wdt_ops wdt_regs"
  by (simp add: wdt_ops_def wdt_regs_def bus_simps)

lemma wdt_eval:
  "eval_ops wdt_locks wdt_ops r =
     r(LP_WDT_SWD_WPROTECT_REG := 0, LP_WDT_WPROTECT_REG := 0, TIMG_WDTWPROTECT_REG := 0,
       LP_WDT_SWD_CONFIG_REG := r LP_WDT_SWD_CONFIG_REG OR LP_WDT_SWD_AUTO_FEED_EN,
       LP_WDT_CONFIG0_REG := (r LP_WDT_CONFIG0_REG AND NOT LP_WDT_WDT_FLASHBOOT_MOD_EN) AND NOT LP_WDT_WDT_EN,
       TIMG_WDTCONFIG0_REG := (r TIMG_WDTCONFIG0_REG AND NOT TIMG_WDT_FLASHBOOT_MOD_EN) AND NOT TIMG_WDT_EN)"
  by (rule ext) (simp add: wdt_ops_def bus_simps put_def unlocked_def wdt_locks_def const_defs)

text \<open>
  C20: after \<open>p4_wdt_disable_all\<close> no watchdog can fire, on hardware that honours the write
  protection: the super-watchdog feeds itself, the RTC and TIMG0 watchdogs are disabled and out
  of flash-boot mode; every other configuration bit is as it was, and all three register blocks
  are locked again.
\<close>

theorem wdt_silenced:
  fixes s :: "'d soc"
  assumes "registers P pk wdt_locks wdt_regs"
  defines "r \<equiv> pk (dev s)" and "r' \<equiv> pk (dev (p4_wdt_disable_all P s))"
  shows "(\<forall>i. bit (r' LP_WDT_SWD_CONFIG_REG) i = (bit (r LP_WDT_SWD_CONFIG_REG) i \<or> i = 18)) \<and>
    (\<forall>i. bit (r' LP_WDT_CONFIG0_REG) i = (bit (r LP_WDT_CONFIG0_REG) i \<and> i \<noteq> 12 \<and> i \<noteq> 31)) \<and>
    (\<forall>i. bit (r' TIMG_WDTCONFIG0_REG) i = (bit (r TIMG_WDTCONFIG0_REG) i \<and> i \<noteq> 14 \<and> i \<noteq> 31)) \<and>
    r' LP_WDT_SWD_WPROTECT_REG = 0 \<and> r' LP_WDT_WPROTECT_REG = 0 \<and> r' TIMG_WDTWPROTECT_REG = 0"
proof -
  have "agree wdt_regs r' (eval_ops wdt_locks wdt_ops r)"
    unfolding r'_def p4_wdt_disable_all_def
    by (rule run_ops_eval [OF assms(1) wdt_within]) (simp add: agree_def r_def)
  then have r': "r' a = eval_ops wdt_locks wdt_ops r a" if "a \<in> wdt_regs" for a
    using that by (simp add: agree_def)
  have "r' LP_WDT_SWD_CONFIG_REG = r LP_WDT_SWD_CONFIG_REG OR LP_WDT_SWD_AUTO_FEED_EN"
    "r' LP_WDT_CONFIG0_REG =
       (r LP_WDT_CONFIG0_REG AND NOT LP_WDT_WDT_FLASHBOOT_MOD_EN) AND NOT LP_WDT_WDT_EN"
    "r' TIMG_WDTCONFIG0_REG =
       (r TIMG_WDTCONFIG0_REG AND NOT TIMG_WDT_FLASHBOOT_MOD_EN) AND NOT TIMG_WDT_EN"
    "r' LP_WDT_SWD_WPROTECT_REG = 0" "r' LP_WDT_WPROTECT_REG = 0" "r' TIMG_WDTWPROTECT_REG = 0"
    by (simp_all add: r' wdt_regs_def wdt_eval const_defs)
  then show ?thesis
    by (auto simp: wdt_bits bus_simps bit_simps dest: bit_word_32)
qed

lemma wdt_file: "registers (file_bus wdt_locks) (\<lambda>d. d) wdt_locks wdt_regs"
  by (rule file_registers) (auto simp: wdt_locks_def wdt_regs_def)

lemma wdt_silenced_witness:
  "let r' = dev (p4_wdt_disable_all (file_bus wdt_locks) \<lparr>dev = (\<lambda>_. - 1), log = []\<rparr>)
   in (\<forall>i. bit (r' LP_WDT_CONFIG0_REG) i = (i < 32 \<and> i \<noteq> 12 \<and> i \<noteq> 31)) \<and> r' LP_WDT_WPROTECT_REG = 0"
  using wdt_silenced [OF wdt_file, of "\<lparr>dev = (\<lambda>_. - 1), log = []\<rparr>"]
  by (auto simp: Let_def)

end
