(* ===== verification/P4Sdmmc.thy ===== *)
theory P4Sdmmc
  imports P4Ldo
begin

text \<open>
  \<open>bootloader/p4/p4_sdmmc.c\<close>: power, clock and pads of the SD slot, and what each register
  holds afterwards. The clock and reset registers are shared with the Ethernet MAC and with the
  display, so the theorem also says that every other bit is kept.
\<close>

definition HP_SYS_CLKRST_BASE :: u32 where [const_defs]: "HP_SYS_CLKRST_BASE = 0x500E6000"
definition SOC_CLK_CTRL1_REG :: u32 where [const_defs]: "SOC_CLK_CTRL1_REG = HP_SYS_CLKRST_BASE + 0x18"
definition PERI_CLK_CTRL01_REG :: u32 where [const_defs]: "PERI_CLK_CTRL01_REG = HP_SYS_CLKRST_BASE + 0x34"
definition PERI_CLK_CTRL02_REG :: u32 where [const_defs]: "PERI_CLK_CTRL02_REG = HP_SYS_CLKRST_BASE + 0x38"
definition LP_CLKRST_BASE :: u32 where [const_defs]: "LP_CLKRST_BASE = 0x50111000"
definition HP_SDMMC_EMAC_RST_CTRL_REG :: u32 where
  [const_defs]: "HP_SDMMC_EMAC_RST_CTRL_REG = LP_CLKRST_BASE + 0x4c"
definition REG_IO_MUX_BASE :: u32 where [const_defs]: "REG_IO_MUX_BASE = 0x500E1000"

definition SDMMC_SYS_CLK_EN :: u32 where "SDMMC_SYS_CLK_EN = BIT 14"
definition RST_EN_SDMMC :: u32 where "RST_EN_SDMMC = BIT 28"
definition SDIO_HS_MODE :: u32 where "SDIO_HS_MODE = BIT 22"
definition SDIO_LS_CLK_SRC_SEL :: u32 where "SDIO_LS_CLK_SRC_SEL = BIT 23"
definition SDIO_LS_CLK_EN :: u32 where "SDIO_LS_CLK_EN = BIT 24"
definition SDIO_LS_CLK_EDGE_CFG_UPDATE :: u32 where "SDIO_LS_CLK_EDGE_CFG_UPDATE = BIT 8"

definition FUN_PD :: u32 where "FUN_PD = BIT 7"
definition FUN_PU :: u32 where "FUN_PU = BIT 8"
definition FUN_IE :: u32 where "FUN_IE = BIT 9"
definition FUN_DRV :: u32 where "FUN_DRV = FIELD 2 10"
definition MCU_SEL :: u32 where "MCU_SEL = FIELD 3 12"

lemmas pad_bits = FUN_PD_def FUN_PU_def FUN_IE_def FUN_DRV_def MCU_SEL_def

definition slot0_pins :: "u32 list" where
  [const_defs]: "slot0_pins = [39, 40, 41, 42, 43, 44]"

definition IO_MUX_PAD_REG :: "u32 \<Rightarrow> u32" where
  [const_defs]: "IO_MUX_PAD_REG n = REG_IO_MUX_BASE + 0x4 + 4 * n"

definition SDMMC_PAD_FUNC :: u32 where "SDMMC_PAD_FUNC = 0"

text \<open>The divider of 4 and the phases: edge L, H and N, then the self, drive and sample clocks.\<close>

definition sdio_edge_clr :: u32 where
  "sdio_edge_clr = FIELD 4 9 OR FIELD 4 13 OR FIELD 4 17 OR FIELD 2 21 OR FIELD 2 23 OR FIELD 2 25"

definition sdio_edge_set :: u32 where
  "sdio_edge_set = push_bit 9 3 OR push_bit 13 1 OR push_bit 17 3 OR push_bit 23 1 OR
     BIT 28 OR BIT 29 OR BIT 27"

definition sdmmc_pad :: "u32 \<Rightarrow> reg_op" where
  "sdmmc_pad n = Op_clrsetbits (IO_MUX_PAD_REG n) (FUN_PD OR MCU_SEL OR FUN_DRV)
     (FUN_PU OR FUN_IE OR push_bit 12 SDMMC_PAD_FUNC OR FUN_DRV)"

definition sdmmc_ops :: "reg_op list" where
  "sdmmc_ops =
    [Op_setbits SOC_CLK_CTRL1_REG SDMMC_SYS_CLK_EN,
     Op_setbits HP_SDMMC_EMAC_RST_CTRL_REG RST_EN_SDMMC,
     Op_clrsetbits HP_SDMMC_EMAC_RST_CTRL_REG RST_EN_SDMMC 0,
     Op_clrsetbits PERI_CLK_CTRL01_REG (SDIO_LS_CLK_SRC_SEL OR SDIO_HS_MODE) SDIO_LS_CLK_EN,
     Op_clrsetbits PERI_CLK_CTRL02_REG sdio_edge_clr sdio_edge_set,
     Op_setbits PERI_CLK_CTRL02_REG SDIO_LS_CLK_EDGE_CFG_UPDATE,
     Op_clrsetbits PERI_CLK_CTRL02_REG SDIO_LS_CLK_EDGE_CFG_UPDATE 0] @
    map sdmmc_pad slot0_pins @ [Op_delay 10]"

definition p4_sdmmc_init :: "('d, 'm) bus_scheme \<Rightarrow> ldo_fuses \<Rightarrow> 'd soc \<Rightarrow> bool \<times> 'd soc" where
  "p4_sdmmc_init P E s =
     (case p4_ldo_enable P E P4_LDO_CHAN_SDMMC P4_LDO_MV_SDMMC s of
        (False, s') \<Rightarrow> (False, s')
      | (True, s') \<Rightarrow> (True, run_ops P sdmmc_ops (ets_delay_us P 1000 s')))"

subsection \<open>The registers afterwards\<close>

definition sdmmc_regs :: "u32 set" where
  "sdmmc_regs = {SOC_CLK_CTRL1_REG, HP_SDMMC_EMAC_RST_CTRL_REG, PERI_CLK_CTRL01_REG, PERI_CLK_CTRL02_REG} \<union>
     IO_MUX_PAD_REG ` set slot0_pins"

lemma sdmmc_within: "within sdmmc_ops sdmmc_regs"
  by (auto simp: within_def sdmmc_ops_def sdmmc_regs_def sdmmc_pad_def)

text \<open>Pad registers are pairwise distinct, and distinct from the clock registers.\<close>

lemma sdmmc_eval:
  "eval_ops no_locks sdmmc_ops r SOC_CLK_CTRL1_REG = r SOC_CLK_CTRL1_REG OR SDMMC_SYS_CLK_EN"
  "eval_ops no_locks sdmmc_ops r HP_SDMMC_EMAC_RST_CTRL_REG =
     (r HP_SDMMC_EMAC_RST_CTRL_REG OR RST_EN_SDMMC) AND NOT RST_EN_SDMMC"
  "eval_ops no_locks sdmmc_ops r PERI_CLK_CTRL01_REG =
     (r PERI_CLK_CTRL01_REG AND NOT (SDIO_LS_CLK_SRC_SEL OR SDIO_HS_MODE)) OR SDIO_LS_CLK_EN"
  "eval_ops no_locks sdmmc_ops r PERI_CLK_CTRL02_REG =
     ((r PERI_CLK_CTRL02_REG AND NOT sdio_edge_clr) OR sdio_edge_set OR SDIO_LS_CLK_EDGE_CFG_UPDATE)
       AND NOT SDIO_LS_CLK_EDGE_CFG_UPDATE"
  "n \<in> set slot0_pins \<Longrightarrow> eval_ops no_locks sdmmc_ops r (IO_MUX_PAD_REG n) =
     (r (IO_MUX_PAD_REG n) AND NOT (FUN_PD OR MCU_SEL OR FUN_DRV)) OR
       (FUN_PU OR FUN_IE OR push_bit 12 SDMMC_PAD_FUNC OR FUN_DRV)"
      apply (simp add: sdmmc_ops_def sdmmc_pad_def bus_simps const_defs)
     apply (simp add: sdmmc_ops_def sdmmc_pad_def bus_simps const_defs)
    apply (simp add: sdmmc_ops_def sdmmc_pad_def bus_simps const_defs)
   apply (simp add: sdmmc_ops_def sdmmc_pad_def bus_simps const_defs or.assoc)
  apply (simp add: slot0_pins_def)
  apply (elim disjE; simp add: sdmmc_ops_def sdmmc_pad_def bus_simps const_defs)
  done

lemmas sdmmc_bits = SDMMC_SYS_CLK_EN_def RST_EN_SDMMC_def SDIO_HS_MODE_def SDIO_LS_CLK_SRC_SEL_def
  SDIO_LS_CLK_EN_def SDIO_LS_CLK_EDGE_CFG_UPDATE_def sdio_edge_clr_def sdio_edge_set_def
  SDMMC_PAD_FUNC_def pad_bits

text \<open>The four staged fields and the update strobe of \<open>PERI_CLK_CTRL02\<close>, bit by bit.\<close>

definition sdio_edges :: "nat \<Rightarrow> bool \<Rightarrow> bool" where
  "sdio_edges i old = (if i < 8 \<or> 30 \<le> i then old else i \<in> {9, 10, 13, 17, 18, 23, 27, 28, 29})"

lemma bits_clrsetbits:
  "bit ((x AND NOT clr) OR st) i \<longleftrightarrow> (bit x i \<and> \<not> bit clr i) \<or> bit st i" for x :: u32
  by (auto simp: bit_simps dest: bit_word_32)

lemma sdio_clr_bits: "i < 32 \<Longrightarrow> bit sdio_edge_clr i \<longleftrightarrow> 9 \<le> i \<and> i < 27"
  by (auto simp: sdio_edge_clr_def bit_or_iff bit_FIELD)

lemma sdio_set_bits: "i < 32 \<Longrightarrow> bit sdio_edge_set i \<longleftrightarrow> i \<in> {9, 10, 13, 17, 18, 23, 27, 28, 29}"
proof -
  have "\<forall>i \<in> set [0..<32]. bit sdio_edge_set i = (i \<in> {9, 10, 13, 17, 18, 23, 27, 28, 29})"
    by code_simp
  then show "i < 32 \<Longrightarrow> bit sdio_edge_set i \<longleftrightarrow> i \<in> {9, 10, 13, 17, 18, 23, 27, 28, 29}" by auto
qed

lemma sdio_edges_bit:
  "bit ((((x AND NOT sdio_edge_clr) OR sdio_edge_set OR SDIO_LS_CLK_EDGE_CFG_UPDATE)
     AND NOT SDIO_LS_CLK_EDGE_CFG_UPDATE)) i \<longleftrightarrow> i < 32 \<and> sdio_edges i (bit x i)"
proof (cases "i < 32")
  case True
  have "bit ((((x AND NOT sdio_edge_clr) OR sdio_edge_set OR SDIO_LS_CLK_EDGE_CFG_UPDATE)
     AND NOT SDIO_LS_CLK_EDGE_CFG_UPDATE)) i \<longleftrightarrow>
      ((bit x i \<and> \<not> bit sdio_edge_clr i) \<or> bit sdio_edge_set i) \<and> i \<noteq> 8"
    using True by (auto simp: bit_and_iff bit_or_iff bit_not_iff SDIO_LS_CLK_EDGE_CFG_UPDATE_def bit_BIT)
  also have "\<dots> \<longleftrightarrow> sdio_edges i (bit x i)"
    unfolding sdio_clr_bits [OF True] sdio_set_bits [OF True] sdio_edges_def by auto
  finally show ?thesis using True by simp
next
  case False
  then show ?thesis using bit_word_32 by blast
qed

text \<open>A pad of the slot: function 0, full drive, input on, pull-up, no pull-down.\<close>

lemma sdmmc_pad_bits:
  "bit ((x AND NOT (FUN_PD OR MCU_SEL OR FUN_DRV)) OR (FUN_PU OR FUN_IE OR push_bit 12 SDMMC_PAD_FUNC OR FUN_DRV)) i
     \<longleftrightarrow> i < 32 \<and> (if 7 \<le> i \<and> i < 15 then i \<in> {8, 9, 10, 11} else bit x i)"
proof (cases "i < 32")
  case True
  then show ?thesis
    by (auto simp: bit_and_iff bit_or_iff bit_not_iff pad_bits bit_BIT bit_FIELD SDMMC_PAD_FUNC_def)
next
  case False
  then show ?thesis using bit_word_32 by blast
qed

lemma sdmmc_shared_bits:
  "bit (x OR SDMMC_SYS_CLK_EN) i = (bit x i \<or> i = 14)"
  "bit ((x OR RST_EN_SDMMC) AND NOT RST_EN_SDMMC) i = (bit x i \<and> i \<noteq> 28)"
  "bit ((x AND NOT (SDIO_LS_CLK_SRC_SEL OR SDIO_HS_MODE)) OR SDIO_LS_CLK_EN) i =
     (if i \<in> {22, 23} then False else bit x i \<or> i = 24)"
  by (auto simp: sdmmc_bits bit_and_iff bit_or_iff bit_not_iff bit_BIT dest: bit_word_32)

lemma ldo_sdmmc: "ldo_ll_voltage_to_dref_mul E 3 3300 = (dref, mul, rail) \<Longrightarrow> rail"
  by (auto simp: ldo_ll_voltage_to_dref_mul_def LDO_LL_RAIL_VOLTAGE_MV_def split: prod.splits)

lemma sdmmc_outside: "a \<notin> sdmmc_regs \<Longrightarrow> eval_ops no_locks sdmmc_ops q a = q a"
  using sdmmc_within by (intro eval_ops_other) (auto simp: within_def)

text \<open>The regulator first; then \<open>sdmmc_ops\<close> on what it has left.\<close>

lemma sdmmc_values:
  assumes "registers P pk no_locks A" and "sdmmc_regs \<union> ldo_regs 3 \<subseteq> A"
    and "p4_sdmmc_init P E s = (ok, s')"
  defines "r \<equiv> pk (dev s)" and "r' \<equiv> pk (dev s')"
  shows "ok" and "get_field 1 8 (r' (pmu_ext_ldo 3)) = 1 \<and> get_field 1 14 (r' (pmu_ext_ldo 3)) = 1"
    and "\<And>a. a \<in> A - ldo_regs 3 \<Longrightarrow> \<exists>q. r' a = eval_ops no_locks sdmmc_ops q a \<and> q a = r a"
proof -
  obtain dref mul rail where codes: "ldo_ll_voltage_to_dref_mul E 3 3300 = (dref, mul, rail)"
    by (cases "ldo_ll_voltage_to_dref_mul E 3 3300")
  obtain ok1 s1 where ldo: "p4_ldo_enable P E (3 + 1) 3300 s = (ok1, s1)"
    by (cases "p4_ldo_enable P E (3 + 1) 3300 s")
  have A: "ldo_regs 3 \<subseteq> A" using assms(2) by simp
  note rail = ldo_enable_result [OF assms(1) A _ _ codes ldo, simplified]
  define s2 where "s2 = ets_delay_us P 1000 s1"
  have s': "ok" "s' = run_ops P sdmmc_ops s2"
    using assms(3) ldo rail
    by (simp_all add: p4_sdmmc_init_def P4_LDO_CHAN_SDMMC_def P4_LDO_MV_SDMMC_def s2_def)
  have s2: "agree A (pk (dev s2)) (pk (dev s1))"
    using assms(1) by (simp add: s2_def ets_delay_us_def registers_def)
  have "within sdmmc_ops A" using sdmmc_within assms(2) unfolding within_def by blast
  then have r': "agree A r' (eval_ops no_locks sdmmc_ops (pk (dev s1)))"
    unfolding r'_def s'(2) by (rule run_ops_eval [OF assms(1) _ s2])
  have "pmu_ext_ldo 3 \<notin> sdmmc_regs" "pmu_ext_ldo 3 \<in> A"
    using assms(2) by (auto simp: sdmmc_regs_def ldo_regs_def pmu_ext_ldo_def index_array_def const_defs)
  then have "r' (pmu_ext_ldo 3) = pk (dev s1) (pmu_ext_ldo 3)"
    using agreeD [OF r'] sdmmc_outside by simp
  then show "get_field 1 8 (r' (pmu_ext_ldo 3)) = 1 \<and> get_field 1 14 (r' (pmu_ext_ldo 3)) = 1"
    using rail ldo_sdmmc [OF codes] by (simp add: ldo_set_up_def)
  show "\<exists>q. r' a = eval_ops no_locks sdmmc_ops q a \<and> q a = r a" if "a \<in> A - ldo_regs 3" for a
    using agreeD [OF r', of a] rail that by (auto simp: r_def)
  show ok by (fact s'(1))
qed

text \<open>
  C38: on registers that keep what is written, the slot is left powered at the rail voltage,
  clocked and out of reset, with the divider of 4 committed and its six pads routed; no other bit
  of a shared register changes (the Ethernet reset, the Ethernet dividers and the display clock
  source among them), nor does any other register.
\<close>

theorem sdmmc_ready:
  assumes "registers P pk no_locks A" and "sdmmc_regs \<union> ldo_regs 3 \<subseteq> A"
    and "p4_sdmmc_init P E s = (ok, s')"
  defines "r \<equiv> pk (dev s)" and "r' \<equiv> pk (dev s')"
  shows "ok \<and> get_field 1 8 (r' (pmu_ext_ldo 3)) = 1 \<and> get_field 1 14 (r' (pmu_ext_ldo 3)) = 1 \<and>
    (\<forall>i. bit (r' SOC_CLK_CTRL1_REG) i = (bit (r SOC_CLK_CTRL1_REG) i \<or> i = 14)) \<and>
    (\<forall>i. bit (r' HP_SDMMC_EMAC_RST_CTRL_REG) i = (bit (r HP_SDMMC_EMAC_RST_CTRL_REG) i \<and> i \<noteq> 28)) \<and>
    (\<forall>i. bit (r' PERI_CLK_CTRL01_REG) i = (if i \<in> {22, 23} then False else bit (r PERI_CLK_CTRL01_REG) i \<or> i = 24)) \<and>
    (\<forall>i < 32. bit (r' PERI_CLK_CTRL02_REG) i = sdio_edges i (bit (r PERI_CLK_CTRL02_REG) i)) \<and>
    (\<forall>n \<in> set slot0_pins. \<forall>i < 32. bit (r' (IO_MUX_PAD_REG n)) i =
      (if 7 \<le> i \<and> i < 15 then i \<in> {8, 9, 10, 11} else bit (r (IO_MUX_PAD_REG n)) i)) \<and>
    (\<forall>a \<in> A - (sdmmc_regs \<union> ldo_regs 3). r' a = r a)"
proof -
  note run = sdmmc_values [OF assms(1-3), folded r_def r'_def]
  have regs: "SOC_CLK_CTRL1_REG \<in> sdmmc_regs" "HP_SDMMC_EMAC_RST_CTRL_REG \<in> sdmmc_regs"
      "PERI_CLK_CTRL01_REG \<in> sdmmc_regs" "PERI_CLK_CTRL02_REG \<in> sdmmc_regs"
      "\<And>n. n \<in> set slot0_pins \<Longrightarrow> IO_MUX_PAD_REG n \<in> sdmmc_regs"
    by (simp_all add: sdmmc_regs_def)
  have val: "\<exists>q. r' a = eval_ops no_locks sdmmc_ops q a \<and> q a = r a" if "a \<in> sdmmc_regs" for a
    using that assms(2)
    by (intro run(3)) (auto simp: sdmmc_regs_def ldo_regs_def pmu_ext_ldo_def pmu_ext_ldo_ana_def
        index_array_def const_defs)
  note shared = val [OF regs(1), unfolded sdmmc_eval] val [OF regs(2), unfolded sdmmc_eval]
    val [OF regs(3), unfolded sdmmc_eval] val [OF regs(4), unfolded sdmmc_eval]
  have pads: "\<forall>n \<in> set slot0_pins. \<forall>i < 32. bit (r' (IO_MUX_PAD_REG n)) i =
      (if 7 \<le> i \<and> i < 15 then i \<in> {8, 9, 10, 11} else bit (r (IO_MUX_PAD_REG n)) i)"
    using val [OF regs(5)] sdmmc_eval(5) sdmmc_pad_bits by metis
  have others: "\<forall>a \<in> A - (sdmmc_regs \<union> ldo_regs 3). r' a = r a"
    using run(3) sdmmc_outside by fastforce
  show ?thesis
    using run(1,2) others sdmmc_shared_bits shared pads by (auto simp: sdio_edges_bit)
qed

lemma sdmmc_ready_witness:
  "let s' = snd (p4_sdmmc_init (file_bus no_locks) plain_fuses \<lparr>dev = (\<lambda>_. - 1), log = []\<rparr>)
   in bit (dev s' HP_SDMMC_EMAC_RST_CTRL_REG) 30 \<and> \<not> bit (dev s' HP_SDMMC_EMAC_RST_CTRL_REG) 28 \<and>
     dev s' 0x500E6014 = - 1"
proof -
  have "registers (file_bus no_locks) (\<lambda>d. d) no_locks UNIV"
    by (rule file_registers) (simp add: no_locks_def)
  moreover have "0x500E6014 \<notin> sdmmc_regs \<union> ldo_regs 3"
    by (auto simp: sdmmc_regs_def ldo_regs_def pmu_ext_ldo_def pmu_ext_ldo_ana_def index_array_def const_defs)
  ultimately show ?thesis
    using sdmmc_ready [of "file_bus no_locks" "\<lambda>d. d" UNIV plain_fuses
        "\<lparr>dev = (\<lambda>_. - 1), log = []\<rparr>"]
    by (simp add: Let_def prod_eq_iff)
qed

end
