(* ===== verification/P4Emac.thy ===== *)
theory P4Emac
  imports P4Platform P4Sdmmc
begin

text \<open>
  \<open>bootloader/p4/p4_emac.c\<close>: clock, reset, pads and station address of the Ethernet MAC, the
  MDIO scan and the probe of the reference clock. Console messages are not modelled; the scan
  and the probe return what they would report.
\<close>

definition PERI_CLK_CTRL00_REG :: u32 where [const_defs]: "PERI_CLK_CTRL00_REG = HP_SYS_CLKRST_BASE + 0x30"
definition HP_CLK_CTRL_REG :: u32 where [const_defs]: "HP_CLK_CTRL_REG = LP_CLKRST_BASE + 0x40"
definition GMAC_CTRL0_REG :: u32 where [const_defs]: "GMAC_CTRL0_REG = 0x500E5000 + 0x14c"
definition GPIO_BASE :: u32 where [const_defs]: "GPIO_BASE = 0x500E0000"
definition GPIO_OUT1_W1TS_REG :: u32 where [const_defs]: "GPIO_OUT1_W1TS_REG = GPIO_BASE + 0x14"
definition GPIO_OUT1_W1TC_REG :: u32 where [const_defs]: "GPIO_OUT1_W1TC_REG = GPIO_BASE + 0x18"
definition GPIO_ENABLE1_W1TS_REG :: u32 where [const_defs]: "GPIO_ENABLE1_W1TS_REG = GPIO_BASE + 0x30"
definition GPIO_IN1_REG :: u32 where [const_defs]: "GPIO_IN1_REG = GPIO_BASE + 0x40"
definition EMAC_BASE :: u32 where [const_defs]: "EMAC_BASE = 0x50098000"
definition EMAC_GMIIADDRESS_REG :: u32 where [const_defs]: "EMAC_GMIIADDRESS_REG = EMAC_BASE + 0x10"
definition EMAC_GMIIDATA_REG :: u32 where [const_defs]: "EMAC_GMIIDATA_REG = EMAC_BASE + 0x14"
definition EMAC_MACADDRESS0HIGH_REG :: u32 where [const_defs]: "EMAC_MACADDRESS0HIGH_REG = EMAC_BASE + 0x40"
definition EMAC_MACADDRESS0LOW_REG :: u32 where [const_defs]: "EMAC_MACADDRESS0LOW_REG = EMAC_BASE + 0x44"
definition EFUSE_RD_MAC_SYS_0_REG :: u32 where [const_defs]: "EFUSE_RD_MAC_SYS_0_REG = 0x5012D000 + 0x44"
definition EFUSE_RD_MAC_SYS_1_REG :: u32 where [const_defs]: "EFUSE_RD_MAC_SYS_1_REG = 0x5012D000 + 0x48"

definition rmii_pads :: "u32 list" where [const_defs]: "rmii_pads = [50, 49, 34, 35, 28, 29, 30]"
definition EMAC_PAD_FUNC :: u32 where [const_defs]: "EMAC_PAD_FUNC = 3"
definition EMAC_MDC_GPIO :: u32 where [const_defs]: "EMAC_MDC_GPIO = 31"
definition EMAC_MDIO_GPIO :: u32 where [const_defs]: "EMAC_MDIO_GPIO = 52"
definition EMAC_PHY_RST_GPIO :: u32 where [const_defs]: "EMAC_PHY_RST_GPIO = 51"
definition MII_MDI_IN_IDX :: u32 where "MII_MDI_IN_IDX = 107"
definition MII_MDC_OUT_IDX :: u32 where "MII_MDC_OUT_IDX = 108"
definition MII_MDO_OUT_IDX :: u32 where "MII_MDO_OUT_IDX = 109"
definition PHY_RST_BIT :: u32 where "PHY_RST_BIT = BIT 19"
definition PAD_FUNC_GPIO :: u32 where [const_defs]: "PAD_FUNC_GPIO = 1"

subsection \<open>Bring-up\<close>

definition pad_route :: "u32 \<Rightarrow> u32 \<Rightarrow> bool \<Rightarrow> reg_op" where
  "pad_route gpio func input = Op_clrsetbits (REG_IO_MUX_BASE + 0x4 + 4 * gpio)
     (FUN_PD OR MCU_SEL OR FUN_DRV)
     ((if input then FUN_IE else 0) OR push_bit 12 func OR FUN_DRV)"

text \<open>Steps 1 to 3: bus clock and reset pulse, RMII, the clock tree in input mode.\<close>

definition emac_clock_ops :: "reg_op list" where
  "emac_clock_ops =
    [Op_setbits SOC_CLK_CTRL1_REG (BIT 13),
     Op_setbits HP_SDMMC_EMAC_RST_CTRL_REG (BIT 30),
     Op_clrsetbits HP_SDMMC_EMAC_RST_CTRL_REG (BIT 30) 0,
     Op_clrsetbits GMAC_CTRL0_REG (FIELD 3 2) (push_bit 2 4),
     Op_clrsetbits PERI_CLK_CTRL00_REG (BIT 24 OR FIELD 2 25 OR BIT 28) (BIT 27 OR BIT 29),
     Op_clrsetbits PERI_CLK_CTRL01_REG (FIELD 8 0 OR FIELD 8 10 OR BIT 8)
       (push_bit 0 1 OR push_bit 10 1 OR BIT 9),
     Op_clrsetbits HP_CLK_CTRL_REG (BIT 13 OR BIT 14) (BIT 15)]"

text \<open>Step 6: the PHY held in reset for 100 us, then given 10 ms.\<close>

definition phy_reset_ops :: "reg_op list" where
  "phy_reset_ops =
    [pad_route EMAC_PHY_RST_GPIO PAD_FUNC_GPIO False,
     Op_setbits GPIO_ENABLE1_W1TS_REG PHY_RST_BIT,
     Op_setbits GPIO_OUT1_W1TC_REG PHY_RST_BIT,
     Op_delay 100,
     Op_setbits GPIO_OUT1_W1TS_REG PHY_RST_BIT,
     Op_delay 10000]"

text \<open>Step 7: the eFuse address, most significant byte first, into the MAC, first byte lowest.\<close>

definition mac_bytes :: "u32 \<Rightarrow> u32 \<Rightarrow> u8 list" where
  "mac_bytes w0 w1 = [ucast (drop_bit 8 w1), ucast w1, ucast (drop_bit 24 w0), ucast (drop_bit 16 w0),
     ucast (drop_bit 8 w0), ucast w0]"

definition station_address :: "'d platform \<Rightarrow> 'd soc \<Rightarrow> 'd soc" where
  "station_address P s =
     (let (w0, s) = reg_read P EFUSE_RD_MAC_SYS_0_REG s;
          (w1, s) = reg_read P EFUSE_RD_MAC_SYS_1_REG s;
          w1 = w1 AND 0xFFFF
      in if w0 \<noteq> 0 \<or> w1 \<noteq> 0
         then (let mac = mac_bytes w0 w1;
                   s = reg_write P EMAC_MACADDRESS0LOW_REG
                     (push_bit 24 (ucast (mac ! 3)) OR push_bit 16 (ucast (mac ! 2)) OR
                       push_bit 8 (ucast (mac ! 1)) OR ucast (mac ! 0)) s
               in reg_write P EMAC_MACADDRESS0HIGH_REG
                    (push_bit 8 (ucast (mac ! 5)) OR ucast (mac ! 4)) s)
         else s)"

definition gpio_out :: "'d platform \<Rightarrow> u32 \<Rightarrow> u32 \<Rightarrow> 'd soc \<Rightarrow> 'd soc" where
  "gpio_out P gpio sig s = act (Ev_gpio_out gpio sig) (gpio_connect_out P gpio sig False False) s"

definition gpio_in :: "'d platform \<Rightarrow> u32 \<Rightarrow> u32 \<Rightarrow> 'd soc \<Rightarrow> 'd soc" where
  "gpio_in P gpio sig s = act (Ev_gpio_in gpio sig) (gpio_connect_in P gpio sig False) s"

definition p4_emac_init :: "'d platform \<Rightarrow> 'd soc \<Rightarrow> bool \<times> 'd soc" where
  "p4_emac_init P s =
     (let s = run_ops P emac_clock_ops s;
          s = run_ops P (map (\<lambda>n. pad_route n EMAC_PAD_FUNC True) rmii_pads) s;
          s = run_ops P [pad_route EMAC_MDC_GPIO PAD_FUNC_GPIO False] s;
          s = gpio_out P EMAC_MDC_GPIO MII_MDC_OUT_IDX s;
          s = run_ops P [pad_route EMAC_MDIO_GPIO PAD_FUNC_GPIO True] s;
          s = gpio_out P EMAC_MDIO_GPIO MII_MDO_OUT_IDX s;
          s = gpio_in P EMAC_MDIO_GPIO MII_MDI_IN_IDX s;
          s = run_ops P phy_reset_ops s
      in (True, station_address P s))"

subsection \<open>MDIO\<close>

definition EMAC_GB :: u32 where "EMAC_GB = BIT 0"
definition MII_BMSR :: u32 where [const_defs]: "MII_BMSR = 1"
definition MII_PHYSID1 :: u32 where [const_defs]: "MII_PHYSID1 = 2"
definition MII_PHYSID2 :: u32 where [const_defs]: "MII_PHYSID2 = 3"
definition MDIO_POLLS :: nat where "MDIO_POLLS = 200000"

fun mdio_idle :: "('d, 'm) bus_scheme \<Rightarrow> nat \<Rightarrow> 'd soc \<Rightarrow> bool \<times> 'd soc" where
  "mdio_idle P 0 s = (False, s)"
| "mdio_idle P (Suc n) s =
     (case reg_read P EMAC_GMIIADDRESS_REG s of
        (v, s') \<Rightarrow> if v AND EMAC_GB = 0 then (True, s') else mdio_idle P n s')"

definition mdio_frame :: "u32 \<Rightarrow> u32 \<Rightarrow> u32 \<Rightarrow> u32" where
  "mdio_frame phy reg cr =
     push_bit 11 (phy AND 0x1F) OR push_bit 6 (reg AND 0x1F) OR push_bit 2 (cr AND 0xF) OR EMAC_GB"

definition mdio_read :: "('d, 'm) bus_scheme \<Rightarrow> u32 \<Rightarrow> u32 \<Rightarrow> u32 \<Rightarrow> 'd soc \<Rightarrow> u16 option \<times> 'd soc" where
  "mdio_read P phy reg cr s =
     (case mdio_idle P MDIO_POLLS s of
        (False, s) \<Rightarrow> (None, s)
      | (True, s) \<Rightarrow>
          let s = reg_write P EMAC_GMIIADDRESS_REG (mdio_frame phy reg cr) s in
          (case mdio_idle P MDIO_POLLS s of
             (False, s) \<Rightarrow> (None, s)
           | (True, s) \<Rightarrow>
               (case reg_read P EMAC_GMIIDATA_REG s of (v, s) \<Rightarrow> (Some (ucast (v AND 0xFFFF)), s))))"

record phy_report =
  phy_addr :: u32
  phy_id1 :: u16
  phy_id2 :: u16
  phy_bmsr :: u16
  phy_cr :: u32

fun scan_phys :: "('d, 'm) bus_scheme \<Rightarrow> u32 \<Rightarrow> nat list \<Rightarrow> 'd soc \<Rightarrow> phy_report list \<times> 'd soc" where
  "scan_phys P cr [] s = ([], s)"
| "scan_phys P cr (phy # phys) s =
     (case mdio_read P (of_nat phy) MII_PHYSID1 cr s of
        (None, s) \<Rightarrow> ([], s)
      | (Some id1, s) \<Rightarrow>
          if id1 = 0x0000 \<or> id1 = 0xFFFF then scan_phys P cr phys s
          else
            (case mdio_read P (of_nat phy) MII_PHYSID2 cr s of (id2, s) \<Rightarrow>
             case mdio_read P (of_nat phy) MII_BMSR cr s of (bmsr, s) \<Rightarrow>
             case scan_phys P cr phys s of (found, s) \<Rightarrow>
               (\<lparr>phy_addr = of_nat phy, phy_id1 = id1, phy_id2 = (case id2 of None \<Rightarrow> 0 | Some x \<Rightarrow> x),
                 phy_bmsr = (case bmsr of None \<Rightarrow> 0 | Some x \<Rightarrow> x), phy_cr = cr\<rparr> # found, s)))"

definition crs :: "u32 list" where "crs = [5, 4, 1, 0, 3, 2]"

fun scan_dividers :: "('d, 'm) bus_scheme \<Rightarrow> u32 list \<Rightarrow> 'd soc \<Rightarrow> phy_report list \<times> 'd soc" where
  "scan_dividers P [] s = ([], s)"
| "scan_dividers P (cr # rest) s =
     (case scan_phys P cr [0..<32] s of
        (found, s) \<Rightarrow> if found \<noteq> [] then (found, s) else scan_dividers P rest s)"

definition p4_emac_mdio_scan :: "('d, 'm) bus_scheme \<Rightarrow> 'd soc \<Rightarrow> phy_report list \<times> 'd soc" where
  "p4_emac_mdio_scan P s = scan_dividers P crs s"

subsection \<open>The reference clock\<close>

definition REFCLK_GPIO :: u32 where [const_defs]: "REFCLK_GPIO = 50"
definition REFCLK_IN_BIT :: u32 where "REFCLK_IN_BIT = BIT 18"
definition REFCLK_SAMPLES :: nat where "REFCLK_SAMPLES = 4000"

fun count_highs :: "('d, 'm) bus_scheme \<Rightarrow> nat \<Rightarrow> 'd soc \<Rightarrow> nat \<times> 'd soc" where
  "count_highs P 0 s = (0, s)"
| "count_highs P (Suc n) s =
     (case reg_read P GPIO_IN1_REG s of (v, s) \<Rightarrow>
      case count_highs P n s of (highs, s) \<Rightarrow>
        ((if v AND REFCLK_IN_BIT \<noteq> 0 then Suc highs else highs), s))"

datatype refclk = Static bool | Toggling nat

definition p4_emac_refclk_probe :: "('d, 'm) bus_scheme \<Rightarrow> 'd soc \<Rightarrow> refclk \<times> 'd soc" where
  "p4_emac_refclk_probe P s =
     (let s = run_ops P
            [Op_clrsetbits (REG_IO_MUX_BASE + 0x4 + 4 * REFCLK_GPIO) (FUN_PU OR FUN_PD OR MCU_SEL)
               (FUN_IE OR push_bit 12 PAD_FUNC_GPIO),
             Op_delay 50] s
      in case count_highs P REFCLK_SAMPLES s of
           (highs, s) \<Rightarrow> (if highs = 0 \<or> highs = REFCLK_SAMPLES then Static (highs \<noteq> 0) else Toggling highs, s))"

end
