(* ===== verification/P4Psram.thy ===== *)
theory P4Psram
  imports P4Platform
begin

text \<open>
  \<open>bootloader/p4/p4_psram.c\<close>: training and mapping the PSRAM, the address-in-address test and
  the probe of the uncached alias.
\<close>

definition P4_PSRAM_VADDR :: u32 where [const_defs]: "P4_PSRAM_VADDR = 0x48000000"
definition MMU_PAGE_SIZE :: u32 where [const_defs]: "MMU_PAGE_SIZE = 0x10000"
definition MMU_TARGET_PSRAM0 :: nat where "MMU_TARGET_PSRAM0 = 2"
definition P4_NON_CACHEABLE_OFFSET :: u32 where [const_defs]: "P4_NON_CACHEABLE_OFFSET = 0x40000000"

definition p4_psram_init :: "'d platform \<Rightarrow> 'd soc \<Rightarrow> u32 option \<times> 'd soc" where
  "p4_psram_init P s =
     (case psram_enable P (dev s) of (err, d) \<Rightarrow>
       let s = act Ev_psram_train (\<lambda>_. d) s in
       if err \<noteq> 0 then (None, s)
       else (case psram_physical_size P (dev s) of (err, psram_size) \<Rightarrow>
         if err \<noteq> 0 \<or> psram_size = 0 then (None, s)
         else
           let map_len = psram_size AND NOT (MMU_PAGE_SIZE - 1) in
           (case mmu_map_region P 1 MMU_TARGET_PSRAM0 P4_PSRAM_VADDR 0 map_len (dev s) of (mapped, d) \<Rightarrow>
             let s = act (Ev_mmu_map 1 P4_PSRAM_VADDR 0 map_len) (\<lambda>_. d) s in
             if mapped = 0 then (None, s)
             else
               let bus_mask = l1_get_bus P 0 P4_PSRAM_VADDR mapped;
                   s = act (Ev_bus_enable 0 bus_mask) (l1_enable_bus P 0 bus_mask) s;
                   s = act (Ev_invalidate P4_PSRAM_VADDR mapped) (cache_invalidate_addr P P4_PSRAM_VADDR mapped) s
               in (Some mapped, s))))"

subsection \<open>The memory test\<close>

definition word_addr :: "nat \<Rightarrow> u32" where
  "word_addr i = P4_PSRAM_VADDR + 4 * of_nat i"

definition pattern :: "u32 \<Rightarrow> u32" where
  "pattern a = a XOR 0xA5A5A5A5"

definition psram_fill :: "('d, 'm) bus_scheme \<Rightarrow> nat list \<Rightarrow> 'd soc \<Rightarrow> 'd soc" where
  "psram_fill P is s = fold (\<lambda>i. reg_write P (word_addr i) (pattern (word_addr i))) is s"

text \<open>The second pass counts the words that differ and remembers the first.\<close>

fun psram_check :: "('d, 'm) bus_scheme \<Rightarrow> nat list \<Rightarrow> nat \<Rightarrow> u32 \<Rightarrow> 'd soc \<Rightarrow> nat \<times> u32 \<times> 'd soc" where
  "psram_check P [] bad_count bad s = (bad_count, bad, s)"
| "psram_check P (i # is) bad_count bad s =
     (case reg_read P (word_addr i) s of (got, s) \<Rightarrow>
       if got \<noteq> pattern (word_addr i)
       then psram_check P is (Suc bad_count) (if bad_count = 0 then word_addr i else bad) s
       else psram_check P is bad_count bad s)"

definition p4_psram_test :: "('d, 'm) bus_scheme \<Rightarrow> u32 \<Rightarrow> 'd soc \<Rightarrow> bool \<times> u32 \<times> 'd soc" where
  "p4_psram_test P bytes s =
     (let words = unat bytes div 4;
          s = psram_fill P [0..<words] s
      in case psram_check P [0..<words] 0 0 s of
           (bad_count, bad, s) \<Rightarrow> (bad_count = 0, bad, s))"

definition p4_psram_alias_test :: "('d, 'm) bus_scheme \<Rightarrow> 'd soc \<Rightarrow> bool \<times> 'd soc" where
  "p4_psram_alias_test P s =
     (let off = 0x00100000;
          cached = P4_PSRAM_VADDR + off;
          uncached = P4_PSRAM_VADDR + off + P4_NON_CACHEABLE_OFFSET;
          s = reg_write P uncached 0x11111111 s;
          (cached_sees_alias_write, s) = reg_read P cached s;
          s = reg_write P cached 0x22222222 s;
          (alias_sees_cached_write, s) = reg_read P uncached s;
          s = reg_write P uncached 0x33333333 s;
          (alias_reads_own_write, s) = reg_read P uncached s;
          reaches_same_memory = (cached_sees_alias_write = 0x11111111);
          bypasses_cache = (alias_sees_cached_write = 0x11111111)
      in (reaches_same_memory \<and> bypasses_cache, s))"

subsection \<open>What the test detects\<close>

text \<open>
  Memory with an address decoder: the word at address \<open>a\<close> lives in the cell \<open>decode a\<close>. With
  faithful address lines \<open>decode\<close> is injective; a stuck or swapped line makes two addresses
  share a cell.
\<close>

definition decoded_memory :: "('d, 'm) bus_scheme \<Rightarrow> ('d \<Rightarrow> 'c \<Rightarrow> u32) \<Rightarrow> (u32 \<Rightarrow> 'c) \<Rightarrow> u32 set \<Rightarrow> bool" where
  "decoded_memory P cell decode W =
     (\<forall>a \<in> W. \<forall>d. (\<forall>v. cell (bus_write P a v d) = (cell d)(decode a := v)) \<and>
       fst (bus_read P a d) = cell d (decode a) \<and> cell (snd (bus_read P a d)) = cell d)"

definition window :: "nat \<Rightarrow> u32 set" where
  "window words = word_addr ` {..<words}"

lemma pattern_inj: "pattern a = pattern b \<longleftrightarrow> a = b"
proof -
  have "pattern (pattern x) = x" for x by (simp add: pattern_def xor.assoc)
  then show ?thesis by metis
qed

lemma word_addr_inj:
  assumes "words \<le> 0x2000000" and "i < words" and "j < words" and "word_addr i = word_addr j"
  shows "i = j"
proof -
  have u: "unat (4 * of_nat k :: u32) = 4 * k" if "k < 0x2000000" for k
    using that by (simp add: unat_word_ariths unat_of_nat)
  have "4 * of_nat i = (4 * of_nat j :: u32)" using assms(4) by (simp add: word_addr_def)
  then have "unat (4 * of_nat i :: u32) = unat (4 * of_nat j :: u32)" by (rule arg_cong)
  moreover have "i < 0x2000000" "j < 0x2000000" using assms(1-3) by linarith+
  ultimately have "4 * i = 4 * j" by (simp only: u)
  then show ?thesis by simp
qed

text \<open>After the fill a cell holds the pattern of the last word that was stored in it.\<close>

lemma psram_fill_cells:
  assumes "decoded_memory P cell decode (window words)" and "words \<le> 0x2000000" and "n \<le> words" and "i < n"
  shows "cell (dev (psram_fill P [0..<n] s)) (decode (word_addr i)) = pattern (word_addr i) \<longleftrightarrow>
    (\<forall>j. i < j \<and> j < n \<longrightarrow> decode (word_addr j) \<noteq> decode (word_addr i))"
  using assms(3,4)
proof (induction n)
  case (Suc n)
  let ?s = "psram_fill P [0..<n] s"
  have "word_addr n \<in> window words" using Suc.prems by (simp add: window_def)
  then have cell: "cell (dev (psram_fill P [0..<Suc n] s)) =
      (cell (dev ?s))(decode (word_addr n) := pattern (word_addr n))"
    using assms(1) by (simp add: psram_fill_def decoded_memory_def reg_write_def)
  show ?case
  proof (cases "i = n")
    case True
    then show ?thesis by (auto simp: cell simp del: upt_Suc)
  next
    case False
    then have i: "i < n" using Suc.prems by simp
    then have "pattern (word_addr n) \<noteq> pattern (word_addr i)"
      using word_addr_inj [OF assms(2), of n i] Suc.prems pattern_inj by auto
    then show ?thesis
      using Suc.IH Suc.prems i by (auto simp: cell less_Suc_eq simp del: upt_Suc)
  qed
qed simp

text \<open>The check leaves the cells alone and finds the first word that differs.\<close>

lemma psram_check_result:
  assumes "decoded_memory P cell decode W" and "set (map word_addr is) \<subseteq> W"
    and "psram_check P is n bad s = (n', bad', s')"
  defines "wrong \<equiv> filter (\<lambda>i. cell (dev s) (decode (word_addr i)) \<noteq> pattern (word_addr i)) is"
  shows "n' = n + length wrong \<and> bad' = (if n = 0 \<and> wrong \<noteq> [] then word_addr (hd wrong) else bad)"
  using assms(2,3) unfolding wrong_def
proof (induction "is" arbitrary: n bad s)
  case (Cons i "is")
  obtain got d where read: "bus_read P (word_addr i) (dev s) = (got, d)" by fastforce
  then have "got = cell (dev s) (decode (word_addr i)) \<and> cell d = cell (dev s)"
    using assms(1) Cons.prems(1) unfolding decoded_memory_def by (metis (no_types, lifting) fst_conv image_subset_iff
        list.set_intros(1) list.set_map snd_conv)
  then show ?case
    using Cons.IH [of _ _ "s\<lparr>dev := d\<rparr>"] Cons.prems
    by (fastforce simp: reg_read_def read split: if_splits)
qed simp

lemma inj_on_window:
  assumes "words \<le> 0x2000000"
  shows "inj_on decode (window words) \<longleftrightarrow>
    (\<forall>i j. i < j \<and> j < words \<longrightarrow> decode (word_addr j) \<noteq> decode (word_addr i))"
proof
  assume inj: "inj_on decode (window words)"
  show "\<forall>i j. i < j \<and> j < words \<longrightarrow> decode (word_addr j) \<noteq> decode (word_addr i)"
  proof (intro allI impI notI)
    fix i j assume ij: "i < j \<and> j < words" and "decode (word_addr j) = decode (word_addr i)"
    then have "word_addr j = word_addr i" using inj by (auto simp: window_def dest: inj_onD)
    then show False using word_addr_inj [OF assms, of j i] ij by simp
  qed
next
  assume distinct: "\<forall>i j. i < j \<and> j < words \<longrightarrow> decode (word_addr j) \<noteq> decode (word_addr i)"
  show "inj_on decode (window words)"
  proof (rule inj_onI)
    fix a b assume "a \<in> window words" "b \<in> window words" and eq: "decode a = decode b"
    then obtain i j where ij: "i < words" "j < words" "a = word_addr i" "b = word_addr j"
      by (auto simp: window_def)
    then have "\<not> i < j" "\<not> j < i" using distinct eq by metis+
    then show "a = b" using ij by simp
  qed
qed

lemma psram_test_result:
  assumes "decoded_memory P cell decode (window (unat bytes div 4))" and "unat bytes \<le> 0x8000000"
    and "p4_psram_test P bytes s = (ok, bad, s')"
  shows "(ok \<longleftrightarrow> inj_on decode (window (unat bytes div 4))) \<and>
    (\<not> ok \<longrightarrow> (\<exists>i < unat bytes div 4. bad = word_addr i \<and>
      (\<exists>j. i < j \<and> j < unat bytes div 4 \<and> decode (word_addr j) = decode (word_addr i)) \<and>
      (\<forall>k < i. \<forall>j. k < j \<and> j < unat bytes div 4 \<longrightarrow> decode (word_addr j) \<noteq> decode (word_addr k))))"
proof -
  define words where "words = unat bytes div 4"
  note mem = assms(1) [folded words_def]
  have small: "words \<le> 0x2000000" using assms(2) by (simp add: words_def)
  let ?s = "psram_fill P [0..<words] s"
  define wrong where "wrong = filter (\<lambda>i. cell (dev ?s) (decode (word_addr i)) \<noteq> pattern (word_addr i)) [0..<words]"
  have lost: "i \<in> set wrong \<longleftrightarrow> i < words \<and> (\<exists>j. i < j \<and> j < words \<and> decode (word_addr j) = decode (word_addr i))" for i
    using psram_fill_cells [OF mem small order_refl] by (auto simp: wrong_def)
  obtain n b t where check: "psram_check P [0..<words] 0 0 ?s = (n, b, t)" by (cases "psram_check P [0..<words] 0 0 ?s") auto
  have "set (map word_addr [0..<words]) \<subseteq> window words" by (auto simp: window_def)
  note result = psram_check_result [OF mem this check, folded wrong_def]
  have "ok = (n = 0)" "bad = b"
    using assms(3) check by (auto simp: p4_psram_test_def words_def Let_def)
  then have run: "ok \<longleftrightarrow> wrong = []" "wrong \<noteq> [] \<Longrightarrow> bad = word_addr (hd wrong)"
    using result by auto
  have "wrong = [] \<longleftrightarrow> (\<forall>i. i \<notin> set wrong)" by (cases wrong) auto
  also have "\<dots> \<longleftrightarrow> inj_on decode (window words)"
    unfolding lost inj_on_window [OF small] by (meson less_trans)
  finally have "ok \<longleftrightarrow> inj_on decode (window words)" using run(1) by simp
  moreover have "\<exists>i < words. bad = word_addr i \<and>
      (\<exists>j. i < j \<and> j < words \<and> decode (word_addr j) = decode (word_addr i)) \<and>
      (\<forall>k < i. \<forall>j. k < j \<and> j < words \<longrightarrow> decode (word_addr j) \<noteq> decode (word_addr k))" if "\<not> ok"
  proof -
    have ne: "wrong \<noteq> []" using that run(1) by simp
    have "sorted wrong" by (simp add: wrong_def sorted_wrt_filter)
    then have first: "k < hd wrong \<Longrightarrow> k \<notin> set wrong" for k
      using ne by (cases wrong) auto
    have "hd wrong \<in> set wrong" using ne by simp
    then show ?thesis
      using lost run(2) [OF ne] first by (intro exI [of _ "hd wrong"]) (meson less_trans)
  qed
  ultimately show ?thesis by (simp add: words_def)
qed

text \<open>
  C18: on memory that stores words but may decode addresses wrongly, the test passes exactly when
  no two addresses of the window share a cell; when it fails, the address it reports is the first
  whose word was overwritten through another address.
\<close>

theorem psram_test_exact:
  assumes "decoded_memory P cell decode (window (unat bytes div 4))" and "unat bytes \<le> 0x8000000"
    and "p4_psram_test P bytes s = (ok, bad, s')"
  shows "(ok \<longleftrightarrow> inj_on decode (window (unat bytes div 4))) \<and>
    (\<not> ok \<longrightarrow> (\<exists>i < unat bytes div 4. bad = word_addr i \<and>
      (\<exists>j. i < j \<and> j < unat bytes div 4 \<and> decode (word_addr j) = decode (word_addr i)) \<and>
      (\<forall>k < i. \<forall>j. k < j \<and> j < unat bytes div 4 \<longrightarrow> decode (word_addr j) \<noteq> decode (word_addr k))))"
  using assms by (rule psram_test_result)

text \<open>A memory of 64 words whose address line 4 is stuck low.\<close>

definition stuck_bus :: "(u32 \<Rightarrow> u32) bus" where
  "stuck_bus = \<lparr>bus_read = (\<lambda>a d. (d (a AND NOT 16), d)), bus_write = (\<lambda>a v d. d(a AND NOT 16 := v)),
     delay_us = (\<lambda>_ d. d)\<rparr>"

lemma psram_test_exact_witness:
  "\<exists>bad s'. p4_psram_test stuck_bus 256 \<lparr>dev = (\<lambda>_. 0), log = []\<rparr> = (False, bad, s') \<and>
    (\<exists>i < 64. bad = word_addr i)"
proof -
  obtain ok bad s' where run: "p4_psram_test stuck_bus 256 \<lparr>dev = (\<lambda>_. 0), log = []\<rparr> = (ok, bad, s')"
    by (cases "p4_psram_test stuck_bus 256 \<lparr>dev = (\<lambda>_. 0), log = []\<rparr>")
  have "decoded_memory stuck_bus (\<lambda>d. d) (\<lambda>a. a AND NOT 16) (window (unat (256 :: u32) div 4))"
    by (simp add: decoded_memory_def stuck_bus_def)
  note exact = psram_test_exact [OF this _ run]
  have "\<not> inj_on (\<lambda>a. a AND NOT 16) (window 64)"
  proof
    assume inj: "inj_on (\<lambda>a :: u32. a AND NOT 16) (window 64)"
    have "word_addr 0 AND NOT 16 = word_addr 4 AND NOT 16" by (simp add: word_addr_def P4_PSRAM_VADDR_def)
    moreover have "word_addr 0 \<in> window 64" "word_addr 4 \<in> window 64" by (simp_all add: window_def)
    ultimately have "word_addr 0 = word_addr 4" using inj by (simp only: inj_on_def)
    then show False by (simp add: word_addr_def)
  qed
  then show ?thesis using exact run by auto
qed

subsection \<open>The alias probe\<close>

text \<open>
  One word behind a cache whose line is not loaded, reached through a cached window and an
  alias: \<open>line\<close> is the cached copy, if any. \<open>same\<close>: the alias reaches the same memory.
  \<open>bypass\<close>: it goes around the cache. \<open>through\<close>: the cache writes through.
\<close>

record alias_state =
  line :: "u32 option"
  cell_a :: u32
  cell_b :: u32

definition alias_bus :: "bool \<Rightarrow> bool \<Rightarrow> bool \<Rightarrow> alias_state bus" where
  "alias_bus same bypass through =
     (let cached = 0x48100000 :: u32;
          rd_cached = (\<lambda>d. case line d of Some v \<Rightarrow> (v, d) | None \<Rightarrow> (cell_a d, d\<lparr>line := Some (cell_a d)\<rparr>));
          wr_cached = (\<lambda>v d. (d\<lparr>line := Some v\<rparr>)\<lparr>cell_a := if through then v else cell_a d\<rparr>)
      in \<lparr>bus_read = (\<lambda>a d. if a = cached then rd_cached d else if \<not> same then (cell_b d, d)
            else if bypass then (cell_a d, d) else rd_cached d),
          bus_write = (\<lambda>a v d. if a = cached then wr_cached v d else if \<not> same then d\<lparr>cell_b := v\<rparr>
            else if bypass then d\<lparr>cell_a := v\<rparr> else wr_cached v d),
          delay_us = (\<lambda>_ d. d)\<rparr>)"

text \<open>The probe answers yes exactly for a true uncached alias of a write-back cache.\<close>

lemma alias_test_verdict:
  assumes "line (dev s) = None" and "cell_a (dev s) \<noteq> 0x11111111"
  shows "fst (p4_psram_alias_test (alias_bus same bypass through) s) = (same \<and> bypass \<and> \<not> through)"
  using assms
  by (cases same; cases bypass; cases through)
    (simp_all add: p4_psram_alias_test_def alias_bus_def Let_def reg_write_def reg_read_def const_defs)

end
