(* ===== verification/P4Board.thy ===== *)
theory P4Board
  imports P4Platform
begin

text \<open>
  The thin layers over ESP-IDF: clocks (\<open>p4_clk.c\<close>), cache and MMU set-up (\<open>p4_cache.c\<close>), the
  cache hooks of the timing tuning (\<open>p4_flashcache.c\<close>) and the analog domain (\<open>p4_analog.c\<close>).
\<close>

subsection \<open>Clocks\<close>

definition SOC_XTAL_FREQ_40M :: u32 where [const_defs]: "SOC_XTAL_FREQ_40M = 40"

definition p4_clk_init :: "'d platform \<Rightarrow> 'd soc \<Rightarrow> 'd soc" where
  "p4_clk_init P s = act (Ev_xtal SOC_XTAL_FREQ_40M) (xtal_freq_update P SOC_XTAL_FREQ_40M) s"

definition p4_clk_cpu_set_mhz :: "'d platform \<Rightarrow> u32 \<Rightarrow> 'd soc \<Rightarrow> bool \<times> 'd soc" where
  "p4_clk_cpu_set_mhz P mhz s =
     (case cpu_mhz_to_config P mhz (dev s) of
        None \<Rightarrow> (False, s)
      | Some cfg \<Rightarrow> (True, act (Ev_cpu_set mhz) (cpu_set_config P cfg) s))"

definition p4_clk_cpu_get_mhz :: "'d platform \<Rightarrow> 'd soc \<Rightarrow> u32" where
  "p4_clk_cpu_get_mhz P s = freq_mhz (cpu_get_config P (dev s))"

text \<open>The MPLL: \<open>s_mpll_freq_hz\<close> is passed next to the machine. True is \<open>ESP_OK\<close>.\<close>

definition esp_clk_tree_mpll_acquire :: "'d platform \<Rightarrow> 'd soc \<Rightarrow> bool \<times> 'd soc" where
  "esp_clk_tree_mpll_acquire P s =
     (case p4_ldo_enable P (fuses P) P4_LDO_CHAN_PSRAM P4_LDO_MV_PSRAM s of
        (False, s) \<Rightarrow> (False, s)
      | (True, s) \<Rightarrow> (True, act Ev_mpll_on (mpll_enable P) s))"

definition esp_clk_tree_mpll_release :: "'d platform \<Rightarrow> u32 \<times> 'd soc \<Rightarrow> u32 \<times> 'd soc" where
  "esp_clk_tree_mpll_release P x = (case x of (freq, s) \<Rightarrow> (0, act Ev_mpll_off (mpll_disable P) s))"

definition esp_clk_tree_mpll_freq_set :: "'d platform \<Rightarrow> u32 \<Rightarrow> u32 \<times> 'd soc \<Rightarrow> bool \<times> u32 \<times> u32 \<times> 'd soc" where
  "esp_clk_tree_mpll_freq_set P expt x =
     (case x of (freq, s) \<Rightarrow>
       let xtal = xtal_get_freq_mhz P (dev s);
           s = act (Ev_mpll_configure xtal (expt div 1000000)) (mpll_configure P xtal (expt div 1000000) False) s
       in (True, expt, expt, s))"

text \<open>
  The MPLL is switched on only after its rail is up: the regulator of channel 2 is on, with
  its current limit released, and the call succeeds.
\<close>

theorem mpll_powered_first:
  assumes "registers P pk no_locks A" and "ldo_regs 1 \<subseteq> A"
    and "esp_clk_tree_mpll_acquire P s = (ok, s')"
  shows "ok \<and> (\<exists>s1. s' = act Ev_mpll_on (mpll_enable P) s1 \<and>
    get_field 1 8 (pk (dev s1) (pmu_ext_ldo 1)) = 1 \<and>
    get_field 1 27 (pk (dev s1) (pmu_ext_ldo_ana 1)) = 0)"
proof -
  obtain dref mul rail where codes: "ldo_ll_voltage_to_dref_mul (fuses P) 1 1800 = (dref, mul, rail)"
    by (cases "ldo_ll_voltage_to_dref_mul (fuses P) 1 1800")
  obtain b s1 where ldo: "p4_ldo_enable P (fuses P) (1 + 1) 1800 s = (b, s1)" by fastforce
  note up = ldo_enable_result [OF assms(1,2) _ _ codes ldo, simplified]
  show ?thesis
    using assms(3) ldo up
    by (auto simp: esp_clk_tree_mpll_acquire_def P4_LDO_CHAN_PSRAM_def P4_LDO_MV_PSRAM_def ldo_set_up_def)
qed

subsection \<open>Cache and MMU\<close>

definition CONFIG_CACHE_L2_CACHE_SIZE :: u32 where "CONFIG_CACHE_L2_CACHE_SIZE = 0x20000"
definition CONFIG_CACHE_L2_CACHE_LINE_SIZE :: u32 where "CONFIG_CACHE_L2_CACHE_LINE_SIZE = 64"
definition CONFIG_MMU_PAGE_SIZE :: u32 where "CONFIG_MMU_PAGE_SIZE = 0x10000"

definition p4_cache_init :: "'d platform \<Rightarrow> 'd soc \<Rightarrow> 'd soc" where
  "p4_cache_init P s =
     act Ev_mmu_hal (mmu_hal_init P 1 CONFIG_MMU_PAGE_SIZE)
       (act Ev_cache_hal (cache_hal_init P 1 CONFIG_CACHE_L2_CACHE_SIZE CONFIG_CACHE_L2_CACHE_LINE_SIZE) s)"

text \<open>The tuning's hooks do nothing but clear the saved state.\<close>

definition spi_flash_disable_cache :: "u32 \<Rightarrow> u32 option \<Rightarrow> u32 option" where
  "spi_flash_disable_cache cpuid saved_state = map_option (\<lambda>_. 0) saved_state"

definition spi_flash_restore_cache :: "u32 \<Rightarrow> u32 \<Rightarrow> 'd soc \<Rightarrow> 'd soc" where
  "spi_flash_restore_cache cpuid saved_state s = s"

subsection \<open>The analog domain\<close>

definition LPPERI_CLK_EN_REG :: u32 where [const_defs]: "LPPERI_CLK_EN_REG = 0x50120000"
definition LP_I2C_ANA_MST_CLK160M_REG :: u32 where [const_defs]: "LP_I2C_ANA_MST_CLK160M_REG = 0x50124000 + 0x34"
definition LP_ANA_BOD_MODE1_CNTL_REG :: u32 where [const_defs]: "LP_ANA_BOD_MODE1_CNTL_REG = 0x50113000 + 0x4"
definition LP_ANA_FIB_ENABLE_REG :: u32 where [const_defs]: "LP_ANA_FIB_ENABLE_REG = 0x50113000 + 0x1c"

definition regi2c_write :: "'d platform \<Rightarrow> u8 \<Rightarrow> u8 \<Rightarrow> u8 \<Rightarrow> u8 \<Rightarrow> u8 \<Rightarrow> 'd soc \<Rightarrow> 'd soc" where
  "regi2c_write P block reg msb lsb v s = act (Ev_regi2c block reg msb lsb v) (regi2c_write_mask P block 0 reg msb lsb v) s"

definition p4_analog_init :: "'d platform \<Rightarrow> 'd soc \<Rightarrow> 'd soc" where
  "p4_analog_init P s =
     (let s = run_ops P [set_field LPPERI_CLK_EN_REG 1 27 1, set_field LP_I2C_ANA_MST_CLK160M_REG 1 0 1] s;
          s = regi2c_write P 0x67 3 7 0 6 s;
          s = regi2c_write P 0x66 3 7 0 8 s;
          s = ets_delay_us P 100 s;
          s = regi2c_write P 0x6A 0 7 4 10 s;
          s = regi2c_write P 0x6A 1 3 0 10 s
      in run_ops P [Op_clrsetbits LP_ANA_FIB_ENABLE_REG (BIT 1) 0,
           set_field LP_ANA_BOD_MODE1_CNTL_REG 1 31 1] s)"

end
