(* ===== verification/P4Panic.thy ===== *)
theory P4Panic
  imports Prelude Numerals
begin

text \<open>
  \<open>bootloader/p4/p4_panic.c\<close>: the decoders for the trap cause and the reset reason, and the
  functions that report and stop. \<open>ets_printf\<close> is in ROM and is an argument (\<open>pf\<close>); what the
  code relies on is that it prints the conversions \<open>%s\<close>, \<open>%d\<close> and \<open>%08x\<close> as C's \<open>printf\<close> does
  (\<open>c_printf\<close>). The loop of \<open>wfi\<close> that ends these functions is the value \<open>Halted\<close>, with the
  console text printed so far.
\<close>

subsection \<open>The decoders\<close>

definition trap_cause_name :: "u32 \<Rightarrow> string" where
  "trap_cause_name mcause =
     (if mcause AND 0x80000000 \<noteq> 0 then ''interrupt (unexpected -- mie should be clear)''
      else if mcause = 0 then ''instruction address misaligned''
      else if mcause = 1 then ''instruction access fault''
      else if mcause = 2 then ''illegal instruction''
      else if mcause = 3 then ''breakpoint''
      else if mcause = 4 then ''load address misaligned''
      else if mcause = 5 then ''load access fault''
      else if mcause = 6 then ''store/AMO address misaligned''
      else if mcause = 7 then ''store/AMO access fault''
      else if mcause = 11 then ''environment call from M-mode''
      else ''unknown'')"

definition p4_reset_reason_name :: "u32 \<Rightarrow> string" where
  "p4_reset_reason_name r =
     (if r = 0x01 then ''power-on''
      else if r = 0x03 then ''software (core)''
      else if r = 0x05 then ''deep sleep / PMU power down''
      else if r = 0x07 then ''MWDT (core)''
      else if r = 0x09 then ''RWDT (core)''
      else if r = 0x0B then ''MWDT (CPU)''
      else if r = 0x0C then ''software (CPU)''
      else if r = 0x0D then ''RWDT (CPU)''
      else if r = 0x0F then ''BROWNOUT -- VDD sagged''
      else if r = 0x10 then ''RWDT (system)''
      else if r = 0x12 then ''super watchdog''
      else if r = 0x13 then ''power glitch''
      else if r = 0x14 then ''eFuse CRC error''
      else if r = 0x16 then ''USB JTAG''
      else if r = 0x17 then ''USB UART''
      else if r = 0x18 then ''JTAG reset command''
      else if r = 0x1A then ''CPU LOCKUP -- fault inside the fault handler''
      else if r = 0x1B then ''power supply glitch (>50ns)''
      else ''unknown'')"

definition esp_log_timestamp :: u32 where
  "esp_log_timestamp = 0"

subsection \<open>Printing\<close>

datatype printf_arg = Arg_s string | Arg_d int | Arg_x u32

text \<open>\<open>%08x\<close>: eight hexadecimal digits, padded with zeros.\<close>

definition hex08 :: "u32 \<Rightarrow> string" where
  "hex08 w = (let d = hex_of (unat w) in replicate (8 - length d) (CHR ''0'') @ d)"

definition dec_int :: "int \<Rightarrow> string" where
  "dec_int i = (if i < 0 then ''-'' @ dec_of (nat (- i)) else dec_of (nat i))"

text \<open>Each argument comes with the conversion of its type: \<open>%s\<close>, \<open>%d\<close> or \<open>%08x\<close>.\<close>

fun c_printf :: "string \<Rightarrow> printf_arg list \<Rightarrow> string" where
  "c_printf [] as = []"
| "c_printf (c # f) as =
     (if c \<noteq> CHR ''%'' then c # c_printf f as
      else (case as of
              [] \<Rightarrow> []
            | Arg_s s # as' \<Rightarrow> s @ c_printf (drop 1 f) as'
            | Arg_d i # as' \<Rightarrow> dec_int i @ c_printf (drop 1 f) as'
            | Arg_x w # as' \<Rightarrow> hex08 w @ c_printf (drop 3 f) as'))"

definition EOL :: string where "EOL = [CHR 0x0D, CHR 0x0A]"

subsection \<open>Reporting and stopping\<close>

datatype halted = Halted string

type_synonym printf = "string \<Rightarrow> printf_arg list \<Rightarrow> string"

text \<open>The brackets around vendored clock writes do nothing.\<close>

definition periph_rcc_enter :: "'s \<Rightarrow> 's" where "periph_rcc_enter s = s"
definition periph_rcc_exit :: "'s \<Rightarrow> 's" where "periph_rcc_exit s = s"

definition abort :: "printf \<Rightarrow> string \<Rightarrow> halted" where
  "abort pf con =
     (let con = con @ pf (EOL @ ''p4boot: abort() -- unreachable path taken in vendored code'' @ EOL) [];
          con = con @ pf (''p4boot: halting rather than resetting, so this stays readable'' @ EOL) []
      in Halted con)"

definition trap_report :: "printf \<Rightarrow> u32 \<Rightarrow> u32 \<Rightarrow> u32 \<Rightarrow> string \<Rightarrow> halted" where
  "trap_report pf mcause mepc mtval con =
     (let con = con @ pf (EOL @ ''=== p4boot: TRAP ==='' @ EOL) [];
          con = con @ pf (''  mcause 0x%08x  %s'' @ EOL) [Arg_x mcause, Arg_s (trap_cause_name mcause)];
          con = con @ pf (''  mepc   0x%08x  <- faulting instruction (find it in `make dis`)'' @ EOL) [Arg_x mepc];
          con = con @ pf (''  mtval  0x%08x  <- offending address, for access faults'' @ EOL) [Arg_x mtval];
          con = con @ pf (''=== halting ==='' @ EOL) []
      in Halted con)"

text \<open>The three strings may be \<open>NULL\<close>.\<close>

definition assert_func ::
    "printf \<Rightarrow> string option \<Rightarrow> int \<Rightarrow> string option \<Rightarrow> string option \<Rightarrow> string \<Rightarrow> halted" where
  "assert_func pf file line func expr con =
     (let given = (\<lambda>x. case x of Some s \<Rightarrow> s | None \<Rightarrow> ''?'');
          con = con @ pf (EOL @ ''p4boot: assertion failed: %s'' @ EOL) [Arg_s (given expr)];
          con = con @ pf (''p4boot:   at %s:%d, in %s()'' @ EOL) [Arg_s (given file), Arg_d line, Arg_s (given func)]
      in abort pf con)"

subsection \<open>The report can be read back\<close>

text \<open>The 32-bit words of a text: the eight digits behind each \<open>0x\<close>.\<close>

function report_words :: "string \<Rightarrow> u32 list" where
  "report_words s =
     (case find_sub ''0x'' s of
        None \<Rightarrow> []
      | Some i \<Rightarrow> of_nat (digits_value hex_digit 16 0 (take 8 (drop (i + 2) s))) # report_words (drop (i + 10) s))"
  by pat_completeness auto
termination
  by (relation "measure length") (auto dest!: find_sub_bound)

declare report_words.simps [simp del]

lemma c_printf_plain: "CHR ''%'' \<notin> set f \<Longrightarrow> c_printf (f @ g) as = f @ c_printf g as"
  by (induction f) auto

lemma hex08_length: "length (hex08 w) = 8"
proof -
  have "unat w < 16 ^ Suc 7" using unsigned_less [of w] by simp
  from num_of_length [OF _ this] show ?thesis by (simp add: hex08_def Let_def)
qed

lemma digits_value_zeros: "digits_value hex_digit 16 0 (replicate n (CHR ''0'') @ s) = digits_value hex_digit 16 0 s"
  by (induction n) (simp_all add: hex_digit_def)

lemma hex08_value: "of_nat (digits_value hex_digit 16 0 (hex08 w)) = w"
  using digits_value_num_of [of 16 hex_digit 0 "unat w" "[]"]
  by (simp add: hex08_def Let_def digits_value_zeros)

lemma report_words_step:
  assumes "find_sub ''0x'' u = None"
  shows "report_words (u @ ''0x'' @ hex08 w @ t) = w # report_words t"
  using find_pair [of "CHR ''0''" "CHR ''x''" u "hex08 w @ t"] assms
  by (subst report_words.simps) (simp add: hex08_length hex08_value)

lemma report_words_end: "find_sub ''0x'' u = None \<Longrightarrow> report_words u = []"
  by (subst report_words.simps) simp

lemma cause_name_plain: "find_sub ''0x'' (''  '' @ trap_cause_name c @ t) = map_option (\<lambda>i. i + 2 + length (trap_cause_name c)) (find_sub ''0x'' t)"
  by (cases "find_sub ''0x'' t") (simp_all add: trap_cause_name_def has_prefix_def)

text \<open>
  The trap report is complete and unambiguous: when the ROM's \<open>ets_printf\<close> prints as C's does,
  the text shows the name of the cause, and the three words in it are \<open>mcause\<close>, \<open>mepc\<close> and \<open>mtval\<close>,
  all eight digits of each, in this order.
\<close>

lemma trap_report_readable:
  assumes "\<And>f as. pf f as = c_printf f as"
  shows "\<exists>t. trap_report pf mcause mepc mtval con = Halted (con @ t) \<and>
    report_words t = [mcause, mepc, mtval] \<and> sublist (trap_cause_name mcause) t"
proof -
  define t1 where "t1 = EOL @ ''=== p4boot: TRAP ==='' @ EOL @ ''  mcause ''"
  define t2 where "t2 = ''  '' @ trap_cause_name mcause @ EOL @ ''  mepc   ''"
  define t3 where "t3 = ''  <- faulting instruction (find it in `make dis`)'' @ EOL @ ''  mtval  ''"
  define t4 where "t4 = ''  <- offending address, for access faults'' @ EOL @ ''=== halting ==='' @ EOL"
  let ?t = "t1 @ ''0x'' @ hex08 mcause @ t2 @ ''0x'' @ hex08 mepc @ t3 @ ''0x'' @ hex08 mtval @ t4"
  have "trap_report pf mcause mepc mtval con = Halted (con @ ?t)"
    unfolding trap_report_def Let_def assms by (simp add: EOL_def t1_def t2_def t3_def t4_def)
  moreover have "find_sub ''0x'' t1 = None" "find_sub ''0x'' t3 = None" "find_sub ''0x'' t4 = None"
    by (simp_all add: t1_def t3_def t4_def EOL_def has_prefix_def)
  moreover have "find_sub ''0x'' t2 = None"
    unfolding t2_def cause_name_plain by (simp add: EOL_def has_prefix_def)
  ultimately have "trap_report pf mcause mepc mtval con = Halted (con @ ?t)"
    "report_words ?t = [mcause, mepc, mtval]"
    by (simp_all only: report_words_step report_words_end)
  moreover have "?t = (t1 @ ''0x'' @ hex08 mcause @ ''  '') @ trap_cause_name mcause @
      (EOL @ ''  mepc   '' @ ''0x'' @ hex08 mepc @ t3 @ ''0x'' @ hex08 mtval @ t4)"
    by (simp add: t2_def)
  then have "sublist (trap_cause_name mcause) ?t" by (metis sublist_appendI)
  ultimately show ?thesis by blast
qed

end
