(* ===== verification/BootMain.thy ===== *)
theory BootMain
  imports P4Wdt P4Emac P4Flash P4Psram P4Board P4Panic
begin

text \<open>
  \<open>bootloader/main.c\<close>: the boot itself, as the composition of the parts. \<open>None\<close> is a boot that
  never gets past the wait for the UART's update bit; every \<open>for (;;) { }\<close> is a \<open>halt\<close> with its
  reason. Messages on the console are not modelled.
\<close>

definition CONSOLE_BAUD :: u32 where [const_defs]: "CONSOLE_BAUD = 4000000"
definition XTAL_HZ :: u32 where [const_defs]: "XTAL_HZ = 40000000"
definition CPU_MHZ :: u32 where [const_defs]: "CPU_MHZ = 360"
definition KERNEL_PA :: u32 where [const_defs]: "KERNEL_PA = 0x48000000"
definition DTB_PA :: u32 where [const_defs]: "DTB_PA = 0x49000000"
definition P4_PART_TYPE_KERNEL :: u8 where [const_defs]: "P4_PART_TYPE_KERNEL = 0x40"
definition P4_PART_TYPE_DTB :: u8 where [const_defs]: "P4_PART_TYPE_DTB = 0x41"
definition P4_PART_SUBTYPE_NONE :: u8 where [const_defs]: "P4_PART_SUBTYPE_NONE = 0x00"

datatype payload = Kernel | Dtb

datatype halt =
    Flash_size_unset | Flash_unstable
  | Not_found payload | Unreadable payload
  | Psram_init_failed | Psram_bad u32
  | Copy_failed payload | Mismatch payload u32 u32

datatype outcome = Halted halt | Jumped

text \<open>A stage goes on with a value or halts.\<close>

definition proceed :: "(halt + 'a) \<times> 'd soc \<Rightarrow> ('a \<Rightarrow> 'd soc \<Rightarrow> (halt + 'b) \<times> 'd soc) \<Rightarrow>
    (halt + 'b) \<times> 'd soc" where
  "proceed m f = (case m of (Inl h, s) \<Rightarrow> (Inl h, s) | (Inr x, s) \<Rightarrow> f x s)"

subsection \<open>Steps 1 to 4: watchdogs, analog domain, console\<close>

text \<open>The result says whether the console was switched, and why the board was reset.\<close>

definition bring_up :: "'d platform \<Rightarrow> 'd soc \<Rightarrow> (bool \<times> string \<times> 'd soc) option" where
  "bring_up P s =
     (let s = p4_wdt_disable_all P s;
          s = p4_analog_init P s
      in map_option (\<lambda>(switched, s). (switched, p4_reset_reason_name (reset_reason P (dev s)), s))
           (p4_uart0_set_baud P CONSOLE_BAUD XTAL_HZ s))"

subsection \<open>Step 7: the payloads in flash\<close>

definition locate :: "'d platform \<Rightarrow> buffers \<Rightarrow> 'd soc \<Rightarrow> (halt + p4_partition \<times> p4_partition) \<times> 'd soc" where
  "locate P B s =
     (case p4_flash_init P s of
        (False, s) \<Rightarrow> (Inl Flash_size_unset, s)
      | (True, s) \<Rightarrow>
          (case p4_flash_selftest P B s of
             (False, s) \<Rightarrow> (Inl Flash_unstable, s)
           | (True, s) \<Rightarrow>
               (case p4_part_dump P B s of (shown, s) \<Rightarrow>
                 (case p4_part_find P B P4_PART_TYPE_KERNEL P4_PART_SUBTYPE_NONE s of
                    (None, s) \<Rightarrow> (Inl (Not_found Kernel), s)
                  | (Some kpart, s) \<Rightarrow>
                      (case p4_part_find P B P4_PART_TYPE_DTB P4_PART_SUBTYPE_NONE s of
                         (None, s) \<Rightarrow> (Inl (Not_found Dtb), s)
                       | (Some dpart, s) \<Rightarrow> (Inr (kpart, dpart), s))))))"

definition checksum :: "'d platform \<Rightarrow> buffers \<Rightarrow> p4_partition \<times> p4_partition \<Rightarrow> 'd soc \<Rightarrow>
    (halt + u32 \<times> u32) \<times> 'd soc" where
  "checksum P B parts s =
     (case parts of (kpart, dpart) \<Rightarrow>
        (case p4_flash_crc32 P B (part_offset kpart) (part_size kpart) s of
           (None, s) \<Rightarrow> (Inl (Unreadable Kernel), s)
         | (Some kernel_crc, s) \<Rightarrow>
             (case p4_flash_crc32 P B (part_offset dpart) (part_size dpart) s of
                (None, s) \<Rightarrow> (Inl (Unreadable Dtb), s)
              | (Some dtb_crc, s) \<Rightarrow> (Inr (kernel_crc, dtb_crc), s))))"

subsection \<open>Steps 5, 4b and 6: PSRAM, CPU clock, the test\<close>

definition prepare_psram :: "'d platform \<Rightarrow> 'd soc \<Rightarrow> (halt + u32) \<times> 'd soc" where
  "prepare_psram P s =
     (let s = p4_clk_init P s;
          s = p4_cache_init P s
      in case p4_psram_init P s of
           (None, s) \<Rightarrow> (Inl Psram_init_failed, s)
         | (Some psram_bytes, s) \<Rightarrow>
             (case p4_clk_cpu_set_mhz P CPU_MHZ s of (raised, s) \<Rightarrow>
                (case p4_psram_test P psram_bytes s of
                   (False, bad, s) \<Rightarrow> (Inl (Psram_bad bad), s)
                 | (True, bad, s) \<Rightarrow>
                     (case p4_psram_alias_test P s of (uncached, s) \<Rightarrow> (Inr psram_bytes, s)))))"

subsection \<open>Step 8: flash to PSRAM\<close>

fun payload_pa :: "payload \<Rightarrow> u32" where
  "payload_pa Kernel = KERNEL_PA"
| "payload_pa Dtb = DTB_PA"

definition load_payload :: "'d platform \<Rightarrow> payload \<Rightarrow> p4_partition \<Rightarrow> u32 \<Rightarrow> 'd soc \<Rightarrow>
    (halt + unit) \<times> 'd soc" where
  "load_payload P x part crc s =
     (case p4_flash_copy P (part_offset part) (part_size part) (payload_pa x) s of
        (False, s) \<Rightarrow> (Inl (Copy_failed x), s)
      | (True, s) \<Rightarrow>
          (case p4_mem_crc32 P (payload_pa x) (part_size part) s of
             (copy_crc, s) \<Rightarrow>
               if copy_crc \<noteq> crc then (Inl (Mismatch x crc copy_crc), s) else (Inr (), s)))"

subsection \<open>Steps 11 and 9/10: the devices and the jump\<close>

text \<open>Failures of the devices are reported and ignored.\<close>

definition set_up_devices :: "'d platform \<Rightarrow> 'd soc \<Rightarrow> 'd soc" where
  "set_up_devices P s =
     (let (word0, s) = reg_read P KERNEL_PA s;
          (word1, s) = reg_read P (KERNEL_PA + 4) s;
          (sdmmc_ok, s) = p4_sdmmc_init P (fuses P) s;
          (clock, s) = p4_emac_refclk_probe P s
      in case p4_emac_init P s of
           (False, s) \<Rightarrow> s
         | (True, s) \<Rightarrow> (case p4_emac_mdio_scan P s of (phys, s) \<Rightarrow> s))"

definition hand_over :: "'d platform \<Rightarrow> 'd soc \<Rightarrow> 'd soc" where
  "hand_over P s = act (Ev_jump KERNEL_PA DTB_PA) (\<lambda>d. d) (act Ev_writeback_all (cache_writeback_all P) s)"

definition boot_from_flash :: "'d platform \<Rightarrow> buffers \<Rightarrow> 'd soc \<Rightarrow> (halt + unit) \<times> 'd soc" where
  "boot_from_flash P B s =
     proceed (locate P B s) (\<lambda>(kpart, dpart) s.
       proceed (checksum P B (kpart, dpart) s) (\<lambda>(kernel_crc, dtb_crc) s.
         proceed (prepare_psram P s) (\<lambda>psram_bytes s.
           proceed (load_payload P Kernel kpart kernel_crc s) (\<lambda>_ s.
             proceed (load_payload P Dtb dpart dtb_crc s) (\<lambda>_ s.
               (Inr (), hand_over P (set_up_devices P s)))))))"

definition boot_main :: "'d platform \<Rightarrow> buffers \<Rightarrow> 'd soc \<Rightarrow> (outcome \<times> 'd soc) option" where
  "boot_main P B s =
     (case bring_up P s of
        None \<Rightarrow> None
      | Some (switched, reason, s) \<Rightarrow>
          (case boot_from_flash P B s of
             (Inl h, s) \<Rightarrow> Some (Halted h, s)
           | (Inr _, s) \<Rightarrow> Some (Jumped, s)))"

lemma proceed_simps [simp]:
  "proceed (Inl h, s) f = (Inl h, s)"
  "proceed (Inr x, s) f = f x s"
  by (simp_all add: proceed_def)

end
