(* ===== verification/BootEffects.thy ===== *)
theory BootEffects
  imports BootMain
begin

text \<open>
  What the stages of the boot may do, proved once for every reflexive and transitive relation
  that the single accesses respect: writes to peripheral registers, reads, delays, the GPIO
  matrix, and for the bring-up the analog bus and the UART drain. The two instances are the log
  (which events a stage adds) and an observation of the machine (which the accesses leave alone).
\<close>

definition peripherals :: "u32 set" where
  "peripherals = {a. 0x50000000 \<le> a \<and> a < 0x60000000}"

lemma within_peripherals:
  "within wdt_ops peripherals" "within sdmmc_ops peripherals" "within emac_clock_ops peripherals"
  "within phy_reset_ops peripherals" "within (uart_ops sd i f) peripherals"
  "within (map (\<lambda>n. pad_route n EMAC_PAD_FUNC True) rmii_pads) peripherals"
  "within [pad_route EMAC_MDC_GPIO PAD_FUNC_GPIO inp] peripherals"
  "within [pad_route EMAC_MDIO_GPIO PAD_FUNC_GPIO inp] peripherals"
  "within [Op_clrsetbits (REG_IO_MUX_BASE + 0x4 + 4 * REFCLK_GPIO) clr st, Op_delay n] peripherals"
  "within [set_field LPPERI_CLK_EN_REG w k x, set_field LP_I2C_ANA_MST_CLK160M_REG w' k' x'] peripherals"
  "within [Op_clrsetbits LP_ANA_FIB_ENABLE_REG clr st, set_field LP_ANA_BOD_MODE1_CNTL_REG w k x] peripherals"
  by (auto simp: within_def peripherals_def wdt_ops_def sdmmc_ops_def sdmmc_pad_def emac_clock_ops_def
      phy_reset_ops_def uart_ops_def pad_route_def set_field_def const_defs)

lemma ldo_regs_peripherals: "unit \<in> {0, 1, 2, 3} \<Longrightarrow> ldo_regs unit \<subseteq> peripherals"
  by (auto simp: ldo_regs_def peripherals_def pmu_ext_ldo_def pmu_ext_ldo_ana_def index_array_def const_defs)

lemma within_mono: "within ops A \<Longrightarrow> A \<subseteq> B \<Longrightarrow> within ops B"
  by (auto simp: within_def)

locale device_effects =
  fixes P :: "'d platform" and R :: "'d soc \<Rightarrow> 'd soc \<Rightarrow> bool"
  assumes refl: "R s s"
    and trans: "R s t \<Longrightarrow> R t u \<Longrightarrow> R s u"
    and read: "reg_read P a s = (v, t) \<Longrightarrow> R s t"
    and store: "a \<in> peripherals \<Longrightarrow> R s (reg_write P a w s)"
    and delay: "R s (ets_delay_us P n s)"
    and matrix_out: "R s (gpio_out P gpio sig s)"
    and matrix_in: "R s (gpio_in P gpio sig s)"
begin

lemma op: "\<forall>a. op_reg op = Some a \<longrightarrow> a \<in> peripherals \<Longrightarrow> R s (exec_op P op s)"
proof (cases op)
  case (Op_setbits a m)
  obtain v t where "reg_read P a s = (v, t)" by fastforce
  moreover assume "\<forall>a. op_reg op = Some a \<longrightarrow> a \<in> peripherals"
  ultimately show ?thesis
    using trans [OF read store] Op_setbits by (simp add: reg_setbits_def)
next
  case (Op_clrsetbits a clr st)
  obtain v t where "reg_read P a s = (v, t)" by fastforce
  moreover assume "\<forall>a. op_reg op = Some a \<longrightarrow> a \<in> peripherals"
  ultimately show ?thesis
    using trans [OF read store] Op_clrsetbits by (simp add: reg_clrsetbits_def)
qed (auto intro: store delay)

lemma ops: "within xs peripherals \<Longrightarrow> R s (run_ops P xs s)"
proof (induction xs arbitrary: s)
  case (Cons x xs)
  then have "R s (exec_op P x s)" "R (exec_op P x s) (run_ops P xs (exec_op P x s))"
    by (auto intro!: op simp: within_simps)
  then show ?case by (auto simp: run_ops_simps intro: trans)
qed (simp add: run_ops_simps refl)

text \<open>One more access at the end.\<close>

lemmas then_ops = trans [OF _ ops] and then_delay = trans [OF _ delay]
  and then_out = trans [OF _ matrix_out] and then_in = trans [OF _ matrix_in]

lemma ldo: "p4_ldo_enable P E chan mv s = (ok, t) \<Longrightarrow> R s t"
  using ops [OF within_mono [OF ldo_ops_within ldo_regs_peripherals [OF valid_unit]]]
  by (auto simp: p4_ldo_enable_def refl split: if_splits)

lemma sdmmc:
  assumes "p4_sdmmc_init P E s = (ok, t)"
  shows "R s t"
proof -
  obtain r u where first: "p4_ldo_enable P E P4_LDO_CHAN_SDMMC P4_LDO_MV_SDMMC s = (r, u)" by fastforce
  show ?thesis
    using assms ldo [OF first] trans [OF ldo [OF first] trans [OF delay ops [OF within_peripherals(2)]]]
    by (auto simp: p4_sdmmc_init_def first split: bool.splits)
qed

lemma highs: "count_highs P n s = (k, t) \<Longrightarrow> R s t"
proof (induction n arbitrary: s k t)
  case (Suc n)
  obtain v u where first: "reg_read P GPIO_IN1_REG s = (v, u)" by fastforce
  obtain j t' where rest: "count_highs P n u = (j, t')" by fastforce
  show ?case
    using Suc.prems trans [OF read [OF first] Suc.IH [OF rest]] by (simp add: first rest)
qed (simp add: refl)

lemma refclk: "p4_emac_refclk_probe P s = (verdict, t) \<Longrightarrow> R s t"
  using trans [OF ops [OF within_peripherals(9)] highs]
  by (fastforce simp: p4_emac_refclk_probe_def Let_def split: prod.splits)

lemma station: "R s (station_address P s)"
proof -
  obtain w0 t w1 u where reads: "reg_read P EFUSE_RD_MAC_SYS_0_REG s = (w0, t)"
      "reg_read P EFUSE_RD_MAC_SYS_1_REG t = (w1, u)" by fastforce
  have u: "R s u" using trans [OF read [OF reads(1)] read [OF reads(2)]] .
  have "EMAC_MACADDRESS0LOW_REG \<in> peripherals" "EMAC_MACADDRESS0HIGH_REG \<in> peripherals"
    by (simp_all add: peripherals_def const_defs)
  then show ?thesis
    using u trans [OF u trans [OF store store]] by (simp add: station_address_def reads Let_def)
qed

lemma emac: "p4_emac_init P s = (ok, t) \<Longrightarrow> R s t"
  unfolding p4_emac_init_def Let_def prod.inject
  by (elim conjE, hypsubst, rule trans [OF _ station])
    (intro then_ops then_out then_in refl within_peripherals)

lemma idle: "mdio_idle P n s = (ok, t) \<Longrightarrow> R s t"
proof (induction n arbitrary: s)
  case (Suc n)
  obtain v u where first: "reg_read P EMAC_GMIIADDRESS_REG s = (v, u)" by fastforce
  show ?case
    using Suc.prems Suc.IH [of u] read [OF first] trans [OF read [OF first]] by (auto simp: first split: if_splits)
qed (simp add: refl)

lemma frame: "R s (reg_write P EMAC_GMIIADDRESS_REG w s)"
  by (rule store) (simp add: peripherals_def const_defs)

lemma mdio:
  assumes "mdio_read P phy reg cr s = (x, t)"
  shows "R s t"
proof -
  obtain r u where first: "mdio_idle P MDIO_POLLS s = (r, u)" by fastforce
  let ?u = "reg_write P EMAC_GMIIADDRESS_REG (mdio_frame phy reg cr) u"
  obtain r' w where second: "mdio_idle P MDIO_POLLS ?u = (r', w)" by fastforce
  obtain v z where third: "reg_read P EMAC_GMIIDATA_REG w = (v, z)" by fastforce
  have "R s w" by (rule trans [OF idle [OF first] trans [OF frame idle [OF second]]])
  then show ?thesis
    using assms idle [OF first] trans [OF _ read [OF third]]
    by (auto simp: mdio_read_def first second third split: bool.splits)
qed

lemma phys: "scan_phys P cr ns s = (found, t) \<Longrightarrow> R s t"
proof (induction ns arbitrary: s found t)
  case (Cons n ns)
  obtain x u where first: "mdio_read P (of_nat n) MII_PHYSID1 cr s = (x, u)" by fastforce
  obtain y v z w where more: "mdio_read P (of_nat n) MII_PHYSID2 cr u = (y, v)"
      "mdio_read P (of_nat n) MII_BMSR cr v = (z, w)" by fastforce
  have u: "R s u" using first by (rule mdio)
  have w: "R s w" by (rule trans [OF u trans [OF mdio [OF more(1)] mdio [OF more(2)]]])
  obtain f t' where "scan_phys P cr ns w = (f, t')" by fastforce
  then show ?case
    using Cons.prems Cons.IH u w trans [OF u] trans [OF w] first more
    by (auto split: option.splits if_splits)
qed (simp add: refl)

lemma dividers: "scan_dividers P ds s = (found, t) \<Longrightarrow> R s t"
proof (induction ds arbitrary: s found t)
  case (Cons cr rest)
  obtain f u where first: "scan_phys P cr [0..<32] s = (f, u)" by fastforce
  show ?case
    using Cons.prems Cons.IH phys [OF first] trans [OF phys [OF first]] first by (auto split: if_splits)
qed (simp add: refl)

lemma devices: "R s (set_up_devices P s)"
proof -
  obtain w0 s1 w1 s2 ok s3 clock s4 ok' s5 found s6 where run: "reg_read P KERNEL_PA s = (w0, s1)"
      "reg_read P (KERNEL_PA + 4) s1 = (w1, s2)" "p4_sdmmc_init P (fuses P) s2 = (ok, s3)"
      "p4_emac_refclk_probe P s3 = (clock, s4)" "p4_emac_init P s4 = (ok', s5)"
      "scan_dividers P crs s5 = (found, s6)"
    by (meson surj_pair)
  have "R s s5"
    by (rule trans [OF read [OF run(1)] trans [OF read [OF run(2)] trans [OF sdmmc [OF run(3)]
      trans [OF refclk [OF run(4)] emac [OF run(5)]]]]])
  then show ?thesis
    using trans [OF \<open>R s s5\<close> dividers [OF run(6)]]
    by (auto simp: set_up_devices_def p4_emac_mdio_scan_def run split: bool.split)
qed

end

locale board_effects = device_effects +
  assumes analog_bus: "R s (regi2c_write P block reg msb lsb v s)"
    and drain: "R s (tx_wait_idle P s)"
begin

lemma analog: "R s (p4_analog_init P s)"
  unfolding p4_analog_init_def Let_def
  by (intro then_ops then_delay trans [OF _ analog_bus] refl within_peripherals)

lemma update:
  assumes "uart_wait_update P s = Some t"
  shows "R s t"
proof -
  have "B = P \<longrightarrow> R s t" if "uart_wait_update B s = Some t" for B s t
  proof (rule uart_wait_update.raw_induct [where P = "\<lambda>B s t. B = P \<longrightarrow> R s t", OF _ that], goal_cases)
    case (1 loop B s t)
    obtain v u where first: "reg_read B UART_REG_UPDATE_REG s = (v, u)" by fastforce
    show ?case
    proof
      assume B: "B = P"
      then have "R s u" using first read by blast
      then show "R s t" using 1 first trans [OF \<open>R s u\<close>] B by (auto split: if_splits)
    qed
  qed
  then show ?thesis using assms by blast
qed

lemma baud: "p4_uart0_set_baud P rate hz s = Some (ok, t) \<Longrightarrow> R s t"
  using trans [OF drain trans [OF ops [OF within_peripherals(5)] update]]
  by (auto simp: p4_uart0_set_baud_def refl split: option.splits)

lemma bring_up: "bring_up P s = Some (switched, reason, t) \<Longrightarrow> R s t"
  using trans [OF ops [OF within_peripherals(1)] trans [OF analog baud]]
  by (auto simp: bring_up_def Let_def p4_wdt_disable_all_def)

end

end
