(* ===== verification/P4FlashOk.thy ===== *)
theory P4FlashOk
  imports P4Flash
begin

text \<open>
  What \<open>p4_flash.c\<close> achieves on a ROM and a cache that keep their contracts: the CRC is the CRC
  of the flash region, the copy reaches the PSRAM chip, the partition found is the first match
  of the table.
\<close>

subsection \<open>Word alignment\<close>

lemma unat_and_3: "unat (x AND 3) = unat x mod 4" for x :: u32
proof -
  have "x AND 3 = x mod 4"
    using take_bit_eq_mask [of 2 x] by (simp add: take_bit_eq_mod mask_eq_exp_minus_1)
  then show ?thesis by (simp add: unat_mod)
qed

lemma aligned_iff: "x AND 3 = 0 \<longleftrightarrow> 4 dvd unat x" for x :: u32
  using unat_and_3 [of x] by (metis dvd_eq_mod_eq_0 unat_eq_0)

lemma aligned_add: "x AND 3 = 0 \<Longrightarrow> y AND 3 = 0 \<Longrightarrow> (x + y) AND 3 = 0" for x y :: u32
  by (simp add: aligned_iff unat_word_ariths dvd_mod)

lemma round_up:
  fixes w :: u32
  assumes "unat w \<le> 4096"
  shows "unat ((w + 3) AND NOT 3) = 4 * ((unat w + 3) div 4)"
proof -
  let ?x = "w + 3"
  have x: "unat ?x = unat w + 3" using assms by (simp add: unat_word_ariths)
  have "(?x AND NOT 3) + (?x AND 3) = ?x"
    by (subst word_plus_and_or [symmetric]) (simp add: and.assoc and.left_commute flip: bit.conj_disj_distrib)
  then have "?x AND NOT 3 = ?x - (?x AND 3)" by (simp add: eq_diff_eq)
  moreover have "?x AND 3 \<le> ?x" by (simp add: word_le_nat_alt unat_and_3)
  ultimately have "unat (?x AND NOT 3) = unat ?x - unat ?x mod 4"
    by (simp add: unat_sub unat_and_3)
  then show ?thesis by (simp add: x minus_mod_eq_mult_div)
qed

subsection \<open>The chunked walk\<close>

text \<open>
  A loop body that keeps an invariant from chunk to chunk establishes it at the end; one that
  never fails makes the loop succeed.
\<close>

locale chunk_walk =
  fixes body :: "u32 \<Rightarrow> u32 \<Rightarrow> 'x \<Rightarrow> bool \<times> 'x"
    and len :: u32
    and inv :: "u32 \<Rightarrow> 'x \<Rightarrow> bool"
  assumes step: "inv pos x \<Longrightarrow> pos < len \<Longrightarrow> body pos (chunk_want len pos) x = (True, y) \<Longrightarrow>
    inv (pos + chunk_want len pos) y"
begin

lemma advance: "pos < len \<Longrightarrow> pos + chunk_want len pos \<le> len"
  using chunk_want_bounds [of pos len] by (simp add: word_le_nat_alt)

lemma closer: "pos < len \<Longrightarrow> unat len - unat (pos + chunk_want len pos) < unat len - unat pos"
  using chunk_want_bounds [of pos len] by auto

lemma walk: "chunk_loop body len pos x = (True, y) \<Longrightarrow> inv pos x \<Longrightarrow> pos \<le> len \<Longrightarrow> inv len y"
proof (induction "unat len - unat pos" arbitrary: pos x rule: less_induct)
  case less
  show ?case
  proof (cases "pos < len")
    case True
    then obtain z where z: "body pos (chunk_want len pos) x = (True, z)"
      "chunk_loop body len (pos + chunk_want len pos) z = (True, y)"
      using less.prems(1) by (subst (asm) chunk_loop.simps) (auto split: prod.splits bool.splits)
    show ?thesis
      by (rule less.hyps [OF closer [OF True] z(2) step [OF less.prems(2) True z(1)] advance [OF True]])
  next
    case False
    then show ?thesis
      using less.prems by (subst (asm) chunk_loop.simps) simp
  qed
qed

end

locale total_chunk_walk = chunk_walk +
  assumes go: "inv pos x \<Longrightarrow> pos < len \<Longrightarrow> fst (body pos (chunk_want len pos) x)"
begin

lemma walk_total: "inv pos x \<Longrightarrow> pos \<le> len \<Longrightarrow> fst (chunk_loop body len pos x)"
proof (induction "unat len - unat pos" arbitrary: pos x rule: less_induct)
  case less
  show ?case
  proof (cases "pos < len")
    case True
    then obtain z where z: "body pos (chunk_want len pos) x = (True, z)"
      using go [OF less.prems(1)] by (metis prod.collapse)
    show ?thesis
      using less.hyps [OF closer [OF True] step [OF less.prems(1) True z] advance [OF True]]
      by (subst chunk_loop.simps) (simp add: True z)
  next
    case False
    then show ?thesis by (subst chunk_loop.simps) simp
  qed
qed

end

text \<open>Chunk positions stay on word boundaries; only the last chunk may be short.\<close>

definition chunk_pos :: "u32 \<Rightarrow> u32 \<Rightarrow> bool" where
  "chunk_pos len pos = (pos \<le> len \<and> (pos = len \<or> 4096 dvd unat pos))"

lemma chunk_pos_start: "chunk_pos len 0"
  by (simp add: chunk_pos_def)

lemma chunk_pos_next:
  assumes "chunk_pos len pos" and "pos < len"
  shows "chunk_pos len (pos + chunk_want len pos)" "pos AND 3 = 0"
proof -
  have d: "4096 dvd unat pos" using assms by (auto simp: chunk_pos_def)
  then show "pos AND 3 = 0" by (auto simp: aligned_iff elim: dvd_trans [rotated])
  have "unat (len - pos) = unat len - unat pos"
    using assms unat_sub [of pos len] by (simp add: word_le_nat_alt word_less_nat_alt)
  then have "pos + chunk_want len pos = len \<or> chunk_want len pos = 4096"
    by (auto simp: chunk_want_def Let_def CHUNK_def)
  then show "chunk_pos len (pos + chunk_want len pos)"
    using chunk_want_bounds [OF assms(2)] d by (auto simp: chunk_pos_def word_le_nat_alt)
qed

subsection \<open>The CRC of a flash region\<close>

definition crc_ok :: "'d platform \<Rightarrow> buffers \<Rightarrow> mem \<Rightarrow> u32 set \<Rightarrow> (u32 \<Rightarrow> u8 list \<Rightarrow> u32) \<Rightarrow> bool" where
  "crc_ok P B F ram crcf =
     (rom_flash P F ram \<and> rom_crc P crcf \<and> s_buf B AND 3 = 0 \<and> fits (s_buf B) 4096 \<and>
      (\<forall>a. in_range (s_buf B) 4096 a \<longrightarrow> a \<in> ram))"

lemma in_range_mono: "in_range a m x \<Longrightarrow> m \<le> n \<Longrightarrow> in_range a n x"
  by (auto simp: in_range_def)

lemma fits_mono: "fits a n \<Longrightarrow> m \<le> n \<Longrightarrow> fits a m"
  by (simp add: fits_def)

lemma bytes_at_append: "bytes_at m a (i + j) = bytes_at m a i @ bytes_at m (a + of_nat i) j"
  by (rule nth_equalityI) (auto simp: bytes_at_def nth_append add.assoc simp flip: of_nat_add)

text \<open>A read through \<open>p4_flash_read\<close>, on a ROM that keeps its contract.\<close>

lemma flash_read_ok:
  assumes "rom_flash P F ram" and "off AND 3 = 0" and "dest AND 3 = 0" and "len AND 3 = 0"
    and "fits dest (unat len)" and "\<And>a. in_range dest (unat len) a \<Longrightarrow> a \<in> ram"
    and "p4_flash_read P off dest len s = (ok, s')"
  shows "chip_size P (dev s') = chip_size P (dev s) \<and>
    (ok \<longleftrightarrow> unat off + unat len \<le> unat (chip_size P (dev s))) \<and>
    log s' = log s @ [Ev_flash_read off dest len] \<and>
    dev s' = snd (spiflash_read P off dest len (dev s)) \<and>
    (ok \<longrightarrow> (\<forall>a. peek P (dev s') a = (if in_range dest (unat len) a then F (off + (a - dest)) else peek P (dev s) a)))"
proof -
  obtain r d where spi: "spiflash_read P off dest len (dev s) = (r, d)" by fastforce
  note contract = assms(1) [unfolded rom_flash_def, THEN conjunct1, rule_format, OF assms(2,3,4,5) assms(6)]
  show ?thesis
    using contract [of "dev s"] spi assms(2-4,7) by (auto simp: p4_flash_read_def)
qed

text \<open>One read into the staging buffer, rounded up to whole words.\<close>

lemma bytes_at_range:
  assumes "\<And>a. in_range d n a \<Longrightarrow> m a = F (off + (a - d))" and "fits d n"
  shows "bytes_at m d n = bytes_at F off n"
  using assms in_range_index [OF assms(2)] by (simp add: bytes_at_def)

lemma read_to_buffer:
  assumes "crc_ok P B F ram crcf" and "off AND 3 = 0" and "unat w \<le> 4096"
    and "p4_flash_read P off (s_buf B) ((w + 3) AND NOT 3) s = (ok, s')"
  shows "chip_size P (dev s') = chip_size P (dev s) \<and>
    (ok \<longleftrightarrow> unat off + 4 * ((unat w + 3) div 4) \<le> unat (chip_size P (dev s))) \<and>
    (ok \<longrightarrow> bytes_at (peek P (dev s')) (s_buf B) (unat w) = bytes_at F off (unat w) \<and>
      (\<forall>a. \<not> in_range (s_buf B) 4096 a \<longrightarrow> peek P (dev s') a = peek P (dev s) a))"
proof -
  let ?rd = "(w + 3) AND NOT 3"
  have rd: "unat ?rd = 4 * ((unat w + 3) div 4)" by (rule round_up [OF assms(3)])
  then have le: "unat ?rd \<le> 4096" "unat w \<le> unat ?rd" and al: "?rd AND 3 = 0"
    using assms(3) by (simp_all add: aligned_iff)
  note ok = assms(1) [unfolded crc_ok_def]
  have "chip_size P (dev s') = chip_size P (dev s) \<and>
    (ok \<longleftrightarrow> unat off + unat ?rd \<le> unat (chip_size P (dev s))) \<and>
    (ok \<longrightarrow> (\<forall>a. peek P (dev s') a = (if in_range (s_buf B) (unat ?rd) a then F (off + (a - s_buf B)) else peek P (dev s) a)))"
    using flash_read_ok [OF _ assms(2) _ al _ _ assms(4), of F ram] ok in_range_mono [OF _ le(1)] fits_mono [OF _ le(1)]
    by blast
  moreover have "fits (s_buf B) (unat w)" using ok assms(3) by (simp add: fits_def)
  ultimately show ?thesis
    using rd le in_range_mono by (auto intro!: bytes_at_range)
qed

definition crc_inv :: "'d platform \<Rightarrow> buffers \<Rightarrow> mem \<Rightarrow> u32 set \<Rightarrow> (u32 \<Rightarrow> u8 list \<Rightarrow> u32) \<Rightarrow> u32 \<Rightarrow> u32 \<Rightarrow>
    'd soc \<Rightarrow> u32 \<Rightarrow> u32 \<times> 'd soc \<Rightarrow> bool" where
  "crc_inv P B F ram crcf off len s0 pos x =
     (crc_ok P B F ram crcf \<and> off AND 3 = 0 \<and> chunk_pos len pos \<and>
      fst x = crcf 0 (bytes_at F off (unat pos)) \<and>
      chip_size P (dev (snd x)) = chip_size P (dev s0) \<and>
      (pos \<noteq> 0 \<longrightarrow> unat off + unat pos \<le> unat (chip_size P (dev s0))) \<and>
      (\<forall>a. \<not> in_range (s_buf B) 4096 a \<longrightarrow> peek P (dev (snd x)) a = peek P (dev s0) a))"

lemma crc_inv_room:
  assumes "crc_inv P B F ram crcf off len s0 pos x"
  shows "unat off + unat pos < 2 ^ 32"
proof (cases "pos = 0")
  case True
  then show ?thesis using unsigned_less [of off] by simp
next
  case False
  then have "unat off + unat pos \<le> unat (chip_size P (dev s0))"
    using assms by (simp add: crc_inv_def split: prod.splits)
  also have "\<dots> < 2 ^ LENGTH(32)" by (rule unsigned_less)
  finally show ?thesis by simp
qed

lemma crc_body_run:
  assumes "crc_inv P B F ram crcf off len s0 pos x" and "pos < len"
    and "crc_body P B off pos (chunk_want len pos) x = (ok, y)"
  shows "(ok \<longleftrightarrow> unat (off + pos) + 4 * ((unat (chunk_want len pos) + 3) div 4) \<le> unat (chip_size P (dev s0))) \<and>
    (ok \<longrightarrow> crc_inv P B F ram crcf off len s0 (pos + chunk_want len pos) y)"
proof -
  let ?w = "chunk_want len pos"
  obtain crc s where x: "x = (crc, s)" by (cases x)
  obtain r s' where read: "p4_flash_read P (off + pos) (s_buf B) ((?w + 3) AND NOT 3) s = (r, s')"
    by fastforce
  obtain crc' d where crc: "crc32_le P crc (s_buf B) ?w (dev s') = (crc', d)" by fastforce
  have inv: "crc_ok P B F ram crcf" "off AND 3 = 0" "chunk_pos len pos"
      "crc = crcf 0 (bytes_at F off (unat pos))" "chip_size P (dev s) = chip_size P (dev s0)"
    and frame: "\<And>a. \<not> in_range (s_buf B) 4096 a \<Longrightarrow> peek P (dev s) a = peek P (dev s0) a"
    using assms(1) by (auto simp: crc_inv_def x)
  have w: "unat ?w \<le> 4096" "unat (pos + ?w) = unat pos + unat ?w"
    using chunk_want_bounds [OF assms(2)] by auto
  have al: "(off + pos) AND 3 = 0"
    using inv(2) chunk_pos_next(2) [OF inv(3) assms(2)] by (rule aligned_add)
  note buf = read_to_buffer [OF inv(1) al w(1) read]
  have "crc32_le P c a n d0 = (c', d') \<Longrightarrow> c' = crcf c (bytes_at (peek P d0) a (unat n)) \<and>
      peek P d' = peek P d0 \<and> chip_size P d' = chip_size P d0" for c a n d0 c' d'
    using inv(1) unfolding crc_ok_def rom_crc_def by (metis (mono_tags, lifting) case_prod_conv)
  note crc' = this [OF crc]
  have chain: "crcf (crcf 0 (bytes_at F off (unat pos))) (bytes_at F (off + pos) (unat ?w)) =
      crcf 0 (bytes_at F off (unat (pos + ?w)))"
    using inv(1) by (simp add: crc_ok_def rom_crc_def w(2) bytes_at_append)
  have y: "ok = r" "ok \<Longrightarrow> y = (crc', s'\<lparr>dev := d\<rparr>)"
    using assms(3) read crc by (auto simp: crc_body_def x split: bool.splits)
  have room: "unat off + unat (pos + ?w) \<le> unat (chip_size P (dev s0))" if ok
  proof -
    have "unat off + unat pos < 2 ^ 32" by (rule crc_inv_room [OF assms(1)])
    then have "unat (off + pos) = unat off + unat pos" by (simp add: unat_word_ariths)
    moreover have "unat (off + pos) + 4 * ((unat ?w + 3) div 4) \<le> unat (chip_size P (dev s0))"
      using that y(1) buf inv(5) by simp
    ultimately show ?thesis using w(2) by linarith
  qed
  have "crc_inv P B F ram crcf off len s0 (pos + ?w) y" if ok
    using that y buf crc' chain inv frame room chunk_pos_next(1) [OF inv(3) assms(2)]
    by (simp add: crc_inv_def)
  then show ?thesis using y(1) buf inv(5) by simp
qed

definition within_chip :: "'d platform \<Rightarrow> u32 \<Rightarrow> u32 \<Rightarrow> 'd soc \<Rightarrow> bool" where
  "within_chip P off len s =
     (unat off + unat len \<le> unat (chip_size P (dev s)) \<and> 4 dvd unat (chip_size P (dev s)))"

lemma round_up_within:
  assumes "(4 :: nat) dvd a" and "4 dvd c" and "a + w \<le> c"
  shows "a + 4 * ((w + 3) div 4) \<le> c"
proof -
  obtain i j where "a = 4 * i" "c = 4 * j" using assms(1,2) by (auto elim!: dvdE)
  then show ?thesis using assms(3) by presburger
qed

interpretation crc: chunk_walk "crc_body P B off" len "crc_inv P B F ram crcf off len s0"
  for P :: "'d platform" and B off len F ram crcf s0
  by unfold_locales (use crc_body_run in blast)

interpretation crc_total: total_chunk_walk "crc_body P B off" len
    "\<lambda>pos x. crc_inv P B F ram crcf off len s0 pos x \<and> within_chip P off len s0"
  for P :: "'d platform" and B off len F ram crcf s0
proof (unfold_locales, goal_cases)
  case (1 pos x y)
  then show ?case using crc_body_run by blast
next
  case (2 pos x)
  then have inv: "crc_inv P B F ram crcf off len s0 pos x" and room: "within_chip P off len s0"
    and pos: "pos < len" by auto
  let ?w = "chunk_want len pos"
  have w: "unat pos + unat ?w \<le> unat len" using chunk_want_bounds [OF pos] by simp
  have "4 dvd unat (off + pos)"
    using inv chunk_pos_next(2) [OF _ pos] aligned_add by (auto simp: crc_inv_def simp flip: aligned_iff)
  moreover have "unat (off + pos) \<le> unat off + unat pos" by (simp add: unat_word_ariths)
  then have "unat (off + pos) + unat ?w \<le> unat (chip_size P (dev s0))"
    using w room by (simp add: within_chip_def)
  ultimately have "unat (off + pos) + 4 * ((unat ?w + 3) div 4) \<le> unat (chip_size P (dev s0))"
    using room by (intro round_up_within) (auto simp: within_chip_def)
  then show ?case using crc_body_run [OF inv pos] by (metis prod.collapse)
qed

lemma flash_crc32_result:
  assumes "crc_ok P B F ram crcf" and "p4_flash_crc32 P B off len s = (res, s')"
  shows "(\<forall>crc. res = Some crc \<longrightarrow> crc = crcf 0 (bytes_at F off (unat len)) \<and>
      (\<forall>a. \<not> in_range (s_buf B) 4096 a \<longrightarrow> peek P (dev s') a = peek P (dev s) a) \<and>
      (len \<noteq> 0 \<longrightarrow> unat off + unat len \<le> unat (chip_size P (dev s))) \<and>
      chip_size P (dev s') = chip_size P (dev s)) \<and>
    (off AND 3 = 0 \<and> within_chip P off len s \<longrightarrow> res \<noteq> None) \<and>
    (off AND 3 \<noteq> 0 \<longrightarrow> res = None \<and> s' = s)"
proof (cases "off AND 3 = 0")
  case True
  have start: "crc_inv P B F ram crcf off len s 0 (0, s)"
    using assms(1) True by (simp add: crc_inv_def chunk_pos_start bytes_at_def crc_ok_def rom_crc_def)
  obtain ok crc s1 where run: "chunk_loop (crc_body P B off) len 0 (0, s) = (ok, crc, s1)"
    by (cases "chunk_loop (crc_body P B off) len 0 (0, s)") auto
  then have res: "res = (if ok then Some crc else None)" "s' = s1"
    using assms(2) True by (auto simp: p4_flash_crc32_def split: bool.splits)
  have "within_chip P off len s \<Longrightarrow> ok"
    using crc_total.walk_total [of P B F ram crcf off len s 0 "(0, s)"] start run by simp
  moreover have "crc_inv P B F ram crcf off len s len (crc, s1)" if ok
    using crc.walk [of P B off len 0 "(0, s)" "(crc, s1)" F ram crcf s] run start that by simp
  ultimately show ?thesis using res True by (auto simp: crc_inv_def)
next
  case False
  then show ?thesis using assms(2) by (auto simp: p4_flash_crc32_def)
qed

text \<open>
  C17: whatever the length, the CRC of a flash region computed through the 4 KB staging buffer is
  the CRC of its bytes, if the code returns one at all; it does for every word-aligned region
  within the chip size the ROM was told (16 MB after \<open>p4_flash_init\<close>), never for a region that
  ends outside it, and refuses an unaligned one. Memory other than the staging buffer is unchanged.
\<close>

theorem flash_crc32_correct:
  assumes "crc_ok P B F ram crcf" and "p4_flash_crc32 P B off len s = (res, s')"
  shows "(\<forall>crc. res = Some crc \<longrightarrow> crc = crcf 0 (bytes_at F off (unat len)) \<and>
      (\<forall>a. \<not> in_range (s_buf B) 4096 a \<longrightarrow> peek P (dev s') a = peek P (dev s) a) \<and>
      (len \<noteq> 0 \<longrightarrow> unat off + unat len \<le> unat (chip_size P (dev s))) \<and>
      chip_size P (dev s') = chip_size P (dev s)) \<and>
    (off AND 3 = 0 \<and> within_chip P off len s \<longrightarrow> res \<noteq> None) \<and>
    (off AND 3 \<noteq> 0 \<longrightarrow> res = None \<and> s' = s)"
  using assms by (rule flash_crc32_result)

subsection \<open>The copy\<close>

lemma chunk_want_aligned:
  assumes "len AND 3 = 0" and "pos AND 3 = 0" and "pos < len"
  shows "chunk_want len pos AND 3 = 0"
proof -
  have "unat (len - pos) = unat len - unat pos"
    using assms(3) unat_sub [of pos len] by (simp add: word_le_nat_alt word_less_nat_alt)
  then have "(len - pos) AND 3 = 0" using assms(1,2) by (simp add: aligned_iff dvd_diff_nat)
  then show ?thesis by (simp add: chunk_want_def Let_def CHUNK_def)
qed

lemma in_range_part:
  assumes "fits d n" and "unat p + k \<le> n" and "0 < k"
  shows "in_range (d + p) k a \<longleftrightarrow> unat d + unat p \<le> unat a \<and> unat a < unat d + unat p + k"
    and "fits (d + p) k"
proof -
  have "unat (d + p) = unat d + unat p"
    using assms by (simp add: fits_def unat_word_ariths)
  then show "in_range (d + p) k a \<longleftrightarrow> unat d + unat p \<le> unat a \<and> unat a < unat d + unat p + k"
    "fits (d + p) k" using assms(1,2) by (auto simp: in_range_def fits_def)
qed

definition copy_ok :: "'d platform \<Rightarrow> ('d \<Rightarrow> mem) \<Rightarrow> mem \<Rightarrow> u32 set \<Rightarrow> u32 \<Rightarrow> u32 \<Rightarrow> bool" where
  "copy_ok P chip F ram dest len =
     (rom_flash P F ram \<and> cached_memory P chip \<and> dest AND 63 = 0 \<and> len AND 63 = 0 \<and>
      fits dest (unat len) \<and> (\<forall>a. in_range dest (unat len) a \<longrightarrow> a \<in> ram))"

definition copy_inv :: "'d platform \<Rightarrow> ('d \<Rightarrow> mem) \<Rightarrow> mem \<Rightarrow> u32 set \<Rightarrow> u32 \<Rightarrow> u32 \<Rightarrow> u32 \<Rightarrow>
    'd soc \<Rightarrow> u32 \<Rightarrow> 'd soc \<Rightarrow> bool" where
  "copy_inv P chip F ram off dest len s0 pos s =
     (copy_ok P chip F ram dest len \<and> off AND 3 = 0 \<and> chunk_pos len pos \<and>
      chip_size P (dev s) = chip_size P (dev s0) \<and>
      (\<forall>a. peek P (dev s) a = (if in_range dest (unat pos) a then F (off + (a - dest)) else peek P (dev s0) a)) \<and>
      (\<forall>a. \<not> in_range dest (unat len) a \<longrightarrow> evicts P chip (dev s0) (dev s) a))"

lemma aligned_64: "x AND 63 = 0 \<Longrightarrow> x AND 3 = 0" for x :: u32
proof -
  assume "x AND 63 = 0"
  then have "(x AND 63) AND 3 = 0" by simp
  then show ?thesis by (simp add: and.assoc)
qed

lemma copy_body_run:
  assumes "copy_inv P chip F ram off dest len s0 pos s" and "pos < len"
    and "copy_body P off dest pos (chunk_want len pos) s = (ok, s')"
  shows "(ok \<longleftrightarrow> unat (off + pos) + unat (chunk_want len pos) \<le> unat (chip_size P (dev s0))) \<and>
    (ok \<longrightarrow> copy_inv P chip F ram off dest len s0 (pos + chunk_want len pos) s')"
proof -
  let ?w = "chunk_want len pos"
  note inv = assms(1) [unfolded copy_inv_def copy_ok_def]
  have w: "0 < unat ?w" "unat pos + unat ?w \<le> unat len" "unat (pos + ?w) = unat pos + unat ?w"
    using chunk_want_bounds [OF assms(2)] by auto
  have al: "(off + pos) AND 3 = 0" "(dest + pos) AND 3 = 0" "?w AND 3 = 0" "len AND 3 = 0"
    using inv chunk_pos_next(2) [OF _ assms(2)] aligned_64 aligned_add chunk_want_aligned [OF _ _ assms(2)]
    by blast+
  note part = in_range_part [OF _ w(2,1), of dest]
  have sub: "in_range (dest + pos) (unat ?w) a \<Longrightarrow> in_range dest (unat len) a" for a
    using part(1) inv w(2) by (auto simp: in_range_def)
  have grow: "in_range dest (unat (pos + ?w)) a \<longleftrightarrow>
      in_range dest (unat pos) a \<or> in_range (dest + pos) (unat ?w) a" for a
    using part(1) inv w(3) by (auto simp: in_range_def)
  have read: "chip_size P (dev s') = chip_size P (dev s) \<and>
    (ok \<longleftrightarrow> unat (off + pos) + unat ?w \<le> unat (chip_size P (dev s))) \<and>
    (ok \<longrightarrow> (\<forall>a. peek P (dev s') a =
      (if in_range (dest + pos) (unat ?w) a then F (off + pos + (a - (dest + pos))) else peek P (dev s) a)))"
    using flash_read_ok [OF _ al(1,2,3) _ _ assms(3) [unfolded copy_body_def], of F ram] inv part(2) sub by blast
  have dev: "dev s' = snd (spiflash_read P (off + pos) (dest + pos) ?w (dev s))"
    using flash_read_ok [OF _ al(1,2,3) _ _ assms(3) [unfolded copy_body_def], of F ram] inv part(2) sub by blast
  have evict: "evicts P chip (dev s0) (dev s') a" if out: "\<not> in_range dest (unat len) a" for a
  proof -
    have "evicts P chip (dev s) (dev s') a"
      using inv dev sub out unfolding cached_memory_def by metis
    moreover have "evicts P chip (dev s0) (dev s) a" "peek P (dev s) a = peek P (dev s0) a"
      using inv out w in_range_mono [of dest "unat pos" a "unat len"] by auto
    ultimately show ?thesis by (auto simp: evicts_def)
  qed
  have "copy_inv P chip F ram off dest len s0 (pos + ?w) s'" if ok
    unfolding copy_inv_def copy_ok_def grow
    using inv read that evict chunk_pos_next(1) [OF _ assms(2)] by auto
  then show ?thesis using read inv by simp
qed

interpretation copy: chunk_walk "copy_body P off dest" len "copy_inv P chip F ram off dest len s0"
  for P :: "'d platform" and off dest len chip F ram s0
  by unfold_locales (use copy_body_run in blast)

interpretation copy_total: total_chunk_walk "copy_body P off dest" len
    "\<lambda>pos s. copy_inv P chip F ram off dest len s0 pos s \<and> within_chip P off len s0"
  for P :: "'d platform" and off dest len chip F ram s0
proof (unfold_locales, goal_cases)
  case (1 pos x y)
  then show ?case using copy_body_run by blast
next
  case (2 pos s)
  then have inv: "copy_inv P chip F ram off dest len s0 pos s" and room: "within_chip P off len s0"
    and pos: "pos < len" by auto
  let ?w = "chunk_want len pos"
  have "unat pos + unat ?w \<le> unat len" using chunk_want_bounds [OF pos] by simp
  moreover have "unat (off + pos) \<le> unat off + unat pos" by (simp add: unat_word_ariths)
  ultimately have "unat (off + pos) + unat ?w \<le> unat (chip_size P (dev s0))"
    using room by (simp add: within_chip_def)
  then show ?case using copy_body_run [OF inv pos] by (metis prod.collapse)
qed

text \<open>Writing back and then invalidating a range that the CPU sees as \<open>v\<close> puts \<open>v\<close> on the chip.\<close>

lemma writeback_invalidate:
  fixes d :: 'd
  assumes "cached_memory P chip" and "a AND 63 = 0" and "n AND 63 = 0"
  defines "d' \<equiv> cache_invalidate_addr P a n (cache_writeback_addr P a n d)"
  shows "peek P d' x = peek P d x" and "in_range a (unat n) x \<Longrightarrow> chip d' x = peek P d x"
    and "evicts P chip d d' x" and "chip_size P d' = chip_size P d"
proof -
  note wb = assms(1) [unfolded cached_memory_def, THEN conjunct1, rule_format, OF assms(2,3)]
  note iv = assms(1) [unfolded cached_memory_def, THEN conjunct2, THEN conjunct1, rule_format, OF assms(2,3)]
  have wb': "peek P (cache_writeback_addr P a n d) = peek P d"
    "in_range a (unat n) x \<Longrightarrow> chip (cache_writeback_addr P a n d) x = peek P d x"
    "\<not> in_range a (unat n) x \<Longrightarrow> evicts P chip d (cache_writeback_addr P a n d) x"
    using wb [of d] by (auto split: if_splits)
  have iv': "chip d' = chip (cache_writeback_addr P a n d)"
    "peek P d' x = (if in_range a (unat n) x then chip (cache_writeback_addr P a n d) x
       else peek P (cache_writeback_addr P a n d) x)"
    using iv [of "cache_writeback_addr P a n d"] by (simp_all add: d'_def)
  show "in_range a (unat n) x \<Longrightarrow> chip d' x = peek P d x" using wb' iv' by simp
  show "peek P d' x = peek P d x" "evicts P chip d d' x"
    using wb' iv' by (cases "in_range a (unat n) x"; simp add: evicts_def)+
  show "chip_size P d' = chip_size P d" using assms(1) by (simp add: cached_memory_def d'_def)
qed

lemma flash_copy_result:
  assumes "copy_ok P chip F ram dest len" and "p4_flash_copy P off len dest s = (ok, s')"
  shows "(ok \<longrightarrow> bytes_at (chip (dev s')) dest (unat len) = bytes_at F off (unat len) \<and>
      bytes_at (peek P (dev s')) dest (unat len) = bytes_at F off (unat len) \<and>
      (\<forall>a. \<not> in_range dest (unat len) a \<longrightarrow>
        peek P (dev s') a = peek P (dev s) a \<and> evicts P chip (dev s) (dev s') a) \<and>
      chip_size P (dev s') = chip_size P (dev s)) \<and>
    (off AND 3 = 0 \<and> within_chip P off len s \<longrightarrow> ok) \<and>
    (off AND 3 \<noteq> 0 \<longrightarrow> \<not> ok \<and> s' = s)"
proof (cases "off AND 3 = 0")
  case True
  note given = assms(1) [unfolded copy_ok_def]
  have dest: "dest AND 3 = 0" using given aligned_64 by blast
  have start: "copy_inv P chip F ram off dest len s 0 s"
    using assms(1) True by (simp add: copy_inv_def chunk_pos_start evicts_def)
  obtain done_ok s1 where run: "chunk_loop (copy_body P off dest) len 0 s = (done_ok, s1)" by fastforce
  then have res: "ok = done_ok" and s': "ok \<Longrightarrow> dev s' =
      cache_invalidate_addr P dest len (cache_writeback_addr P dest len (dev s1))"
    using assms(2) True dest by (auto simp: p4_flash_copy_def split: bool.splits)
  have total: "within_chip P off len s \<Longrightarrow> ok"
    using copy_total.walk_total [of P chip F ram off dest len s 0 s] start run res by simp
  have "copy_inv P chip F ram off dest len s len s1" if ok
    using copy.walk [of P off dest len 0 s s1 chip F ram s] run start that res by simp
  then have inv: "ok \<Longrightarrow> chip_size P (dev s1) = chip_size P (dev s) \<and>
      (\<forall>a. peek P (dev s1) a = (if in_range dest (unat len) a then F (off + (a - dest)) else peek P (dev s) a)) \<and>
      (\<forall>a. \<not> in_range dest (unat len) a \<longrightarrow> evicts P chip (dev s) (dev s1) a)"
    by (auto simp: copy_inv_def)
  note wi = writeback_invalidate [where P = P and chip = chip and a = dest and n = len and d = "dev s1"]
  have after: "ok \<Longrightarrow> chip_size P (dev s') = chip_size P (dev s1) \<and>
      (\<forall>a. peek P (dev s') a = peek P (dev s1) a) \<and>
      (\<forall>a. in_range dest (unat len) a \<longrightarrow> chip (dev s') a = peek P (dev s1) a) \<and>
      (\<forall>a. evicts P chip (dev s1) (dev s') a)"
    using wi given s' by simp
  have "evicts P chip (dev s) (dev s') a" if ok "\<not> in_range dest (unat len) a" for a
    using inv [OF that(1)] after [OF that(1)] that(2) unfolding evicts_def by metis
  moreover have "bytes_at m dest (unat len) = bytes_at F off (unat len)"
    if "\<And>a. in_range dest (unat len) a \<Longrightarrow> m a = F (off + (a - dest))" for m
    using that given by (intro bytes_at_range) auto
  ultimately show ?thesis using True total inv after by auto
next
  case False
  then show ?thesis using assms(2) by (auto simp: p4_flash_copy_def)
qed

text \<open>
  C15: when \<open>p4_flash_copy\<close> reports success, the PSRAM chip itself (not just the cache) holds the
  flash region, and the CPU reads the same; nothing else the CPU can read has changed. It reports
  success for every word-aligned region within the chip size.
\<close>

theorem flash_copy_reaches_chip:
  assumes "copy_ok P chip F ram dest len" and "p4_flash_copy P off len dest s = (ok, s')"
  shows "(ok \<longrightarrow> bytes_at (chip (dev s')) dest (unat len) = bytes_at F off (unat len) \<and>
      bytes_at (peek P (dev s')) dest (unat len) = bytes_at F off (unat len) \<and>
      (\<forall>a. \<not> in_range dest (unat len) a \<longrightarrow>
        peek P (dev s') a = peek P (dev s) a \<and> evicts P chip (dev s) (dev s') a) \<and>
      chip_size P (dev s') = chip_size P (dev s)) \<and>
    (off AND 3 = 0 \<and> within_chip P off len s \<longrightarrow> ok) \<and>
    (off AND 3 \<noteq> 0 \<longrightarrow> \<not> ok \<and> s' = s)"
  using assms by (rule flash_copy_result)

subsection \<open>The partition table\<close>

text \<open>The abstract table: the entries up to the first that is neither real nor a checksum.\<close>

fun real_entries :: "p4_part_entry list \<Rightarrow> p4_part_entry list" where
  "real_entries [] = []"
| "real_entries (e # es) =
     (if magic e = P4_PART_MAGIC_MD5 then real_entries es
      else if magic e = P4_PART_MAGIC then e # real_entries es
      else [])"

definition flash_entry :: "mem \<Rightarrow> nat \<Rightarrow> p4_part_entry" where
  "flash_entry F i = entry_at F (P4_PART_TABLE_OFFSET + of_nat i * 32)"

definition part_table :: "mem \<Rightarrow> p4_part_entry list" where
  "part_table F = real_entries (map (flash_entry F) [0..<P4_PART_MAX_ENTRIES])"

fun visit_all :: "('e \<Rightarrow> 'c \<Rightarrow> bool \<times> 'c) \<Rightarrow> 'e list \<Rightarrow> 'c \<Rightarrow> 'c" where
  "visit_all visit [] c = c"
| "visit_all visit (e # es) c = (case visit e c of (False, c') \<Rightarrow> c' | (True, c') \<Rightarrow> visit_all visit es c')"

lemma visit_all_find:
  "visit_all (find_visit t u) es None = map_option
     (\<lambda>e. \<lparr>part_offset = poffset e, part_size = psize e, part_label = plabel e @ [0]\<rparr>)
     (find (\<lambda>e. ptype e = t \<and> subtype e = u) es)"
  by (induction es) (simp_all add: find_visit_def)

lemma visit_all_dump: "visit_all dump_visit es shown = shown @ es"
  by (induction es arbitrary: shown) (simp_all add: dump_visit_def)

lemma entry_at_cong:
  assumes "\<And>k. k < 32 \<Longrightarrow> m (a + of_nat k) = F (b + of_nat k)"
  shows "entry_at m a = entry_at F b"
proof -
  have "m (a + numeral k) = F (b + numeral k)" if "numeral k < (32 :: nat)" for k
    using assms [OF that] by simp
  moreover have "m a = F b" "m (a + 1) = F (b + 1)" using assms [of 0] assms [of 1] by simp_all
  moreover have "bytes_at m (a + 12) 16 = bytes_at F (b + 12) 16"
  proof (rule nth_equalityI)
    fix i assume "i < length (bytes_at m (a + 12) 16)"
    then show "bytes_at m (a + 12) 16 ! i = bytes_at F (b + 12) 16 ! i"
      using assms [of "12 + i"] by (simp add: bytes_at_def add.assoc)
  qed (simp add: bytes_at_def)
  ultimately show ?thesis by (simp add: entry_at_def u16_le_def u32_le_def add.assoc)
qed

definition table_ok :: "'d platform \<Rightarrow> buffers \<Rightarrow> mem \<Rightarrow> u32 set \<Rightarrow> bool" where
  "table_ok P B F ram =
     (rom_flash P F ram \<and> entry_buf B AND 3 = 0 \<and> fits (entry_buf B) 32 \<and>
      (\<forall>a. in_range (entry_buf B) 32 a \<longrightarrow> a \<in> ram))"

definition only_entry_buf :: "'d platform \<Rightarrow> buffers \<Rightarrow> 'd soc \<Rightarrow> 'd soc \<Rightarrow> bool" where
  "only_entry_buf P B s s' =
     (chip_size P (dev s') = chip_size P (dev s) \<and>
      (\<forall>a. \<not> in_range (entry_buf B) 32 a \<longrightarrow> peek P (dev s') a = peek P (dev s) a))"

lemma read_entry:
  assumes "table_ok P B F ram" and "i < 128" and "0x9000 \<le> chip_size P (dev s)"
    and "p4_flash_read P (P4_PART_TABLE_OFFSET + of_nat i * 32) (entry_buf B) 32 s = (ok, s')"
  shows "ok \<and> entry_at (peek P (dev s')) (entry_buf B) = flash_entry F i \<and> only_entry_buf P B s s'"
proof -
  let ?off = "P4_PART_TABLE_OFFSET + of_nat i * 32"
  have off: "unat ?off = 0x8000 + i * 32"
    using assms(2) by (simp add: const_defs unat_word_ariths unat_of_nat)
  then have al: "?off AND 3 = 0" by (simp add: aligned_iff)
  have "unat ?off + 32 \<le> unat (chip_size P (dev s))"
    using off assms(2,3) by (simp add: word_le_nat_alt)
  then have read: "ok" "chip_size P (dev s') = chip_size P (dev s)"
    and "\<And>a. peek P (dev s') a =
      (if in_range (entry_buf B) 32 a then F (?off + (a - entry_buf B)) else peek P (dev s) a)"
    using flash_read_ok [of P F ram ?off "entry_buf B" 32 s ok s'] al assms(1,4) by (auto simp: table_ok_def)
  moreover have "in_range (entry_buf B) 32 (entry_buf B + of_nat k)" if "k < 32" for k
    using in_range_index [of "entry_buf B" 32 k] assms(1) that by (simp add: table_ok_def)
  ultimately show ?thesis
    by (auto simp: flash_entry_def only_entry_buf_def intro!: entry_at_cong)
qed

lemma part_walk_table:
  assumes "table_ok P B F ram" and "\<forall>i \<in> set is. i < 128" and "0x9000 \<le> chip_size P (dev s)"
  shows "\<exists>s'. part_walk_from P B visit is ctx s =
      (True, visit_all visit (real_entries (map (flash_entry F) is)) ctx, s') \<and> only_entry_buf P B s s'"
  using assms(2,3)
proof (induction "is" arbitrary: ctx s)
  case (Cons i "is")
  obtain ok s1 where read: "p4_flash_read P (P4_PART_TABLE_OFFSET + of_nat i * 32) (entry_buf B) 32 s = (ok, s1)"
    by fastforce
  note entry = read_entry [OF assms(1) _ Cons.prems(2) read]
  have s1: "ok" "entry_at (peek P (dev s1)) (entry_buf B) = flash_entry F i" "only_entry_buf P B s s1"
    using entry Cons.prems(1) by auto
  then have "0x9000 \<le> chip_size P (dev s1)" using Cons.prems(2) by (simp add: only_entry_buf_def)
  then have rest: "\<exists>s'. part_walk_from P B visit is c s1 =
      (True, visit_all visit (real_entries (map (flash_entry F) is)) c, s') \<and> only_entry_buf P B s1 s'" for c
    using Cons.IH Cons.prems(1) by simp
  have trans: "only_entry_buf P B s1 s' \<Longrightarrow> only_entry_buf P B s s'" for s'
    using s1(3) by (simp add: only_entry_buf_def)
  obtain go ctx' where visit: "visit (flash_entry F i) ctx = (go, ctx')" by fastforce
  show ?case
    using rest [of ctx] rest [of ctx'] trans s1 visit
    by (auto simp: read Let_def split: bool.splits)
qed (simp add: only_entry_buf_def)

lemma part_find_result:
  assumes "table_ok P B F ram" and "0x9000 \<le> chip_size P (dev s)"
    and "p4_part_find P B typ sub s = (res, s')"
  shows "res = map_option (\<lambda>e. \<lparr>part_offset = poffset e, part_size = psize e, part_label = plabel e @ [0]\<rparr>)
      (find (\<lambda>e. ptype e = typ \<and> subtype e = sub) (part_table F)) \<and>
    fst (p4_part_dump P B s) = part_table F \<and> only_entry_buf P B s s'"
proof -
  have "\<forall>i \<in> set [0..<P4_PART_MAX_ENTRIES]. i < 128" by (simp add: const_defs)
  note walk = part_walk_table [OF assms(1) this assms(2), folded part_table_def part_walk_def]
  show ?thesis
    using walk [of "find_visit typ sub" None] walk [of dump_visit "[]"] assms(3)
    by (auto simp: p4_part_find_def p4_part_dump_def visit_all_find visit_all_dump)
qed

text \<open>
  C19: the partition found is the first entry of the table with the type and subtype asked for,
  and the dump shows the whole table: checksum entries are skipped, anything else ends it. The
  walk changes no memory but its one-entry buffer.
\<close>

theorem part_find_first:
  assumes "table_ok P B F ram" and "0x9000 \<le> chip_size P (dev s)"
    and "p4_part_find P B typ sub s = (res, s')"
  shows "res = map_option (\<lambda>e. \<lparr>part_offset = poffset e, part_size = psize e, part_label = plabel e @ [0]\<rparr>)
      (find (\<lambda>e. ptype e = typ \<and> subtype e = sub) (part_table F)) \<and>
    fst (p4_part_dump P B s) = part_table F \<and> only_entry_buf P B s s'"
  using assms by (rule part_find_result)

end
