(* ===== verification/BootOk.thy ===== *)
theory BootOk
  imports BootEffects P4FlashOk
begin

text \<open>
  What a boot achieves. On a machine whose PSRAM may store anything, Linux is entered only with a
  kernel and a device tree in memory whose CRCs are those of the flash partitions.
  On a machine that keeps all the contracts of \<open>P4Platform\<close>, the boot
  reaches Linux, and the PSRAM chip holds the partitions.
\<close>

subsection \<open>Contracts of the rest of the machine\<close>

text \<open>Device accesses leave an observation (what the CPU reads in memory, the ROM's chip size) alone.\<close>

definition quiet :: "'d platform \<Rightarrow> ('d \<Rightarrow> 'o) \<Rightarrow> bool" where
  "quiet P obs =
     ((\<forall>a d. obs (snd (bus_read P a d)) = obs d) \<and>
      (\<forall>a \<in> peripherals. \<forall>v d. obs (bus_write P a v d) = obs d) \<and>
      (\<forall>n d. obs (delay_us P n d) = obs d) \<and>
      (\<forall>g sig x y d. obs (gpio_connect_out P g sig x y d) = obs d) \<and>
      (\<forall>g sig x d. obs (gpio_connect_in P g sig x d) = obs d))"

text \<open>
  Stores stay where they are aimed: whatever a flash read delivers, it changes its destination
  only, and invalidating a range changes nothing below it. What ends up inside is left open.
\<close>

definition stores_aimed :: "'d platform \<Rightarrow> bool" where
  "stores_aimed P =
     ((\<forall>off dest len d x. \<not> in_range dest (unat len) x \<longrightarrow>
        peek P (snd (spiflash_read P off dest len d)) x = peek P d x) \<and>
      (\<forall>a n d. peek P (cache_writeback_addr P a n d) = peek P d) \<and>
      (\<forall>a n d x. a AND 63 = 0 \<longrightarrow> unat x < unat a \<longrightarrow> peek P (cache_invalidate_addr P a n d) x = peek P d x) \<and>
      (\<forall>d. peek P (cache_writeback_all P d) = peek P d))"

interpretation kept: device_effects P "\<lambda>s s'. quiet P obs \<longrightarrow> obs (dev s') = obs (dev s)"
  for P :: "'d platform" and obs :: "'d \<Rightarrow> 'o"
proof (unfold_locales, goal_cases)
  case (3 a s v t)
  then show ?case by (cases "bus_read P a (dev s)") (auto simp: quiet_def reg_read_def dest!: spec [of _ a] spec [of _ "dev s"])
qed (auto simp: quiet_def reg_write_def ets_delay_us_def gpio_out_def gpio_in_def)

subsection \<open>The stages of a boot that jumps\<close>

definition found :: "p4_part_entry \<Rightarrow> p4_partition" where
  "found e = \<lparr>part_offset = poffset e, part_size = psize e, part_label = plabel e @ [0]\<rparr>"

definition find_part :: "mem \<Rightarrow> u8 \<Rightarrow> p4_part_entry option" where
  "find_part F typ = find (\<lambda>e. ptype e = typ \<and> subtype e = P4_PART_SUBTYPE_NONE) (part_table F)"

lemma boot_jumped_stages:
  assumes "boot_main P B s = Some (Jumped, t)"
  obtains switched reason s1 kpart dpart s2 kcrc dcrc s3 n s4 s5 s6
  where "bring_up P s = Some (switched, reason, s1)" and "locate P B s1 = (Inr (kpart, dpart), s2)"
    and "checksum P B (kpart, dpart) s2 = (Inr (kcrc, dcrc), s3)" and "prepare_psram P s3 = (Inr n, s4)"
    and "load_payload P Kernel kpart kcrc s4 = (Inr (), s5)" and "load_payload P Dtb dpart dcrc s5 = (Inr (), s6)"
    and "t = hand_over P (set_up_devices P s6)"
  using assms unfolding boot_main_def boot_from_flash_def proceed_def
  by (auto split: option.splits prod.splits sum.splits unit.splits)

text \<open>The payloads found are the first entries of the table, read through the 16 MB chip.\<close>

lemma selftest_size:
  assumes "crc_ok P B F ram crcf" and "p4_flash_selftest P B s = (True, t)"
  shows "chip_size P (dev t) = chip_size P (dev s)"
proof -
  obtain a u b v where runs: "p4_flash_crc32 P B 0x20000 0x10000 s = (a, u)"
      "p4_flash_crc32 P B 0x20000 0x10000 u = (b, v)" by fastforce
  show ?thesis
    using assms(2) flash_crc32_result [OF assms(1) runs(1)] flash_crc32_result [OF assms(1) runs(2)]
    by (auto simp: p4_flash_selftest_def Let_def runs split: option.splits)
qed

lemma dump_size:
  assumes "table_ok P B F ram" and "0x9000 \<le> chip_size P (dev s)" and "p4_part_dump P B s = (shown, t)"
  shows "chip_size P (dev t) = chip_size P (dev s)"
proof -
  have "\<forall>i \<in> set [0..<P4_PART_MAX_ENTRIES]. i < 128" by (simp add: const_defs)
  from part_walk_table [OF assms(1) this assms(2), of dump_visit "[]"] assms(3) show ?thesis
    by (auto simp: p4_part_dump_def part_walk_def only_entry_buf_def)
qed

lemma locate_found:
  assumes "crc_ok P B F ram crcf" and "table_ok P B F ram" and "locate P B s = (Inr (kpart, dpart), t)"
  shows "(\<exists>k d. find_part F P4_PART_TYPE_KERNEL = Some k \<and> find_part F P4_PART_TYPE_DTB = Some d \<and>
      kpart = found k \<and> dpart = found d) \<and> chip_size P (dev t) = P4_FLASH_SIZE"
proof -
  obtain ok u where init: "p4_flash_init P s = (ok, u)" by fastforce
  obtain ok1 v where test: "p4_flash_selftest P B u = (ok1, v)" by fastforce
  obtain shown w where dump: "p4_part_dump P B v = (shown, w)" by fastforce
  obtain k x where kern: "p4_part_find P B P4_PART_TYPE_KERNEL P4_PART_SUBTYPE_NONE w = (k, x)" by fastforce
  obtain d y where tree: "p4_part_find P B P4_PART_TYPE_DTB P4_PART_SUBTYPE_NONE x = (d, y)" by fastforce
  have run: "ok" "ok1" "k = Some kpart" "d = Some dpart" "t = y"
    using assms(3) by (auto simp: locate_def init test dump kern tree split: bool.splits option.splits)
  have "chip_size P (dev u) = P4_FLASH_SIZE" using init run(1) by (auto simp: p4_flash_init_def Let_def)
  then have v: "chip_size P (dev v) = P4_FLASH_SIZE" using selftest_size [OF assms(1)] test run(2) by simp
  have w: "chip_size P (dev w) = P4_FLASH_SIZE"
    using dump_size [OF assms(2) _ dump] v by (simp add: const_defs)
  have big: "0x9000 \<le> P4_FLASH_SIZE" by (simp add: const_defs)
  note find_k = part_find_result [OF assms(2) _ kern] and find_d = part_find_result [OF assms(2) _ tree]
  have "map_option found (find_part F P4_PART_TYPE_KERNEL) = Some kpart \<and> chip_size P (dev x) = P4_FLASH_SIZE"
    using find_k w big run(3) by (simp add: find_part_def found_def [abs_def] only_entry_buf_def)
  moreover from this have "map_option found (find_part F P4_PART_TYPE_DTB) = Some dpart \<and> chip_size P (dev y) = P4_FLASH_SIZE"
    using find_d big run(4) by (simp add: find_part_def found_def [abs_def] only_entry_buf_def)
  ultimately show ?thesis using run(5) by auto
qed

lemma checksum_result:
  assumes "crc_ok P B F ram crcf" and "checksum P B (kpart, dpart) s = (Inr (kcrc, dcrc), t)"
    and "chip_size P (dev s) = P4_FLASH_SIZE"
  shows "kcrc = crcf 0 (bytes_at F (part_offset kpart) (unat (part_size kpart))) \<and>
    dcrc = crcf 0 (bytes_at F (part_offset dpart) (unat (part_size dpart))) \<and>
    unat (part_size kpart) \<le> 0x1000000 \<and> unat (part_size dpart) \<le> 0x1000000"
proof -
  obtain a u b v where runs: "p4_flash_crc32 P B (part_offset kpart) (part_size kpart) s = (a, u)"
      "p4_flash_crc32 P B (part_offset dpart) (part_size dpart) u = (b, v)" by fastforce
  have ab: "a = Some kcrc" "b = Some dcrc"
    using assms(2) by (auto simp: checksum_def runs split: option.splits)
  note k = flash_crc32_result [OF assms(1) runs(1), unfolded ab, THEN conjunct1, rule_format, OF refl]
  note d = flash_crc32_result [OF assms(1) runs(2), unfolded ab, THEN conjunct1, rule_format, OF refl]
  have "unat P4_FLASH_SIZE = 0x1000000" by (simp add: const_defs)
  moreover have "n = 0 \<Longrightarrow> unat n \<le> 0x1000000" for n :: u32 by simp
  ultimately show ?thesis using k d assms(3) by (metis add_leE)
qed

subsection \<open>Memory below a copy\<close>

definition below_inv :: "'d platform \<Rightarrow> u32 \<Rightarrow> u32 \<Rightarrow> 'd soc \<Rightarrow> u32 \<Rightarrow> 'd soc \<Rightarrow> bool" where
  "below_inv P dest len s0 pos s =
     (stores_aimed P \<and> fits dest (unat len) \<and>
      (\<forall>x. unat x < unat dest \<longrightarrow> peek P (dev s) x = peek P (dev s0) x))"

lemma below_body:
  assumes "below_inv P dest len s0 pos s" and "pos < len"
    and "copy_body P off dest pos (chunk_want len pos) s = (True, t)"
  shows "below_inv P dest len s0 (pos + chunk_want len pos) t"
proof -
  let ?w = "chunk_want len pos"
  have w: "unat pos + unat ?w \<le> unat len" "0 < unat ?w" using chunk_want_bounds [OF assms(2)] by auto
  have "in_range (dest + pos) (unat ?w) x \<Longrightarrow> unat dest \<le> unat x" for x
    using in_range_part(1) [OF _ w, of dest x] assms(1) by (auto simp: below_inv_def)
  then have "unat x < unat dest \<Longrightarrow> peek P (snd (spiflash_read P (off + pos) (dest + pos) ?w (dev s))) x = peek P (dev s) x" for x
    using assms(1) unfolding below_inv_def stores_aimed_def by (metis not_le)
  then show ?thesis
    using assms(1,3) by (auto simp: copy_body_def p4_flash_read_def below_inv_def split: if_splits prod.splits)
qed

interpretation below: chunk_walk "copy_body P off dest" len "below_inv P dest len s0"
  for P :: "'d platform" and off dest len s0
  by unfold_locales (rule below_body)

lemma load_result:
  assumes "stores_aimed P" and "rom_crc P crcf" and "fits (payload_pa x) (unat (part_size part))"
    and "load_payload P x part crc s = (Inr (), t)"
  shows "crcf 0 (bytes_at (peek P (dev t)) (payload_pa x) (unat (part_size part))) = crc \<and>
    (\<forall>a. unat a < unat (payload_pa x) \<longrightarrow> peek P (dev t) a = peek P (dev s) a)"
proof -
  let ?pa = "payload_pa x" and ?len = "part_size part"
  obtain ok u where copy: "p4_flash_copy P (part_offset part) ?len ?pa s = (ok, u)" by fastforce
  obtain c d where crc: "crc32_le P 0 ?pa ?len (dev u) = (c, d)" by fastforce
  have t: "ok" "c = crc" "dev t = d"
    using assms(4) by (auto simp: load_payload_def copy p4_mem_crc32_def crc split: bool.splits if_splits)
  obtain r v where run: "chunk_loop (copy_body P (part_offset part) ?pa) ?len 0 s = (r, v)" by fastforce
  have u: "r" "dev u = cache_invalidate_addr P ?pa ?len (cache_writeback_addr P ?pa ?len (dev v))"
    using copy t(1) by (auto simp: p4_flash_copy_def run split: if_splits bool.splits)
  have "below_inv P ?pa ?len s ?len v"
    using below.walk [of P "part_offset part" ?pa ?len 0 s v s] run u(1) assms(1,3) by (simp add: below_inv_def)
  moreover have "?pa AND 63 = 0" by (cases x) (simp_all add: const_defs)
  ultimately have "unat a < unat ?pa \<Longrightarrow> peek P (dev u) a = peek P (dev s) a" for a
    using assms(1) u(2) by (simp add: below_inv_def stores_aimed_def)
  moreover have "c = crcf 0 (bytes_at (peek P (dev u)) ?pa (unat ?len))" "peek P d = peek P (dev u)"
    using assms(2) crc unfolding rom_crc_def by (metis (mono_tags, lifting) case_prod_conv)+
  ultimately show ?thesis using t by simp
qed

lemma bytes_at_below:
  fixes b :: u32
  assumes "\<And>x. unat x < unat b \<Longrightarrow> m x = m' x" and "unat a + n \<le> unat b"
  shows "bytes_at m a n = bytes_at m' a n"
proof -
  have "unat b < 2 ^ LENGTH(32)" by (rule unsigned_less)
  then have "fits a n" using assms(2) by (simp add: fits_def)
  then have "unat (a + of_nat i) < unat b" if "i < n" for i
    using assms(2) that in_range_index [of a n i] by (auto simp: in_range_def)
  then show ?thesis using assms(1) by (simp add: bytes_at_def)
qed

text \<open>What the last stages leave in memory.\<close>

lemma hand_over_peek:
  assumes "quiet P (peek P)" and "stores_aimed P"
  shows "peek P (dev (hand_over P (set_up_devices P s))) = peek P (dev s)"
  using kept.devices [of P "peek P" s] assms by (simp add: hand_over_def stores_aimed_def)

text \<open>
  C1: on a machine whose PSRAM and PSRAM copies may go wrong in any way (bytes that do not
  stick, stale lines, a flash reader that delivers garbage into PSRAM), if the boot jumps to
  Linux, then the kernel and the device tree that the CPU reads at their load addresses have the
  CRCs of the first kernel and device tree partitions of the flash.
\<close>

theorem boot_verified:
  assumes "crc_ok P B F ram crcf" and "table_ok P B F ram" and "stores_aimed P" and "quiet P (peek P)"
    and "boot_main P B s = Some (Jumped, t)"
  shows "\<exists>k d. find_part F P4_PART_TYPE_KERNEL = Some k \<and> find_part F P4_PART_TYPE_DTB = Some d \<and>
    crcf 0 (bytes_at (peek P (dev t)) KERNEL_PA (unat (psize k))) = crcf 0 (bytes_at F (poffset k) (unat (psize k))) \<and>
    crcf 0 (bytes_at (peek P (dev t)) DTB_PA (unat (psize d))) = crcf 0 (bytes_at F (poffset d) (unat (psize d)))"
proof -
  obtain switched reason s1 kpart dpart s2 kcrc dcrc s3 n s4 s5 s6
    where locate: "locate P B s1 = (Inr (kpart, dpart), s2)"
      and sums: "checksum P B (kpart, dpart) s2 = (Inr (kcrc, dcrc), s3)"
      and kern: "load_payload P Kernel kpart kcrc s4 = (Inr (), s5)"
      and tree: "load_payload P Dtb dpart dcrc s5 = (Inr (), s6)"
      and t: "t = hand_over P (set_up_devices P s6)"
    by (rule boot_jumped_stages [OF assms(5)])
  obtain k d where parts: "find_part F P4_PART_TYPE_KERNEL = Some k" "find_part F P4_PART_TYPE_DTB = Some d"
      "kpart = found k" "dpart = found d" and size: "chip_size P (dev s2) = P4_FLASH_SIZE"
    using locate_found [OF assms(1,2) locate] by auto
  note crcs = checksum_result [OF assms(1) sums size]
  have pa: "unat KERNEL_PA = 0x48000000" "unat DTB_PA = 0x49000000" by (simp_all add: const_defs)
  have rom: "rom_crc P crcf" using assms(1) by (simp add: crc_ok_def)
  have fit: "fits (payload_pa Kernel) (unat (part_size kpart))" "fits (payload_pa Dtb) (unat (part_size dpart))"
    using crcs pa by (simp_all add: fits_def)
  note k = load_result [OF assms(3) rom fit(1) kern] and d = load_result [OF assms(3) rom fit(2) tree]
  have "bytes_at (peek P (dev s6)) KERNEL_PA (unat (part_size kpart)) =
      bytes_at (peek P (dev s5)) KERNEL_PA (unat (part_size kpart))"
    by (rule bytes_at_below [where b = DTB_PA]) (use d crcs pa in simp_all)
  then show ?thesis
    using parts crcs k d hand_over_peek [OF assms(4,3), of s6] by (simp add: t found_def)
qed

subsection \<open>A machine that keeps its contracts\<close>

text \<open>
  The steps between the flash checks and the copy leave the chip size alone that the ROM was told;
  the CPU reaches \<open>P4_FLASH_SIZE\<close> of flash throughout.
\<close>

definition psram_window :: "u32 \<Rightarrow> bool" where
  "psram_window a = (in_range P4_PSRAM_VADDR 0x8000000 a \<or>
     in_range (P4_PSRAM_VADDR + P4_NON_CACHEABLE_OFFSET) 0x8000000 a)"

definition size_kept :: "'d platform \<Rightarrow> bool" where
  "size_kept P =
     ((\<forall>a d. chip_size P (snd (bus_read P a d)) = chip_size P d) \<and>
      (\<forall>a v d. psram_window a \<longrightarrow> chip_size P (bus_write P a v d) = chip_size P d) \<and>
      (\<forall>f d. chip_size P (xtal_freq_update P f d) = chip_size P d) \<and>
      (\<forall>n a b d. chip_size P (cache_hal_init P n a b d) = chip_size P d) \<and>
      (\<forall>n a d. chip_size P (mmu_hal_init P n a d) = chip_size P d) \<and>
      (\<forall>d. chip_size P (snd (psram_enable P d)) = chip_size P d) \<and>
      (\<forall>i t v p n d. chip_size P (snd (mmu_map_region P i t v p n d)) = chip_size P d) \<and>
      (\<forall>i m d. chip_size P (l1_enable_bus P i m d) = chip_size P d) \<and>
      (\<forall>a n d. chip_size P (cache_invalidate_addr P a n d) = chip_size P d) \<and>
      (\<forall>c d. chip_size P (cpu_set_config P c d) = chip_size P d))"

text \<open>PSRAM trains, is mapped whole (in 64 KB pages), and its words are distinct cells.\<close>

definition psram_good :: "'d platform \<Rightarrow> u32 \<Rightarrow> bool" where
  "psram_good P n =
     ((\<forall>d. fst (psram_enable P d) = 0) \<and>
      (\<forall>d. psram_physical_size P d = (0, n)) \<and>
      (\<forall>len d. fst (mmu_map_region P 1 MMU_TARGET_PSRAM0 P4_PSRAM_VADDR 0 len d) = len) \<and>
      n \<noteq> 0 \<and> n AND NOT (MMU_PAGE_SIZE - 1) = n \<and> unat n \<le> 0x8000000 \<and>
      (\<exists>(cell :: 'd \<Rightarrow> u32 \<Rightarrow> u32) decode.
        decoded_memory P cell decode (window (unat n div 4)) \<and> inj_on decode (window (unat n div 4))))"

definition healthy :: "'d platform \<Rightarrow> buffers \<Rightarrow> ('d \<Rightarrow> mem) \<Rightarrow> mem \<Rightarrow> u32 set \<Rightarrow> (u32 \<Rightarrow> u8 list \<Rightarrow> u32) \<Rightarrow> u32 \<Rightarrow> bool" where
  "healthy P B chip F ram crcf n =
     (crc_ok P B F ram crcf \<and> table_ok P B F ram \<and> cached_memory P chip \<and> quiet P (peek P) \<and>
      size_kept P \<and> psram_good P n \<and> (\<forall>s. uart_wait_update P s \<noteq> None) \<and>
      (\<forall>a. in_range KERNEL_PA 0x2000000 a \<longrightarrow> a \<in> ram) \<and>
      (\<forall>d. chip (cache_writeback_all P d) = peek P d \<and> peek P (cache_writeback_all P d) = peek P d))"

text \<open>A partition the bootloader can load: aligned as the flash tools align it, and within the chip.\<close>

definition loadable :: "p4_part_entry \<Rightarrow> bool" where
  "loadable e = (poffset e AND 3 = 0 \<and> psize e AND 63 = 0 \<and> unat (poffset e) + unat (psize e) \<le> 0x1000000)"

lemma chip_room: "chip_size P (dev s) = P4_FLASH_SIZE \<Longrightarrow> unat off + unat len \<le> 0x1000000 \<Longrightarrow> within_chip P off len s"
  by (simp add: within_chip_def const_defs)

lemma selftest_passes:
  assumes "crc_ok P B F ram crcf" and "chip_size P (dev s) = P4_FLASH_SIZE"
  shows "\<exists>t. p4_flash_selftest P B s = (True, t) \<and> chip_size P (dev t) = P4_FLASH_SIZE"
proof -
  obtain a u b v where runs: "p4_flash_crc32 P B 0x20000 0x10000 s = (a, u)"
      "p4_flash_crc32 P B 0x20000 0x10000 u = (b, v)" by fastforce
  note a = flash_crc32_result [OF assms(1) runs(1)] and b = flash_crc32_result [OF assms(1) runs(2)]
  have room: "chip_size P (dev w) = P4_FLASH_SIZE \<Longrightarrow> within_chip P 0x20000 0x10000 w" for w
    by (rule chip_room) simp_all
  obtain x where x: "a = Some x" "chip_size P (dev u) = P4_FLASH_SIZE" using a room [OF assms(2)] assms(2) by auto
  then obtain y where y: "b = Some y" using b room [of u] by auto
  show ?thesis
    using a b x y by (simp add: p4_flash_selftest_def Let_def runs)
qed

lemma find_result:
  assumes "table_ok P B F ram" and "chip_size P (dev s) = P4_FLASH_SIZE"
  shows "\<exists>t. p4_part_find P B typ P4_PART_SUBTYPE_NONE s = (map_option found (find_part F typ), t) \<and>
    chip_size P (dev t) = P4_FLASH_SIZE"
proof -
  obtain r t where run: "p4_part_find P B typ P4_PART_SUBTYPE_NONE s = (r, t)" by fastforce
  have "0x9000 \<le> chip_size P (dev s)" using assms(2) by (simp add: const_defs)
  from part_find_result [OF assms(1) this run] assms(2) run show ?thesis
    by (simp add: find_part_def found_def [abs_def] only_entry_buf_def)
qed

text \<open>What the table says about the two payloads.\<close>

definition table_verdict :: "mem \<Rightarrow> halt + p4_part_entry \<times> p4_part_entry" where
  "table_verdict F =
     (case find_part F P4_PART_TYPE_KERNEL of
        None \<Rightarrow> Inl (Not_found Kernel)
      | Some k \<Rightarrow>
          (case find_part F P4_PART_TYPE_DTB of
             None \<Rightarrow> Inl (Not_found Dtb)
           | Some d \<Rightarrow> Inr (k, d)))"

lemma locate_result:
  assumes "crc_ok P B F ram crcf" and "table_ok P B F ram"
  shows "\<exists>t. locate P B s = (map_sum id (\<lambda>(k, d). (found k, found d)) (table_verdict F), t) \<and>
    chip_size P (dev t) = P4_FLASH_SIZE"
proof -
  obtain ok u where init: "p4_flash_init P s = (ok, u)" by fastforce
  have u: "ok" "chip_size P (dev u) = P4_FLASH_SIZE"
    using init assms(1) by (auto simp: p4_flash_init_def Let_def crc_ok_def rom_flash_def)
  obtain v where test: "p4_flash_selftest P B u = (True, v)" "chip_size P (dev v) = P4_FLASH_SIZE"
    using selftest_passes [OF assms(1) u(2)] by blast
  obtain shown w where dump: "p4_part_dump P B v = (shown, w)" by fastforce
  have "chip_size P (dev w) = P4_FLASH_SIZE"
    using dump_size [OF assms(2) _ dump] test(2) by (simp add: const_defs)
  then obtain x where x: "p4_part_find P B P4_PART_TYPE_KERNEL P4_PART_SUBTYPE_NONE w =
      (map_option found (find_part F P4_PART_TYPE_KERNEL), x)" "chip_size P (dev x) = P4_FLASH_SIZE"
    using find_result [OF assms(2)] by blast
  obtain y where y: "p4_part_find P B P4_PART_TYPE_DTB P4_PART_SUBTYPE_NONE x =
      (map_option found (find_part F P4_PART_TYPE_DTB), y)" "chip_size P (dev y) = P4_FLASH_SIZE"
    using find_result [OF assms(2) x(2)] by blast
  show ?thesis
    by (cases "find_part F P4_PART_TYPE_KERNEL"; cases "find_part F P4_PART_TYPE_DTB")
      (simp_all add: locate_def init u(1) test(1) dump x y table_verdict_def)
qed

lemma locate_succeeds:
  assumes "crc_ok P B F ram crcf" and "table_ok P B F ram"
    and "find_part F P4_PART_TYPE_KERNEL = Some k" and "find_part F P4_PART_TYPE_DTB = Some d"
  shows "\<exists>t. locate P B s = (Inr (found k, found d), t) \<and> chip_size P (dev t) = P4_FLASH_SIZE"
  using locate_result [OF assms(1,2), of s] assms(3,4) by (simp add: table_verdict_def)

text \<open>A partition that can be read to its end; an empty one always can.\<close>

definition readable :: "p4_part_entry \<Rightarrow> bool" where
  "readable e = (poffset e AND 3 = 0 \<and> (psize e = 0 \<or> unat (poffset e) + unat (psize e) \<le> 0x1000000))"

definition part_crc :: "(u32 \<Rightarrow> u8 list \<Rightarrow> u32) \<Rightarrow> mem \<Rightarrow> p4_part_entry \<Rightarrow> u32" where
  "part_crc crcf F e = crcf 0 (bytes_at F (poffset e) (unat (psize e)))"

lemma part_crc_result:
  assumes "crc_ok P B F ram crcf" and "chip_size P (dev s) = P4_FLASH_SIZE"
  shows "\<exists>t. p4_flash_crc32 P B (poffset e) (psize e) s = (if readable e then Some (part_crc crcf F e) else None, t) \<and>
    (readable e \<longrightarrow> chip_size P (dev t) = P4_FLASH_SIZE)"
proof -
  obtain r t where run: "p4_flash_crc32 P B (poffset e) (psize e) s = (r, t)" by fastforce
  have "r \<noteq> None" if "readable e"
  proof (cases "psize e = 0")
    case True
    then show ?thesis using run that by (auto simp: p4_flash_crc32_def chunk_loop.simps readable_def)
  next
    case False
    then show ?thesis
      using flash_crc32_result [OF assms(1) run] chip_room [OF assms(2)] that by (auto simp: readable_def)
  qed
  moreover have "r = None" if "\<not> readable e"
    using flash_crc32_result [OF assms(1) run] assms(2) that
    by (cases r) (auto simp: readable_def P4_FLASH_SIZE_def unat_eq_0)
  ultimately show ?thesis
    using flash_crc32_result [OF assms(1) run] run assms(2) by (auto simp: part_crc_def)
qed

lemma checksum_succeeds:
  assumes "crc_ok P B F ram crcf" and "chip_size P (dev s) = P4_FLASH_SIZE" and "loadable k" and "loadable d"
  shows "\<exists>t. checksum P B (found k, found d) s = (Inr (crcf 0 (bytes_at F (poffset k) (unat (psize k))),
      crcf 0 (bytes_at F (poffset d) (unat (psize d)))), t) \<and> chip_size P (dev t) = P4_FLASH_SIZE"
proof -
  have rd: "readable k" "readable d" using assms(3,4) by (simp_all add: readable_def loadable_def)
  obtain u where u: "p4_flash_crc32 P B (poffset k) (psize k) s = (Some (part_crc crcf F k), u)"
      "chip_size P (dev u) = P4_FLASH_SIZE" using part_crc_result [OF assms(1,2), of k] rd by auto
  obtain t where t: "p4_flash_crc32 P B (poffset d) (psize d) u = (Some (part_crc crcf F d), t)"
      "chip_size P (dev t) = P4_FLASH_SIZE" using part_crc_result [OF assms(1) u(2), of d] rd by auto
  show ?thesis by (simp add: checksum_def found_def u(1) t part_crc_def [symmetric])
qed

lemma window_words:
  "i < 0x2000000 \<Longrightarrow> psram_window (word_addr i)"
  "psram_window (P4_PSRAM_VADDR + 0x00100000)" "psram_window (P4_PSRAM_VADDR + 0x00100000 + P4_NON_CACHEABLE_OFFSET)"
proof -
  have "unat (word_addr i) = 0x48000000 + 4 * i" if "i < 0x2000000"
    using that by (simp add: word_addr_def const_defs unat_word_ariths unat_of_nat)
  then show "i < 0x2000000 \<Longrightarrow> psram_window (word_addr i)"
    by (simp add: psram_window_def in_range_def const_defs)
qed (simp_all add: psram_window_def in_range_def const_defs)

lemma accesses_keep_size:
  assumes "size_kept P"
  shows "reg_read P a s = (v, t) \<Longrightarrow> chip_size P (dev t) = chip_size P (dev s)"
    and "psram_window a \<Longrightarrow> chip_size P (dev (reg_write P a w s)) = chip_size P (dev s)"
  using assms by (auto simp: size_kept_def reg_read_def reg_write_def split: prod.splits dest!: spec [of _ a] spec [of _ "dev s"])

lemma test_keeps_size:
  assumes "size_kept P"
  shows "\<forall>i \<in> set is. i < 0x2000000 \<Longrightarrow> chip_size P (dev (psram_fill P is s)) = chip_size P (dev s)"
    and "psram_check P is k bad s = (k', bad', t) \<Longrightarrow> chip_size P (dev t) = chip_size P (dev s)"
proof -
  show "\<forall>i \<in> set is. i < 0x2000000 \<Longrightarrow> chip_size P (dev (psram_fill P is s)) = chip_size P (dev s)"
    unfolding psram_fill_def
    by (induction "is" arbitrary: s) (simp_all add: accesses_keep_size(2) [OF assms window_words(1)])
  show "psram_check P is k bad s = (k', bad', t) \<Longrightarrow> chip_size P (dev t) = chip_size P (dev s)"
  proof (induction "is" arbitrary: k bad s)
    case (Cons i "is")
    obtain got u where read: "reg_read P (word_addr i) s = (got, u)" by fastforce
    show ?case using Cons accesses_keep_size(1) [OF assms read] by (auto simp: read split: if_splits)
  qed simp
qed

lemma alias_keeps_size:
  assumes "size_kept P" and "p4_psram_alias_test P s = (ok, t)"
  shows "chip_size P (dev t) = chip_size P (dev s)"
proof -
  obtain x s1 y s2 z s3 where
    "reg_read P (P4_PSRAM_VADDR + 0x00100000) (reg_write P (P4_PSRAM_VADDR + 0x00100000 + P4_NON_CACHEABLE_OFFSET) 0x11111111 s) = (x, s1)"
    "reg_read P (P4_PSRAM_VADDR + 0x00100000 + P4_NON_CACHEABLE_OFFSET) (reg_write P (P4_PSRAM_VADDR + 0x00100000) 0x22222222 s1) = (y, s2)"
    "reg_read P (P4_PSRAM_VADDR + 0x00100000 + P4_NON_CACHEABLE_OFFSET) (reg_write P (P4_PSRAM_VADDR + 0x00100000 + P4_NON_CACHEABLE_OFFSET) 0x33333333 s2) = (z, s3)"
    by (meson surj_pair)
  note runs = this
  have "t = s3" using assms(2) unfolding p4_psram_alias_test_def Let_def runs(1) prod.case runs(2) runs(3) by simp
  then show ?thesis
    using runs [THEN accesses_keep_size(1) [OF assms(1)]] window_words(2,3)
    by (simp add: accesses_keep_size(2) [OF assms(1)])
qed

lemma psram_init_succeeds:
  assumes "psram_good P n" and "size_kept P"
  shows "\<exists>t. p4_psram_init P s = (Some n, t) \<and> chip_size P (dev t) = chip_size P (dev s)"
proof -
  obtain err d where train: "psram_enable P (dev s) = (err, d)" by fastforce
  have m: "psram_physical_size P d = (0, n)" "n AND NOT (MMU_PAGE_SIZE - 1) = n"
    using assms(1) by (simp_all add: psram_good_def)
  obtain mapped d2 where map: "mmu_map_region P 1 MMU_TARGET_PSRAM0 P4_PSRAM_VADDR 0 n d = (mapped, d2)"
    by fastforce
  have "err = 0" "mapped = n" "n \<noteq> 0"
    using assms(1) train map unfolding psram_good_def by (metis fst_conv)+
  moreover have "chip_size P d = chip_size P (dev s)" "chip_size P d2 = chip_size P d"
    using assms(2) train map unfolding size_kept_def by (metis snd_conv)+
  ultimately show ?thesis
    using assms(2) m by (simp add: p4_psram_init_def train map size_kept_def Let_def)
qed

lemma cpu_keeps_size:
  "size_kept P \<Longrightarrow> p4_clk_cpu_set_mhz P mhz s = (ok, t) \<Longrightarrow> chip_size P (dev t) = chip_size P (dev s)"
  by (auto simp: p4_clk_cpu_set_mhz_def size_kept_def split: option.splits)

lemma prepare_psram_succeeds:
  assumes "psram_good P n" and "size_kept P"
  shows "\<exists>t. prepare_psram P s = (Inr n, t) \<and> chip_size P (dev t) = chip_size P (dev s)"
proof -
  have start: "chip_size P (dev (p4_cache_init P (p4_clk_init P s))) = chip_size P (dev s)"
    using assms(2) by (simp add: p4_cache_init_def p4_clk_init_def size_kept_def)
  obtain u where init: "p4_psram_init P (p4_cache_init P (p4_clk_init P s)) = (Some n, u)"
      "chip_size P (dev u) = chip_size P (dev s)"
    using psram_init_succeeds [OF assms, of "p4_cache_init P (p4_clk_init P s)"] start by auto
  obtain raised v where cpu: "p4_clk_cpu_set_mhz P CPU_MHZ u = (raised, v)" by fastforce
  obtain ok bad w where test: "p4_psram_test P n v = (ok, bad, w)" by (cases "p4_psram_test P n v") auto
  have ok: ok
    using assms(1) psram_test_result [OF _ _ test] unfolding psram_good_def by blast
  obtain uncached x where probe: "p4_psram_alias_test P w = (uncached, x)" by fastforce
  obtain k b y where check: "psram_check P [0..<unat n div 4] 0 0 (psram_fill P [0..<unat n div 4] v) = (k, b, y)"
    by (cases "psram_check P [0..<unat n div 4] 0 0 (psram_fill P [0..<unat n div 4] v)") auto
  have small: "\<forall>i \<in> set [0..<unat n div 4]. i < 0x2000000"
  proof
    fix i assume "i \<in> set [0..<unat n div 4]"
    moreover have "unat n \<le> 0x8000000" using assms(1) by (simp add: psram_good_def)
    ultimately show "i < 0x2000000" by (simp add: less_mult_imp_div_less)
  qed
  have "w = y" using test by (auto simp: p4_psram_test_def Let_def check)
  then have "chip_size P (dev w) = chip_size P (dev v)"
    using test_keeps_size(1) [OF assms(2) small] test_keeps_size(2) [OF assms(2) check] by simp
  then show ?thesis
    using init cpu_keeps_size [OF assms(2) cpu] alias_keeps_size [OF assms(2) probe] ok
    by (simp add: prepare_psram_def cpu test probe)
qed

lemma bring_up_succeeds:
  assumes "\<forall>s. uart_wait_update P s \<noteq> None"
  shows "\<exists>switched reason t. bring_up P s = Some (switched, reason, t)"
  using assms
  by (auto simp: bring_up_def Let_def p4_uart0_set_baud_def const_defs console_dividers)

lemma load_succeeds:
  assumes "healthy P B chip F ram crcf n" and "loadable e" and "chip_size P (dev s) = P4_FLASH_SIZE"
  shows "\<exists>t. load_payload P x (found e) (crcf 0 (bytes_at F (poffset e) (unat (psize e)))) s = (Inr (), t) \<and>
    chip_size P (dev t) = P4_FLASH_SIZE \<and>
    bytes_at (peek P (dev t)) (payload_pa x) (unat (psize e)) = bytes_at F (poffset e) (unat (psize e)) \<and>
    (\<forall>a. unat a < unat (payload_pa x) \<longrightarrow> peek P (dev t) a = peek P (dev s) a)"
proof -
  note h = assms(1) [unfolded healthy_def]
  have pa: "unat (payload_pa x) \<le> 0x49000000" "0x48000000 \<le> unat (payload_pa x)" "payload_pa x AND 63 = 0"
    by (cases x; simp add: const_defs)+
  have "in_range (payload_pa x) (unat (psize e)) a \<Longrightarrow> in_range KERNEL_PA 0x2000000 a" for a
    using assms(2) pa(1,2) by (simp add: in_range_def loadable_def const_defs)
  then have ok: "copy_ok P chip F ram (payload_pa x) (psize e)"
    using h assms(2) pa by (simp add: copy_ok_def crc_ok_def fits_def loadable_def)
  obtain r u where copy: "p4_flash_copy P (poffset e) (psize e) (payload_pa x) s = (r, u)" by fastforce
  note result = flash_copy_result [OF ok copy]
  have r: r using result assms(2) chip_room [OF assms(3)] by (simp add: loadable_def)
  have u: "bytes_at (peek P (dev u)) (payload_pa x) (unat (psize e)) = bytes_at F (poffset e) (unat (psize e))"
      "chip_size P (dev u) = P4_FLASH_SIZE"
      "\<And>a. unat a < unat (payload_pa x) \<Longrightarrow> peek P (dev u) a = peek P (dev s) a"
    using result r assms(3) by (auto simp: in_range_def)
  obtain c d where crc: "crc32_le P 0 (payload_pa x) (psize e) (dev u) = (c, d)" by fastforce
  have "c = crcf 0 (bytes_at (peek P (dev u)) (payload_pa x) (unat (psize e))) \<and> peek P d = peek P (dev u) \<and>
      chip_size P d = chip_size P (dev u)"
    using h crc unfolding crc_ok_def rom_crc_def by (metis (mono_tags, lifting) case_prod_conv)
  then show ?thesis
    using u r by (simp add: load_payload_def found_def copy p4_mem_crc32_def crc)
qed

lemma healthy_boot:
  assumes "healthy P B chip F ram crcf n"
    and "find_part F P4_PART_TYPE_KERNEL = Some k" and "find_part F P4_PART_TYPE_DTB = Some d"
    and "loadable k" and "loadable d"
  shows "\<exists>t. boot_main P B s = Some (Jumped, t) \<and>
    bytes_at (chip (dev t)) KERNEL_PA (unat (psize k)) = bytes_at F (poffset k) (unat (psize k)) \<and>
    bytes_at (chip (dev t)) DTB_PA (unat (psize d)) = bytes_at F (poffset d) (unat (psize d)) \<and>
    peek P (dev t) = chip (dev t)"
proof -
  note h = assms(1) [unfolded healthy_def]
  have ok: "crc_ok P B F ram crcf" "table_ok P B F ram" "psram_good P n" "size_kept P" using h by auto
  obtain switched reason s1 where s1: "bring_up P s = Some (switched, reason, s1)"
    using bring_up_succeeds h by blast
  obtain s2 where s2: "locate P B s1 = (Inr (found k, found d), s2)" "chip_size P (dev s2) = P4_FLASH_SIZE"
    using locate_succeeds [OF ok(1,2) assms(2,3)] by blast
  let ?crc = "\<lambda>e. crcf 0 (bytes_at F (poffset e) (unat (psize e)))"
  obtain s3 where s3: "checksum P B (found k, found d) s2 = (Inr (?crc k, ?crc d), s3)"
      "chip_size P (dev s3) = P4_FLASH_SIZE"
    using checksum_succeeds [OF ok(1) s2(2) assms(4,5)] by blast
  obtain s4 where s4: "prepare_psram P s3 = (Inr n, s4)" "chip_size P (dev s4) = P4_FLASH_SIZE"
    using prepare_psram_succeeds [OF ok(3,4), of s3] s3(2) by auto
  obtain s5 where s5: "load_payload P Kernel (found k) (?crc k) s4 = (Inr (), s5)" "chip_size P (dev s5) = P4_FLASH_SIZE"
      "bytes_at (peek P (dev s5)) KERNEL_PA (unat (psize k)) = bytes_at F (poffset k) (unat (psize k))"
    using load_succeeds [OF assms(1,4) s4(2), of Kernel] by auto
  obtain s6 where s6: "load_payload P Dtb (found d) (?crc d) s5 = (Inr (), s6)"
      "bytes_at (peek P (dev s6)) DTB_PA (unat (psize d)) = bytes_at F (poffset d) (unat (psize d))"
      "\<And>a. unat a < unat DTB_PA \<Longrightarrow> peek P (dev s6) a = peek P (dev s5) a"
    using load_succeeds [OF assms(1,5) s5(2), of Dtb] by auto
  let ?t = "hand_over P (set_up_devices P s6)"
  have mem: "peek P (dev ?t) = peek P (dev s6)" "chip (dev ?t) = peek P (dev s6)"
    using h kept.devices [of P "peek P" s6] by (simp_all add: hand_over_def)
  have "bytes_at (peek P (dev s6)) KERNEL_PA (unat (psize k)) = bytes_at (peek P (dev s5)) KERNEL_PA (unat (psize k))"
    by (rule bytes_at_below [where b = DTB_PA, OF s6(3)]) (use assms(4) in \<open>simp_all add: loadable_def const_defs\<close>)
  then show ?thesis
    using s1 s2(1) s3(1) s4(1) s5(1,3) s6(1,2) mem by (simp add: boot_main_def boot_from_flash_def)
qed

text \<open>
  C7: on a machine that keeps the documented contracts, whose flash holds a kernel and a device
  tree partition that are aligned and within the 16 MB chip, the boot reaches Linux, from any
  initial state; then the PSRAM chip itself holds both partitions byte for byte at the addresses
  Linux is entered with, and the CPU reads the same.
\<close>

theorem boot_delivers:
  assumes "healthy P B chip F ram crcf n"
    and "find_part F P4_PART_TYPE_KERNEL = Some k" and "find_part F P4_PART_TYPE_DTB = Some d"
    and "loadable k" and "loadable d"
  shows "\<exists>t. boot_main P B s = Some (Jumped, t) \<and>
    bytes_at (chip (dev t)) KERNEL_PA (unat (psize k)) = bytes_at F (poffset k) (unat (psize k)) \<and>
    bytes_at (chip (dev t)) DTB_PA (unat (psize d)) = bytes_at F (poffset d) (unat (psize d)) \<and>
    peek P (dev t) = chip (dev t)"
  using assms by (rule healthy_boot)

end
