(* ===== verification/BootOrder.thy ===== *)
theory BootOrder
  imports BootEffects
begin

text \<open>
  The order of the boot. The abstract boot is a state machine over the events of the log: a
  phase and the events it allows. The steps that the comments of \<open>main.c\<close> insist on are its
  transitions: flash is read before the PSRAM is trained, the crystal is recorded and the caches
  are set up before that, the CPU is raised after the training and before PSRAM is written, no
  memory is touched once the payloads are verified, and the caches are written back right before
  the jump. Every run of the bootloader, on any hardware, is a run of this machine.
\<close>

datatype phase =
    Bringing_up | Slow_flash | Reading_flash | Clocked | Cache_up | Untrained | Trained
  | Translated | Connected | Mapped u32 | Raised u32 | Loading | Devices | Clean | Running

definition board_events :: "event set" where
  "board_events = register_events peripherals \<union> {Ev_uart_idle} \<union>
     {Ev_regi2c block reg msb lsb v | block reg msb lsb v. True} \<union>
     {Ev_gpio_out gpio sig | gpio sig. True} \<union> {Ev_gpio_in gpio sig | gpio sig. True}"

text \<open>The words the test writes, and the two views of the probed word.\<close>

definition psram_words :: "u32 \<Rightarrow> u32 set" where
  "psram_words n = window (unat n div 4) \<union>
     {P4_PSRAM_VADDR + 0x00100000, P4_PSRAM_VADDR + 0x00100000 + P4_NON_CACHEABLE_OFFSET}"

fun load_event :: "event \<Rightarrow> bool" where
  "load_event (Ev_flash_read off dest len) = True"
| "load_event (Ev_writeback a n) = (a \<in> {KERNEL_PA, DTB_PA})"
| "load_event (Ev_invalidate a n) = (a \<in> {KERNEL_PA, DTB_PA})"
| "load_event e = False"

inductive boot_step :: "buffers \<Rightarrow> phase \<Rightarrow> event \<Rightarrow> phase \<Rightarrow> bool" for B where
  board: "e \<in> board_events \<Longrightarrow> boot_step B Bringing_up e Bringing_up"
| slow: "boot_step B Bringing_up (Ev_low_speed True) Slow_flash"
| chip: "boot_step B Slow_flash (Ev_chip_size P4_FLASH_SIZE) Reading_flash"
| look: "dest \<in> {s_buf B, entry_buf B} \<Longrightarrow> boot_step B Reading_flash (Ev_flash_read off dest len) Reading_flash"
| xtal: "boot_step B Reading_flash (Ev_xtal SOC_XTAL_FREQ_40M) Clocked"
| cache: "boot_step B Clocked Ev_cache_hal Cache_up"
| mmu: "boot_step B Cache_up Ev_mmu_hal Untrained"
| train: "boot_step B Untrained Ev_psram_train Trained"
| translate: "boot_step B Trained (Ev_mmu_map 1 P4_PSRAM_VADDR 0 n) Translated"
| connect: "boot_step B Translated (Ev_bus_enable 0 m) Connected"
| discard: "boot_step B Connected (Ev_invalidate P4_PSRAM_VADDR n) (Mapped n)"
| raise: "boot_step B (Mapped n) (Ev_cpu_set CPU_MHZ) (Raised n)"
| test: "a \<in> psram_words n \<Longrightarrow> boot_step B (Raised n) (Ev_write a v) (Raised n)"
| load: "load_event e \<Longrightarrow> boot_step B (Raised n) e Loading"
| more: "load_event e \<Longrightarrow> boot_step B Loading e Loading"
| device: "e \<in> board_events \<Longrightarrow> boot_step B Loading e Devices"
| devices: "e \<in> board_events \<Longrightarrow> boot_step B Devices e Devices"
| bare: "boot_step B Loading Ev_writeback_all Clean"
| clean: "boot_step B Devices Ev_writeback_all Clean"
| go: "boot_step B Clean (Ev_jump KERNEL_PA DTB_PA) Running"

text \<open>Only hardware that refuses the CPU frequency (\<open>refuse\<close>) gets past \<open>Mapped\<close> without the raise.\<close>

inductive boot_trace :: "bool \<Rightarrow> buffers \<Rightarrow> phase \<Rightarrow> event list \<Rightarrow> phase \<Rightarrow> bool" for refuse B where
  stop: "boot_trace refuse B p [] p"
| step: "boot_step B p e q \<Longrightarrow> boot_trace refuse B q es r \<Longrightarrow> boot_trace refuse B p (e # es) r"
| skip: "refuse \<Longrightarrow> boot_trace refuse B (Raised n) es r \<Longrightarrow> boot_trace refuse B (Mapped n) es r"

lemma boot_trace_append:
  "boot_trace f B p es q \<Longrightarrow> boot_trace f B q fs r \<Longrightarrow> boot_trace f B p (es @ fs) r"
  by (induction rule: boot_trace.induct) (auto intro: boot_trace.intros)

definition goes :: "bool \<Rightarrow> buffers \<Rightarrow> phase \<Rightarrow> 'd soc \<Rightarrow> phase \<Rightarrow> 'd soc \<Rightarrow> bool" where
  "goes f B p s q t = (\<exists>es. log t = log s @ es \<and> boot_trace f B p es q)"

lemma goes_refl: "goes f B p s p s"
  by (auto simp: goes_def intro: boot_trace.intros)

lemma goes_trans: "goes f B p s q t \<Longrightarrow> goes f B q t r u \<Longrightarrow> goes f B p s r u"
  by (fastforce simp: goes_def intro: boot_trace_append)

lemma goes_act: "boot_step B p e q \<Longrightarrow> goes f B p s q (act e g s)"
  by (auto simp: goes_def intro: boot_trace.intros)

lemma goes_loop:
  assumes "emits E s t" and "\<And>e. e \<in> E \<Longrightarrow> boot_step B p e p"
  shows "goes f B p s p t"
proof -
  have "boot_trace f B p es p" if "set es \<subseteq> E" for es
    using that by (induction es) (auto intro: boot_trace.intros assms(2))
  then show ?thesis using assms(1) by (auto simp: emits_def goes_def)
qed

lemma goes_enter:
  assumes "emits E s t" and "\<And>e. e \<in> E \<Longrightarrow> boot_step B p e q" and "\<And>e. e \<in> E \<Longrightarrow> boot_step B q e q"
  shows "goes f B p s p t \<or> goes f B p s q t"
proof -
  obtain es where es: "log t = log s @ es" "set es \<subseteq> E" using assms(1) by (auto simp: emits_def)
  have loop: "boot_trace f B q fs q" if "set fs \<subseteq> E" for fs
    using that by (induction fs) (auto intro: boot_trace.intros assms(3))
  show ?thesis
    using es loop by (cases es) (auto simp: goes_def intro: boot_trace.intros assms(2))
qed

text \<open>What the stages log, from the stage lemmas of \<open>BootEffects\<close>.\<close>

interpretation logs: board_effects P "emits board_events" for P :: "'d platform"
  by unfold_locales (auto simp: board_events_def gpio_out_def gpio_in_def regi2c_write_def
    tx_wait_idle_def emits_def reg_write_def ets_delay_us_def act_def peripherals_def
    intro: emits_trans emits_read [unfolded emits_def])

lemma bring_up_goes: "bring_up P s = Some (switched, reason, t) \<Longrightarrow> goes f B Bringing_up s Bringing_up t"
  by (rule goes_loop [OF logs.bring_up]) (auto intro: boot_step.board)

subsection \<open>Reading flash\<close>

definition buffer_reads :: "buffers \<Rightarrow> event set" where
  "buffer_reads B = {Ev_flash_read off dest len | off dest len. dest \<in> {s_buf B, entry_buf B}}"

lemma looks: "emits (buffer_reads B) s t \<Longrightarrow> goes f B Reading_flash s Reading_flash t"
  by (rule goes_loop) (auto simp: buffer_reads_def intro: boot_step.look)

lemma flash_read_emits:
  "p4_flash_read P off dest len s = (ok, t) \<Longrightarrow> Ev_flash_read off dest len \<in> E \<Longrightarrow> emits E s t"
  by (auto simp: p4_flash_read_def emits_def split: if_splits prod.splits)

lemma chunk_loop_emits:
  assumes "\<And>pos want x ok y. body pos want x = (ok, y) \<Longrightarrow> emits E (st x) (st y)"
  shows "chunk_loop body len pos x = (ok, y) \<Longrightarrow> emits E (st x) (st y)"
  using assms
proof (induction body len pos x rule: chunk_loop.induct)
  case (1 body len pos x)
  obtain r z where z: "body pos (chunk_want len pos) x = (r, z)" by fastforce
  note here = 1(3) [OF z]
  show ?case
  proof (cases "pos < len \<and> r")
    case True
    then have "chunk_loop body len (pos + chunk_want len pos) z = (ok, y)"
      using 1(2) z by (subst (asm) chunk_loop.simps) simp
    then have "emits E (st z) (st y)" using 1(1) [OF _ z [symmetric]] True 1(3) by simp
    then show ?thesis by (rule emits_trans [OF here])
  next
    case False
    then show ?thesis using 1(2) z here by (subst (asm) chunk_loop.simps) (auto split: if_splits bool.splits)
  qed
qed

lemma crc_emits: "p4_flash_crc32 P B off len s = (res, t) \<Longrightarrow> emits (buffer_reads B) s t"
proof -
  have body: "emits (buffer_reads B) (snd x) (snd y)" if "crc_body P B off pos want x = (ok, y)" for pos want x ok y
  proof -
    obtain r u where read: "p4_flash_read P (off + pos) (s_buf B) ((want + 3) AND NOT 3) (snd x) = (r, u)" by fastforce
    have "emits (buffer_reads B) (snd x) u"
      by (rule flash_read_emits [OF read]) (auto simp: buffer_reads_def)
    moreover have "emits E u (u\<lparr>dev := d\<rparr>)" for E and d by simp
    ultimately show ?thesis
      using that read by (auto simp: crc_body_def emits_def split: bool.splits prod.splits)
  qed
  obtain ok c u where run: "chunk_loop (crc_body P B off) len 0 (0, s) = (ok, c, u)"
    by (cases "chunk_loop (crc_body P B off) len 0 (0, s)") auto
  have "emits (buffer_reads B) s u"
    using chunk_loop_emits [where st = snd, OF body run] by simp
  then show "p4_flash_crc32 P B off len s = (res, t) \<Longrightarrow> ?thesis"
    by (auto simp: p4_flash_crc32_def run split: if_splits bool.splits)
qed

lemma walk_emits: "part_walk_from P B visit is c s = (ok, c', t) \<Longrightarrow> emits (buffer_reads B) s t"
proof (induction "is" arbitrary: c s)
  case (Cons i "is")
  obtain r u where read: "p4_flash_read P (P4_PART_TABLE_OFFSET + of_nat i * 32) (entry_buf B) 32 s = (r, u)" by fastforce
  have "emits (buffer_reads B) s u"
    by (rule flash_read_emits [OF read]) (auto simp: buffer_reads_def)
  then show ?case
    using Cons emits_trans [OF \<open>emits (buffer_reads B) s u\<close>]
    by (auto simp: read Let_def split: bool.splits prod.splits if_splits)
qed simp

lemma find_emits: "p4_part_find P B typ sub s = (res, t) \<Longrightarrow> emits (buffer_reads B) s t"
  using walk_emits by (fastforce simp: p4_part_find_def part_walk_def split: prod.splits bool.splits)

lemma dump_emits: "p4_part_dump P B s = (res, t) \<Longrightarrow> emits (buffer_reads B) s t"
  using walk_emits by (fastforce simp: p4_part_dump_def part_walk_def split: prod.splits)

lemma selftest_emits: "p4_flash_selftest P B s = (ok, t) \<Longrightarrow> emits (buffer_reads B) s t"
  using crc_emits emits_trans [OF crc_emits crc_emits]
  by (auto simp: p4_flash_selftest_def Let_def split: prod.splits option.splits)

lemma locate_goes: "locate P B s = (res, t) \<Longrightarrow> goes f B Bringing_up s Reading_flash t"
proof -
  obtain ok u where init: "p4_flash_init P s = (ok, u)" by fastforce
  have start: "goes f B Bringing_up s Reading_flash u"
    using init goes_trans [OF goes_act [OF boot_step.slow] goes_act [OF boot_step.chip]]
    by (auto simp: p4_flash_init_def Let_def)
  obtain ok1 v where test: "p4_flash_selftest P B u = (ok1, v)" by fastforce
  obtain shown w where dump: "p4_part_dump P B v = (shown, w)" by fastforce
  obtain k x where kern: "p4_part_find P B P4_PART_TYPE_KERNEL P4_PART_SUBTYPE_NONE w = (k, x)" by fastforce
  obtain d y where tree: "p4_part_find P B P4_PART_TYPE_DTB P4_PART_SUBTYPE_NONE x = (d, y)" by fastforce
  have v: "goes f B Bringing_up s Reading_flash v"
    by (rule goes_trans [OF start looks [OF selftest_emits [OF test]]])
  have x: "goes f B Bringing_up s Reading_flash x"
    by (rule goes_trans [OF v looks [OF emits_trans [OF dump_emits [OF dump] find_emits [OF kern]]]])
  have y: "goes f B Bringing_up s Reading_flash y"
    by (rule goes_trans [OF x looks [OF find_emits [OF tree]]])
  show "locate P B s = (res, t) \<Longrightarrow> ?thesis"
    using start v x y by (auto simp: locate_def init test dump kern tree split: bool.splits option.splits)
qed

lemma checksum_goes: "checksum P B parts s = (res, t) \<Longrightarrow> goes f B Reading_flash s Reading_flash t"
  using looks [OF crc_emits] looks [OF emits_trans [OF crc_emits crc_emits]]
  by (auto simp: checksum_def split: prod.splits option.splits)

subsection \<open>Training, testing and filling PSRAM\<close>

lemma psram_init_goes:
  assumes "p4_psram_init P s = (res, t)"
  shows "case res of None \<Rightarrow> goes f B Untrained s Trained t \<or> goes f B Untrained s Translated t
    | Some n \<Rightarrow> goes f B Untrained s (Mapped n) t"
proof -
  obtain err d where train: "psram_enable P (dev s) = (err, d)" by fastforce
  let ?s1 = "act Ev_psram_train (\<lambda>_. d) s"
  obtain err' n where size: "psram_physical_size P d = (err', n)" by fastforce
  let ?len = "n AND NOT (MMU_PAGE_SIZE - 1)"
  obtain mapped d2 where map: "mmu_map_region P 1 MMU_TARGET_PSRAM0 P4_PSRAM_VADDR 0 ?len d = (mapped, d2)"
    by fastforce
  have s1: "goes f B Untrained s Trained ?s1" by (rule goes_act [OF boot_step.train])
  have s2: "goes f B Untrained s Translated (act (Ev_mmu_map 1 P4_PSRAM_VADDR 0 ?len) (\<lambda>_. d2) ?s1)"
    by (rule goes_trans [OF s1 goes_act [OF boot_step.translate]])
  show ?thesis
    using assms s1 s2 goes_trans [OF s2 goes_trans [OF goes_act [OF boot_step.connect] goes_act [OF boot_step.discard]]]
    by (auto simp: p4_psram_init_def train size map Let_def split: if_splits)
qed

lemma start_goes: "goes f B Reading_flash s Untrained (p4_cache_init P (p4_clk_init P s))"
  unfolding p4_cache_init_def p4_clk_init_def
  by (rule goes_trans [OF goes_act [OF boot_step.xtal]
        goes_trans [OF goes_act [OF boot_step.cache] goes_act [OF boot_step.mmu]]])

definition may_refuse :: "'d platform \<Rightarrow> bool" where
  "may_refuse P = (\<exists>d. cpu_mhz_to_config P CPU_MHZ d = None)"

lemma raise_goes:
  assumes "p4_clk_cpu_set_mhz P CPU_MHZ s = (ok, t)"
  shows "goes (may_refuse P) B (Mapped n) s (Raised n) t"
proof (cases "cpu_mhz_to_config P CPU_MHZ (dev s)")
  case None
  then have "may_refuse P" "t = s" using assms by (auto simp: may_refuse_def p4_clk_cpu_set_mhz_def)
  then show ?thesis by (auto simp: goes_def intro: boot_trace.intros)
next
  case (Some cfg)
  then show ?thesis
    using assms goes_act [OF boot_step.raise] by (auto simp: p4_clk_cpu_set_mhz_def)
qed

definition word_writes :: "u32 \<Rightarrow> event set" where
  "word_writes n = {Ev_write a v | a v. a \<in> psram_words n}"

lemma writes: "emits (word_writes n) s t \<Longrightarrow> goes f B (Raised n) s (Raised n) t"
  by (rule goes_loop) (auto simp: word_writes_def intro: boot_step.test)

lemma fill_emits: "set (map word_addr is) \<subseteq> psram_words n \<Longrightarrow> emits (word_writes n) s (psram_fill P is s)"
  unfolding psram_fill_def
proof (induction "is" arbitrary: s)
  case (Cons i "is")
  have "emits (word_writes n) s (reg_write P (word_addr i) (pattern (word_addr i)) s)"
    using Cons.prems by (simp add: word_writes_def)
  then show ?case using emits_trans Cons by fastforce
qed simp

lemma check_emits: "psram_check P is k bad s = (k', bad', t) \<Longrightarrow> emits E s t"
proof (induction "is" arbitrary: k bad s)
  case (Cons i "is")
  obtain got u where read: "reg_read P (word_addr i) s = (got, u)" by fastforce
  show ?case
    using Cons.prems Cons.IH emits_trans [OF emits_read [OF read]] by (auto simp: read split: if_splits)
qed simp

lemma test_emits:
  assumes "p4_psram_test P n s = (ok, bad, t)"
  shows "emits (word_writes n) s t"
proof -
  let ?u = "psram_fill P [0..<unat n div 4] s"
  obtain k b v where check: "psram_check P [0..<unat n div 4] 0 0 ?u = (k, b, v)"
    by (cases "psram_check P [0..<unat n div 4] 0 0 ?u") auto
  have "emits (word_writes n) s ?u"
    by (rule fill_emits) (auto simp: psram_words_def window_def)
  then have "emits (word_writes n) s v" using check_emits [OF check] by (rule emits_trans)
  then show ?thesis using assms by (simp add: p4_psram_test_def Let_def check)
qed

lemma alias_emits:
  assumes "p4_psram_alias_test P s = (ok, t)"
  shows "emits (word_writes n) s t"
proof -
  let ?a = "P4_PSRAM_VADDR + 0x00100000"
  let ?b = "P4_PSRAM_VADDR + 0x00100000 + P4_NON_CACHEABLE_OFFSET"
  have E: "Ev_write ?a v \<in> word_writes n" "Ev_write ?b v \<in> word_writes n" for v
    by (auto simp: word_writes_def psram_words_def)
  obtain x s1 where r1: "reg_read P ?a (reg_write P ?b 0x11111111 s) = (x, s1)" by fastforce
  obtain y s2 where r2: "reg_read P ?b (reg_write P ?a 0x22222222 s1) = (y, s2)" by fastforce
  obtain z s3 where r3: "reg_read P ?b (reg_write P ?b 0x33333333 s2) = (z, s3)" by fastforce
  have go: "emits (word_writes n) u v" if "reg_read P a (reg_write P b w u) = (c, v)" "b \<in> {?a, ?b}" for a b w u c v
    by (rule emits_trans [OF _ emits_read [OF that(1)]]) (use E that(2) in auto)
  have "t = s3" using assms unfolding p4_psram_alias_test_def Let_def r1 prod.case r2 r3 by simp
  moreover have "emits (word_writes n) s s3"
    by (rule emits_trans [OF go [OF r1] emits_trans [OF go [OF r2] go [OF r3]]]) simp_all
  ultimately show ?thesis by simp
qed

lemma prepare_psram_goes:
  assumes "prepare_psram P s = (res, t)"
  shows "case res of Inl h \<Rightarrow> (h = Psram_init_failed \<and>
        (goes (may_refuse P) B Reading_flash s Trained t \<or> goes (may_refuse P) B Reading_flash s Translated t)) \<or>
      (\<exists>bad n. h = Psram_bad bad \<and> goes (may_refuse P) B Reading_flash s (Raised n) t)
    | Inr n \<Rightarrow> goes (may_refuse P) B Reading_flash s (Raised n) t"
proof -
  let ?f = "may_refuse P"
  let ?s1 = "p4_cache_init P (p4_clk_init P s)"
  note s1 = start_goes [of ?f B s P]
  obtain r s2 where init: "p4_psram_init P ?s1 = (r, s2)" by fastforce
  show ?thesis
  proof (cases r)
    case None
    then show ?thesis
      using assms psram_init_goes [OF init, of ?f B] goes_trans [OF s1]
      by (auto simp: prepare_psram_def init)
  next
    case (Some n)
    obtain raised s3 where cpu: "p4_clk_cpu_set_mhz P CPU_MHZ s2 = (raised, s3)" by fastforce
    obtain ok bad s4 where test: "p4_psram_test P n s3 = (ok, bad, s4)"
      by (cases "p4_psram_test P n s3") auto
    obtain uncached s5 where probe: "p4_psram_alias_test P s4 = (uncached, s5)" by fastforce
    have "goes ?f B Reading_flash s (Mapped n) s2"
      using psram_init_goes [OF init, of ?f B] Some goes_trans [OF s1] by simp
    then have "goes ?f B Reading_flash s (Raised n) s4"
      by (rule goes_trans [OF _ goes_trans [OF raise_goes [OF cpu] writes [OF test_emits [OF test]]]])
    then show ?thesis
      using assms goes_trans [OF _ writes [OF alias_emits [OF probe]]]
      by (auto simp: prepare_psram_def init Some cpu test probe split: bool.splits)
  qed
qed

text \<open>A payload: chunks into memory, then the range written back and invalidated.\<close>

lemma copy_goes:
  assumes "p4_flash_copy P off len (payload_pa x) s = (ok, t)" and "p \<in> {Raised n, Loading}"
  shows "goes f B p s p t \<or> goes f B p s Loading t" and "ok \<Longrightarrow> goes f B p s Loading t"
proof -
  define E where "E = {Ev_flash_read off dest len | off dest len. True}"
  obtain r u where run: "chunk_loop (copy_body P off (payload_pa x)) len 0 s = (r, u)" by fastforce
  have "emits E s u"
    using flash_read_emits [where E = E]
    by (intro chunk_loop_emits [where st = "\<lambda>s. s", OF _ run]) (auto simp: copy_body_def E_def)
  then have u: "goes f B p s p u \<or> goes f B p s Loading u"
    by (rule goes_enter) (use assms(2) in \<open>auto simp: E_def intro: boot_step.load boot_step.more\<close>)
  have pa: "payload_pa x \<in> {KERNEL_PA, DTB_PA}" by (cases x) simp_all
  define v where "v = act (Ev_writeback (payload_pa x) len) (cache_writeback_addr P (payload_pa x) len) u"
  have v: "goes f B q u Loading v" if "q \<in> {p, Loading}" for q
    unfolding v_def using that assms(2) pa
    by (auto intro!: goes_act intro: boot_step.load boot_step.more)
  then have "goes f B p s Loading v" using u goes_trans [OF _ v] by blast
  moreover have "goes f B Loading v Loading (act (Ev_invalidate (payload_pa x) len) g v)" for g
    using pa by (auto intro!: goes_act boot_step.more)
  ultimately have done_goes: "goes f B p s Loading (act (Ev_invalidate (payload_pa x) len) g v)" for g
    by (rule goes_trans)
  show "goes f B p s p t \<or> goes f B p s Loading t" "ok \<Longrightarrow> goes f B p s Loading t"
    using assms(1) u done_goes goes_refl [of f B p s]
    by (auto simp: p4_flash_copy_def run v_def split: if_splits bool.splits)
qed

lemma load_goes:
  assumes "load_payload P x part crc s = (res, t)" and "p \<in> {Raised n, Loading}"
  shows "case res of Inl h \<Rightarrow> (h = Copy_failed x \<and> (goes f B p s p t \<or> goes f B p s Loading t)) \<or>
      (\<exists>c c'. h = Mismatch x c c' \<and> goes f B p s Loading t)
    | Inr _ \<Rightarrow> goes f B p s Loading t"
proof -
  obtain ok u where copy: "p4_flash_copy P (part_offset part) (part_size part) (payload_pa x) s = (ok, u)" by fastforce
  obtain c d where crc: "crc32_le P 0 (payload_pa x) (part_size part) (dev u) = (c, d)" by fastforce
  have quiet: "goes f B p s Loading u \<Longrightarrow> goes f B p s Loading (u\<lparr>dev := d\<rparr>)" by (simp add: goes_def)
  show ?thesis
    using assms(1) copy_goes [OF copy assms(2), of f B] quiet
    by (auto simp: load_payload_def copy p4_mem_crc32_def crc split: if_splits bool.splits)
qed

lemma hand_over_goes: "goes f B Loading s Running (hand_over P (set_up_devices P s))"
proof -
  let ?t = "set_up_devices P s"
  have "goes f B Loading s Loading ?t \<or> goes f B Loading s Devices ?t"
    by (rule goes_enter [OF logs.devices]) (auto intro: boot_step.device boot_step.devices)
  then have "goes f B Loading s Clean (act Ev_writeback_all (cache_writeback_all P) ?t)"
    using goes_trans [OF _ goes_act [OF boot_step.bare]] goes_trans [OF _ goes_act [OF boot_step.clean]] by blast
  then show ?thesis
    unfolding hand_over_def by (rule goes_trans [OF _ goes_act [OF boot_step.go]])
qed

subsection \<open>Every boot is a run of the abstract boot\<close>

text \<open>The phases in which an outcome is reached.\<close>

fun reached :: "outcome \<Rightarrow> phase \<Rightarrow> bool" where
  "reached Jumped p = (p = Running)"
| "reached (Halted Psram_init_failed) p = (p \<in> {Trained, Translated})"
| "reached (Halted (Psram_bad a)) p = (\<exists>n. p = Raised n)"
| "reached (Halted (Copy_failed Kernel)) p = (p = Loading \<or> (\<exists>n. p = Raised n))"
| "reached (Halted (Copy_failed Dtb)) p = (p = Loading)"
| "reached (Halted (Mismatch x c c')) p = (p = Loading)"
| "reached (Halted h) p = (p = Reading_flash)"

text \<open>A stage started in the course of a boot ends in a phase of its halt, or in one of \<open>Q\<close>.\<close>

definition reaches :: "bool \<Rightarrow> buffers \<Rightarrow> 'd soc \<Rightarrow> phase set \<Rightarrow> (halt + 'a) \<times> 'd soc \<Rightarrow> bool" where
  "reaches f B s Q m = (\<exists>p. goes f B Bringing_up s p (snd m) \<and>
     (case fst m of Inl h \<Rightarrow> reached (Halted h) p | Inr _ \<Rightarrow> p \<in> Q))"

lemma reachesI:
  "goes f B Bringing_up s p u \<Longrightarrow> goes f B p u q t \<Longrightarrow> reached (Halted h) q \<Longrightarrow> reaches f B s Q (Inl h, t)"
  "goes f B Bringing_up s p u \<Longrightarrow> goes f B p u q t \<Longrightarrow> q \<in> Q \<Longrightarrow> reaches f B s Q (Inr x, t)"
  using goes_trans by (fastforce simp: reaches_def)+

lemma proceed_reaches:
  assumes "reaches f B s Q m"
    and "\<And>x u p. m = (Inr x, u) \<Longrightarrow> p \<in> Q \<Longrightarrow> goes f B Bringing_up s p u \<Longrightarrow> reaches f B s Q' (k x u)"
  shows "reaches f B s Q' (proceed m k)"
proof (cases m)
  case (Pair r u)
  then show ?thesis using assms by (cases r) (auto simp: reaches_def)
qed

lemma locate_reaches:
  assumes "goes f B Bringing_up s Bringing_up u"
  shows "reaches f B s {Reading_flash} (locate P B u)"
proof -
  obtain r t where run: "locate P B u = (r, t)" by fastforce
  have "reached (Halted h) Reading_flash" if "r = Inl h" for h
    using run that by (auto simp: locate_def split: prod.splits bool.splits option.splits)
  then show ?thesis
    unfolding run by (cases r) (auto intro: reachesI [OF assms locate_goes [OF run]])
qed

lemma checksum_reaches:
  assumes "goes f B Bringing_up s Reading_flash u"
  shows "reaches f B s {Reading_flash} (checksum P B parts u)"
proof -
  obtain r t where run: "checksum P B parts u = (r, t)" by fastforce
  have "reached (Halted h) Reading_flash" if "r = Inl h" for h
    using run that by (auto simp: checksum_def split: prod.splits option.splits)
  then show ?thesis
    unfolding run by (cases r) (auto intro: reachesI [OF assms checksum_goes [OF run]])
qed

lemma prepare_psram_reaches:
  assumes "goes (may_refuse P) B Bringing_up s Reading_flash u"
  shows "reaches (may_refuse P) B s (range Raised) (prepare_psram P u)"
proof -
  obtain r t where run: "prepare_psram P u = (r, t)" by fastforce
  show ?thesis
    using prepare_psram_goes [OF run, of B] unfolding run
    by (cases r) (auto intro: reachesI(1) [OF assms, where q = Trained] reachesI(1) [OF assms, where q = Translated]
      reachesI(1) [OF assms, where q = "Raised _"] reachesI(2) [OF assms])
qed

lemma load_reaches:
  assumes "goes f B Bringing_up s p u" and "if x = Kernel then p \<in> range Raised else p = Loading"
  shows "reaches f B s {Loading} (load_payload P x part crc u)"
proof -
  obtain r t where run: "load_payload P x part crc u = (r, t)" by fastforce
  obtain n where p: "p \<in> {Raised n, Loading}" using assms(2) by (auto split: if_splits)
  show ?thesis
    using load_goes [OF run p, of f B] assms(2) unfolding run
    by (cases r; cases x) (auto intro: reachesI(1) [OF assms(1), where q = Loading]
      reachesI(1) [OF assms(1), where q = p] reachesI(2) [OF assms(1)])
qed

lemma boot_from_flash_reaches:
  assumes "goes (may_refuse P) B Bringing_up s Bringing_up u"
  shows "reaches (may_refuse P) B s {Running} (boot_from_flash P B u)"
proof -
  let ?go = "goes (may_refuse P) B Bringing_up s" and ?reaches = "reaches (may_refuse P) B s"
  have load_dtb: "?reaches {Running} (proceed (load_payload P Dtb part crc v)
      (\<lambda>_ s. (Inr (), hand_over P (set_up_devices P s))))" if "?go Loading v" for v part crc
    by (rule proceed_reaches [OF load_reaches [OF that]]) (auto intro: reachesI [OF _ hand_over_goes])
  have load: "?reaches {Running} (proceed (load_payload P Kernel part crc v) (\<lambda>_ s.
      proceed (load_payload P Dtb part' crc' s) (\<lambda>_ s. (Inr (), hand_over P (set_up_devices P s)))))"
    if "?go p v" "p \<in> range Raised" for v p part crc part' crc'
    by (rule proceed_reaches [OF load_reaches [OF that(1)]]) (use that(2) in \<open>auto intro: load_dtb\<close>)
  show ?thesis
    unfolding boot_from_flash_def
    by (rule proceed_reaches [OF locate_reaches [OF assms]], clarify, rule proceed_reaches [OF checksum_reaches],
        simp, clarify, rule proceed_reaches [OF prepare_psram_reaches], simp, erule load)
qed

lemma boot_main_log:
  assumes "boot_main P B s = Some (out, t)"
  shows "\<exists>es p. log t = log s @ es \<and> boot_trace (may_refuse P) B Bringing_up es p \<and> reached out p"
proof -
  obtain switched reason u where up: "bring_up P s = Some (switched, reason, u)"
    using assms by (auto simp: boot_main_def split: option.splits)
  obtain r v where rest: "boot_from_flash P B u = (r, v)" by fastforce
  have "reaches (may_refuse P) B s {Running} (r, v)"
    unfolding rest [symmetric] by (rule boot_from_flash_reaches [OF bring_up_goes [OF up]])
  then obtain p es where run: "log v = log s @ es" "boot_trace (may_refuse P) B Bringing_up es p"
      and stop: "case r of Inl h \<Rightarrow> reached (Halted h) p | Inr _ \<Rightarrow> p \<in> {Running}"
    unfolding reaches_def goes_def by auto
  have "t = v \<and> reached out p"
    using assms stop by (cases r) (simp_all add: boot_main_def up rest split: unit.splits)
  then show ?thesis using run by blast
qed

text \<open>
  C8: every run of the bootloader, on any hardware and whatever its outcome, is a run of the
  abstract boot: what it adds to the log is a sequence of events that the phases allow, ending in
  a phase of that outcome. The CPU clock is raised between training and the first write to PSRAM,
  unless the hardware can refuse the frequency.
\<close>

theorem boot_order:
  assumes "boot_main P B s = Some (out, t)"
  shows "\<exists>es p. log t = log s @ es \<and> boot_trace (may_refuse P) B Bringing_up es p \<and> reached out p"
  using assms by (rule boot_main_log)

subsection \<open>What the abstract boot guarantees\<close>

inductive_cases running_trace: "boot_trace f B Running es p"
inductive_cases jump_step: "boot_step B p (Ev_jump k d) q"
inductive_cases into_running: "boot_step B p e Running"
inductive_cases into_clean: "boot_step B p e Clean"
inductive_cases empty_trace: "boot_trace f B p [] q"

lemma trace_split:
  "boot_trace f B p es r \<Longrightarrow> es = xs @ e # ys \<Longrightarrow>
     \<exists>q q'. boot_trace f B p xs q \<and> boot_step B q e q' \<and> boot_trace f B q' ys r"
proof (induction arbitrary: xs rule: boot_trace.induct)
  case (step p e' q es r)
  show ?case
  proof (cases xs)
    case Nil
    then show ?thesis using step by (auto intro: boot_trace.stop)
  next
    case (Cons x xs')
    then show ?thesis using step by (fastforce intro: boot_trace.step)
  qed
next
  case (skip n es r)
  then show ?case by (blast intro: boot_trace.skip)
qed simp

definition trained_phase :: "phase \<Rightarrow> bool" where
  "trained_phase p = (p \<notin> {Bringing_up, Slow_flash, Reading_flash, Clocked, Cache_up, Untrained})"

definition raised_phase :: "phase \<Rightarrow> bool" where
  "raised_phase p = (trained_phase p \<and> p \<notin> {Trained, Translated, Connected} \<and> (\<forall>n. p \<noteq> Mapped n))"

lemma trace_milestones:
  "boot_trace f B p es q \<Longrightarrow>
     (trained_phase q \<longrightarrow> trained_phase p \<or> Ev_psram_train \<in> set es) \<and>
     (raised_phase q \<longrightarrow> raised_phase p \<or> f \<or> Ev_cpu_set CPU_MHZ \<in> set es)"
proof (induction rule: boot_trace.induct)
  case (step p e q es r)
  have "trained_phase q \<longrightarrow> trained_phase p \<or> e = Ev_psram_train"
    "raised_phase q \<longrightarrow> raised_phase p \<or> e = Ev_cpu_set CPU_MHZ"
    using step.hyps(1) by (cases; simp add: trained_phase_def raised_phase_def)+
  then show ?case using step.IH by auto
qed (auto simp: trained_phase_def raised_phase_def)

text \<open>Events that store to PSRAM: through the cache, by the flash reader, or by writing back.\<close>

fun stores_to_psram :: "buffers \<Rightarrow> event \<Rightarrow> bool" where
  "stores_to_psram B (Ev_write a v) = (a \<notin> peripherals)"
| "stores_to_psram B (Ev_flash_read off dest len) = (dest \<notin> {s_buf B, entry_buf B})"
| "stores_to_psram B (Ev_writeback a n) = True"
| "stores_to_psram B Ev_writeback_all = True"
| "stores_to_psram B e = False"

lemma store_raised: "boot_step B p e q \<Longrightarrow> stores_to_psram B e \<Longrightarrow> raised_phase p"
  by (induction rule: boot_step.induct)
    (auto simp: raised_phase_def trained_phase_def board_events_def register_events_def)

lemma trace_to_running:
  "boot_trace f B p es Running \<Longrightarrow> p \<noteq> Running \<Longrightarrow> es \<noteq> [] \<and> last es = Ev_jump KERNEL_PA DTB_PA"
proof (induction p es "Running" rule: boot_trace.induct)
  case (step p e q es)
  then show ?case
    by (cases "q = Running") (auto elim: into_running running_trace boot_step.cases)
qed auto

lemma trace_to_clean:
  "boot_trace f B p es Clean \<Longrightarrow> p \<noteq> Clean \<Longrightarrow> \<exists>zs. es = zs @ [Ev_writeback_all]"
proof (induction p es "Clean" rule: boot_trace.induct)
  case (step p e q es)
  show ?case
  proof (cases "q = Clean")
    case True
    have "es = []" using step.hyps(2) [unfolded True]
      by (cases rule: boot_trace.cases) (auto elim: boot_step.cases boot_trace.cases)
    then show ?thesis using step.hyps(1) True by (auto elim: into_clean)
  next
    case False
    then obtain zs where "es = zs @ [Ev_writeback_all]" using step by blast
    then have "e # es = (e # zs) @ [Ev_writeback_all]" by simp
    then show ?thesis by blast
  qed
qed auto

lemma reached_running: "reached out Running \<longleftrightarrow> out = Jumped"
  by (cases "(out, Running)" rule: reached.cases) simp_all

text \<open>
  C3: in every boot, PSRAM is stored to (by the CPU, by the flash reader or by a writeback) only
  after it has been trained; and only after the CPU has been raised, unless the clock code refuses
  360 MHz in some state (\<open>may_refuse\<close>): then the bootloader reports it and goes on, and PSRAM is
  written at the old clock. A boot that halts never jumps; one that does not halt jumps exactly once, as the
  last thing it does, to the kernel with the device tree, right after all caches are written back.
\<close>

theorem boot_stores_after_raise:
  assumes "boot_main P B s = Some (out, t)" and "log s = []"
  shows "(\<forall>xs e ys. log t = xs @ e # ys \<and> stores_to_psram B e \<longrightarrow>
      Ev_psram_train \<in> set xs \<and> (Ev_cpu_set CPU_MHZ \<in> set xs \<or> may_refuse P)) \<and>
    (\<forall>xs pa dtb ys. log t = xs @ Ev_jump pa dtb # ys \<longrightarrow>
      out = Jumped \<and> ys = [] \<and> pa = KERNEL_PA \<and> dtb = DTB_PA \<and> (\<exists>zs. xs = zs @ [Ev_writeback_all])) \<and>
    (out = Jumped \<longrightarrow> log t \<noteq> [] \<and> last (log t) = Ev_jump KERNEL_PA DTB_PA)"
proof -
  let ?f = "may_refuse P"
  obtain p where run: "boot_trace ?f B Bringing_up (log t) p" "reached out p"
    using boot_main_log [OF assms(1)] assms(2) by auto
  have "Ev_psram_train \<in> set xs \<and> (Ev_cpu_set CPU_MHZ \<in> set xs \<or> ?f)"
    if split: "log t = xs @ e # ys" and store: "stores_to_psram B e" for xs e ys
  proof -
    obtain q q' where q: "boot_trace ?f B Bringing_up xs q" "boot_step B q e q'"
      using trace_split [OF run(1) split] by blast
    have "raised_phase q" by (rule store_raised [OF q(2) store])
    then show ?thesis
      using trace_milestones [OF q(1)] by (auto simp: raised_phase_def trained_phase_def)
  qed
  moreover have "out = Jumped \<and> ys = [] \<and> pa = KERNEL_PA \<and> dtb = DTB_PA \<and> (\<exists>zs. xs = zs @ [Ev_writeback_all])"
    if split: "log t = xs @ Ev_jump pa dtb # ys" for xs pa dtb ys
  proof -
    obtain q q' where q: "boot_trace ?f B Bringing_up xs q" "boot_step B q (Ev_jump pa dtb) q'"
        "boot_trace ?f B q' ys p" using trace_split [OF run(1) split] by blast
    have jump: "q = Clean" "q' = Running" "pa = KERNEL_PA" "dtb = DTB_PA"
      using q(2) by (auto elim: jump_step simp: board_events_def register_events_def)
    have "ys = [] \<and> p = Running"
      using q(3) unfolding jump(2) by (auto elim!: running_trace elim: boot_step.cases)
    then show ?thesis
      using jump q(1) trace_to_clean run(2) reached_running by auto
  qed
  moreover have "log t \<noteq> [] \<and> last (log t) = Ev_jump KERNEL_PA DTB_PA" if "out = Jumped"
    using run that trace_to_running by simp
  ultimately show ?thesis by blast
qed

end
