(* ===== verification/BootRefuse.thy ===== *)
theory BootRefuse
  imports BootOk BootOrder
begin

text \<open>
  What \<open>bootloader/main.c\<close> refuses to boot: flash contents without both payloads, or with a
  payload that cannot be read, halt it with the reason, before PSRAM is touched at all.
\<close>

text \<open>The verdict on the flash contents alone: the table, then each payload in turn.\<close>

definition flash_fault :: "mem \<Rightarrow> halt option" where
  "flash_fault F =
     (case table_verdict F of
        Inl h \<Rightarrow> Some h
      | Inr (k, d) \<Rightarrow>
          if \<not> readable k then Some (Unreadable Kernel)
          else if \<not> readable d then Some (Unreadable Dtb)
          else None)"

text \<open>Nothing but the board set-up, and flash reads into the code's own two buffers.\<close>

definition looking :: "buffers \<Rightarrow> event set" where
  "looking B = board_events \<union> {Ev_low_speed True, Ev_chip_size P4_FLASH_SIZE} \<union>
     {Ev_flash_read off dest len | off dest len. dest \<in> {s_buf B, entry_buf B}}"

definition early_phase :: "phase \<Rightarrow> bool" where
  "early_phase p = (p \<in> {Bringing_up, Slow_flash, Reading_flash})"

lemma early_trace: "boot_trace f B p es q \<Longrightarrow> early_phase q \<Longrightarrow> early_phase p \<and> set es \<subseteq> looking B"
proof (induction rule: boot_trace.induct)
  case (step p e q es r)
  then have "early_phase q" by simp
  with step.hyps(1) have "early_phase p \<and> e \<in> looking B"
    by (cases rule: boot_step.cases) (auto simp: early_phase_def looking_def)
  with step show ?case by simp
qed (simp_all add: early_phase_def)

lemma fault_early: "flash_fault F = Some h \<Longrightarrow> reached (Halted h) p \<Longrightarrow> early_phase p"
  by (cases "(Halted h, p)" rule: reached.cases)
    (auto simp: flash_fault_def table_verdict_def early_phase_def split: option.splits if_splits)

lemma checksum_fault:
  assumes "crc_ok P B F ram crcf" and "chip_size P (dev s) = P4_FLASH_SIZE"
    and "table_verdict F = Inr (k, d)" and "flash_fault F = Some h"
  shows "\<exists>t. checksum P B (found k, found d) s = (Inl h, t)"
proof -
  obtain u where u: "p4_flash_crc32 P B (poffset k) (psize k) s =
      (if readable k then Some (part_crc crcf F k) else None, u)"
      "readable k \<longrightarrow> chip_size P (dev u) = P4_FLASH_SIZE"
    using part_crc_result [OF assms(1,2)] by blast
  obtain t where t: "readable k \<Longrightarrow> p4_flash_crc32 P B (poffset d) (psize d) u =
      (if readable d then Some (part_crc crcf F d) else None, t)"
    using part_crc_result [OF assms(1), of u d] u(2) by blast
  show ?thesis
    using assms(3,4) u(1) t by (auto simp: flash_fault_def checksum_def found_def split: if_splits)
qed

text \<open>
  C9: flash contents that do not hold both payloads halt the boot. Whatever is in flash, if the
  table names no kernel or no device tree, or one of them is misaligned or reaches past the 16 MB
  chip, the boot ends in the halt for the first of these faults in the order of the code; until
  then it has set up the board and read flash into its own buffers, nothing else: PSRAM is neither
  trained nor written, and nothing is jumped to.
\<close>

theorem boot_refuses:
  assumes "crc_ok P B F ram crcf" and "table_ok P B F ram" and "\<And>s. uart_wait_update P s \<noteq> None"
    and "flash_fault F = Some h"
  shows "\<exists>t es. boot_main P B s = Some (Halted h, t) \<and> log t = log s @ es \<and> set es \<subseteq> looking B"
proof -
  obtain switched reason s1 where s1: "bring_up P s = Some (switched, reason, s1)"
    using bring_up_succeeds assms(3) by blast
  obtain s2 where s2: "locate P B s1 = (map_sum id (\<lambda>(k, d). (found k, found d)) (table_verdict F), s2)"
      "chip_size P (dev s2) = P4_FLASH_SIZE"
    using locate_result [OF assms(1,2)] by blast
  have "\<exists>t. boot_from_flash P B s1 = (Inl h, t)"
  proof (cases "table_verdict F")
    case (Inl h')
    then show ?thesis using assms(4) s2(1) by (simp add: boot_from_flash_def flash_fault_def)
  next
    case (Inr kd)
    obtain k d where kd: "kd = (k, d)" by fastforce
    then show ?thesis
      using checksum_fault [OF assms(1) s2(2) _ assms(4)] s2(1) Inr by (auto simp: boot_from_flash_def)
  qed
  then obtain t where run: "boot_main P B s = Some (Halted h, t)" using s1 by (auto simp: boot_main_def)
  then obtain es p where "log t = log s @ es" "boot_trace (may_refuse P) B Bringing_up es p" "reached (Halted h) p"
    using boot_main_log by blast
  then show ?thesis using early_trace fault_early [OF assms(4)] run by blast
qed

end
