(* ===== verification/FlashmapOk.thy ===== *)
theory FlashmapOk
  imports Flashmap BootRefuse
begin

text \<open>
  The two sides of the flash layout together: what \<open>flashmap.py\<close> writes is what the bootloader's
  table walk reads, the checksums they compute are the same, and a board flashed by
  \<open>make flash-all\<close> boots the payloads it was given.
\<close>

lemma map_sum_Inr: "map_sum f g x = Inr z \<longleftrightarrow> (\<exists>y. x = Inr y \<and> z = g y)"
  by (cases x) auto

subsection \<open>What an accepted layout guarantees\<close>

lemma check_parts_None:
  "check_parts ps = None \<longleftrightarrow>
     (\<forall>p \<in> set ps. 0x9000 \<le> p_off p \<and> p_off p mod 0x1000 = 0 \<and> p_size p mod 0x1000 = 0)"
  by (induction ps) (auto simp: check_part_def)

definition ends_before :: "csv_part \<Rightarrow> csv_part \<Rightarrow> bool" where
  "ends_before a b = (p_off a + p_size a \<le> p_off b)"

text \<open>Neighbours that do not overlap are enough, as long as no size is negative.\<close>

lemma neighbours_apart:
  "check_neighbours ps = None \<Longrightarrow> \<forall>p \<in> set ps. 0 \<le> p_size p \<Longrightarrow> sorted_wrt ends_before ps"
proof (induction ps rule: check_neighbours.induct)
  case (1 a b ps)
  have ab: "ends_before a b" using 1(2) by (simp add: ends_before_def split: if_splits)
  have rest: "sorted_wrt ends_before (b # ps)" using 1 by (simp split: if_splits)
  have "ends_before a c" if "c \<in> set ps" for c
    using ab rest that 1(3) by (fastforce simp: ends_before_def)
  then show ?case using ab rest by simp
qed simp_all

lemma pack_B_Some: "pack_B x = Some bs \<longleftrightarrow> 0 \<le> x \<and> x < 256 \<and> bs = [word_of_int x]"
  by (auto simp: pack_B_def)

lemma pack_L_Some: "pack_L x = Some bs \<longleftrightarrow> 0 \<le> x \<and> x < 2 ^ 32 \<and> bs = le32 (word_of_int x)"
  by (auto simp: pack_L_def)

definition part_entry :: "csv_part \<Rightarrow> p4_part_entry" where
  "part_entry p = \<lparr>magic = P4_PART_MAGIC, ptype = word_of_int (p_type p), subtype = word_of_int (p_sub p),
     poffset = word_of_int (p_off p), psize = word_of_int (p_size p),
     plabel = encode (p_name p) @ replicate (16 - length (encode (p_name p))) 0, pflags = 0\<rparr>"

definition fits_entry :: "csv_part \<Rightarrow> bool" where
  "fits_entry p = (0 \<le> p_type p \<and> p_type p < 256 \<and> 0 \<le> p_sub p \<and> p_sub p < 256 \<and>
     0 \<le> p_off p \<and> p_off p < 2 ^ 32 \<and> 0 \<le> p_size p \<and> p_size p < 2 ^ 32 \<and> length (encode (p_name p)) \<le> 16)"

lemma pack_entry_Inr:
  "pack_entry p = Inr bs \<longleftrightarrow> fits_entry p \<and>
     bs = [0xAA, 0x50, word_of_int (p_type p), word_of_int (p_sub p)] @ le32 (word_of_int (p_off p)) @
       le32 (word_of_int (p_size p)) @ encode (p_name p) @ replicate (16 - length (encode (p_name p))) 0 @ le32 0"
  by (auto simp: pack_entry_def Let_def pack_B_Some pack_L_Some fits_entry_def split: option.splits)
    (auto simp: pack_B_def pack_L_def split: if_splits)

subsection \<open>Reading back the table\<close>

lemma bytes_at_part:
  assumes "i + k \<le> n"
  shows "bytes_at F (a + of_nat i) k = take k (drop i (bytes_at F a n))"
  using assms by (intro nth_equalityI) (auto simp: bytes_at_def add.assoc)

text \<open>An entry as a function of its 32 bytes.\<close>

definition entry_of :: "u8 list \<Rightarrow> p4_part_entry" where
  "entry_of bs = entry_at (\<lambda>a. bs ! unat a) 0"

lemma entry_of_bytes: "bytes_at F a 32 = bs \<Longrightarrow> entry_at F a = entry_of bs"
  unfolding entry_of_def by (rule entry_at_cong) (auto simp: bytes_at_def unat_of_nat)

lemma take_concat:
  assumes "\<forall>c \<in> set cs. length c = k" and "i < length cs"
  shows "take k (drop (i * k) (concat cs)) = cs ! i"
  using assms
proof (induction cs arbitrary: i)
  case (Cons c cs)
  then show ?case by (cases i) auto
qed simp

lemma part_table_chunks:
  assumes "bytes_at F P4_PART_TABLE_OFFSET 4096 = concat cs" and "\<forall>c \<in> set cs. length c = 32" and "length cs = 128"
  shows "part_table F = real_entries (map entry_of cs)"
proof -
  have "flash_entry F i = entry_of (cs ! i)" if i: "i < 128" for i
  proof -
    have "bytes_at F (P4_PART_TABLE_OFFSET + of_nat (i * 32)) 32 = cs ! i"
      using bytes_at_part [of "i * 32" 32 4096] take_concat [of cs 32 i] i assms by simp
    then show ?thesis unfolding flash_entry_def by (intro entry_of_bytes) simp
  qed
  then have "map (flash_entry F) [0..<P4_PART_MAX_ENTRIES] = map (\<lambda>i. entry_of (cs ! i)) [0..<length cs]"
    using assms(3) by (auto simp: const_defs)
  also have "\<dots> = map entry_of cs" by (rule nth_equalityI) auto
  finally show ?thesis by (simp add: part_table_def)
qed

lemma u32_le_le32: "bs = xs @ le32 v @ ys \<Longrightarrow> length xs = n \<Longrightarrow> n < 2 ^ 31 \<Longrightarrow>
    u32_le (\<lambda>a. bs ! unat a) (of_nat n) = v"
  by (rule bit_word_eqI)
    (auto simp: bit_u32_le le32_def bit_simps nth_append unat_of_nat unat_word_ariths)

lemma bytes_at_list: "length xs = n \<Longrightarrow> n + k \<le> length bs \<Longrightarrow> length bs < 2 ^ 32 \<Longrightarrow>
    bytes_at (\<lambda>a. bs ! unat a) (of_nat n) k = take k (drop n bs)"
  by (rule nth_equalityI) (auto simp: bytes_at_def unat_word_ariths unat_of_nat simp flip: of_nat_add)

lemma entry_of_packed:
  assumes "length label = 16"
  shows "entry_of ([m0, m1, t, u] @ le32 a @ le32 n @ label @ le32 f) =
    \<lparr>magic = ucast m0 OR push_bit 8 (ucast m1), ptype = t, subtype = u, poffset = a, psize = n, plabel = label, pflags = f\<rparr>"
    (is "entry_of ?bs = _")
proof -
  have parts: "length (le32 v) = 4" for v by (simp add: le32_def)
  have "u32_le (\<lambda>x. ?bs ! unat x) (of_nat 4) = a"
    by (rule u32_le_le32 [of _ "[m0, m1, t, u]" _ "le32 n @ label @ le32 f"]) simp_all
  moreover have "u32_le (\<lambda>x. ?bs ! unat x) (of_nat 8) = n"
    by (rule u32_le_le32 [of _ "[m0, m1, t, u] @ le32 a" _ "label @ le32 f"]) (simp_all add: parts)
  moreover have "u32_le (\<lambda>x. ?bs ! unat x) (of_nat 28) = f"
    by (rule u32_le_le32 [of _ "[m0, m1, t, u] @ le32 a @ le32 n @ label" _ "[]"]) (simp_all add: parts assms)
  moreover have "bytes_at (\<lambda>x. ?bs ! unat x) (of_nat 12) 16 = label"
    by (subst bytes_at_list [of "[m0, m1, t, u] @ le32 a @ le32 n"]) (simp_all add: parts assms)
  ultimately show ?thesis by (simp add: entry_of_def entry_at_def u16_le_def)
qed

lemma entry_of_pack:
  assumes "pack_entry p = Inr bs"
  shows "entry_of bs = part_entry p \<and> length bs = 32"
proof -
  note bs = assms [unfolded pack_entry_Inr fits_entry_def]
  let ?label = "encode (p_name p) @ replicate (16 - length (encode (p_name p))) 0"
  have label: "length ?label = 16" using bs by simp
  have "entry_of bs = \<lparr>magic = ucast (0xAA :: u8) OR push_bit 8 (ucast (0x50 :: u8)), ptype = word_of_int (p_type p),
      subtype = word_of_int (p_sub p), poffset = word_of_int (p_off p), psize = word_of_int (p_size p),
      plabel = ?label, pflags = 0\<rparr>"
    using entry_of_packed [OF label, of "0xAA" "0x50" "word_of_int (p_type p)" "word_of_int (p_sub p)"
        "word_of_int (p_off p)" "word_of_int (p_size p)" 0] bs by simp
  moreover have "length bs = 32" using bs by (simp add: le32_def)
  ultimately show ?thesis by (simp add: part_entry_def const_defs)
qed

lemma entry_of_end:
  "entry_of (replicate 32 0xFF) = \<lparr>magic = 0xFFFF, ptype = 0xFF, subtype = 0xFF, poffset = 0xFFFFFFFF,
     psize = 0xFFFFFFFF, plabel = replicate 16 0xFF, pflags = 0xFFFFFFFF\<rparr>"
  by code_simp

lemma entry_of_md5: "magic (entry_of (md5_entry md5 blob)) = P4_PART_MAGIC_MD5"
  by (simp add: entry_of_def entry_at_def u16_le_def md5_entry_def const_defs)

text \<open>The whole table: the entries, the checksum, erased flash.\<close>

lemma pack_entries_Inr:
  "pack_entries ps = Inr blob \<Longrightarrow> \<exists>cs. blob = concat cs \<and> length cs = length ps \<and>
     (\<forall>c \<in> set cs. length c = 32) \<and> map entry_of cs = map part_entry ps \<and> (\<forall>p \<in> set ps. fits_entry p)"
proof (induction ps arbitrary: blob)
  case (Cons p ps)
  obtain bs rest where bs: "pack_entry p = Inr bs" "pack_entries ps = Inr rest" "blob = bs @ rest"
    using Cons.prems by (cases "pack_entry p"; cases "pack_entries ps") auto
  obtain cs where "rest = concat cs \<and> length cs = length ps \<and> (\<forall>c \<in> set cs. length c = 32) \<and>
      map entry_of cs = map part_entry ps \<and> (\<forall>p \<in> set ps. fits_entry p)"
    using Cons.IH [OF bs(2)] by blast
  then show ?case
    using bs entry_of_pack [OF bs(1)] pack_entry_Inr [of p bs] by (intro exI [of _ "bs # cs"]) auto
qed simp

lemma real_entries_parts: "real_entries (map part_entry ps @ es) = map part_entry ps @ real_entries es"
  by (induction ps) (simp_all add: part_entry_def const_defs)

lemma length_concat_const: "\<forall>c \<in> set cs. length c = k \<Longrightarrow> length (concat cs) = length cs * k"
  by (induction cs) auto

lemma concat_erased: "concat (replicate n (replicate k x)) = replicate (n * k) x"
  by (induction n) (simp_all add: replicate_add)

lemma binary_table:
  assumes "cmd_binary md5 rows = Inr table" and "\<And>bs. length (md5 bs) = 16"
    and "bytes_at F P4_PART_TABLE_OFFSET 4096 = table @ replicate (4096 - length table) 0xFF"
  shows "\<exists>ps. parse_layout rows = Inr ps \<and> check_layout ps = None \<and> (\<forall>p \<in> set ps. fits_entry p) \<and>
    part_table F = map part_entry ps"
proof -
  obtain ps blob where ps: "parse_layout rows = Inr ps" "check_layout ps = None" "pack_entries ps = Inr blob"
    and table: "table = blob @ md5_entry md5 blob"
    using assms(1) by (auto simp: cmd_binary_def map_sum_Inr split: sum.splits option.splits)
  obtain cs where cs: "blob = concat cs" "length cs = length ps" "\<forall>c \<in> set cs. length c = 32"
    "map entry_of cs = map part_entry ps" "\<forall>p \<in> set ps. fits_entry p"
    using pack_entries_Inr [OF ps(3)] by blast
  have md5: "length (md5_entry md5 x) = 32" for x using assms(2) by (simp add: md5_entry_def)
  have len: "length table = (length cs + 1) * 32"
    by (simp add: table cs(1) md5 length_concat_const [OF cs(3)])
  have "length (bytes_at F P4_PART_TABLE_OFFSET 4096) = 4096" by (simp add: bytes_at_def)
  then have small: "length table \<le> 4096" unfolding assms(3) by simp
  let ?cs = "cs @ [md5_entry md5 blob] @ replicate (127 - length cs) (replicate 32 0xFF)"
  have "bytes_at F P4_PART_TABLE_OFFSET 4096 = concat ?cs"
    using len small by (simp add: assms(3) table cs(1) concat_erased diff_mult_distrib)
  moreover have "\<forall>c \<in> set ?cs. length c = 32" "length ?cs = 128"
    using cs(3) md5 len small by auto
  ultimately have "part_table F = real_entries (map entry_of ?cs)" by (rule part_table_chunks)
  also have "\<dots> = map part_entry ps @ real_entries (replicate (127 - length cs) (entry_of (replicate 32 0xFF)))"
    using cs(4) real_entries_parts entry_of_md5 by simp
  also have "real_entries (replicate n (entry_of (replicate 32 0xFF))) = []" for n
    by (cases n) (simp_all add: entry_of_end const_defs)
  finally show ?thesis using ps cs(5) by simp
qed

subsection \<open>The layout the bootloader sees\<close>

lemma layout_apart:
  assumes "check_layout ps = None" and "\<forall>p \<in> set ps. fits_entry p" and "p \<in> set ps" and "q \<in> set ps" and "p \<noteq> q"
  shows "ends_before p q \<or> ends_before q p"
proof -
  let ?qs = "sort_key p_off ps"
  have "sorted_wrt ends_before ?qs"
    using assms(1,2) by (intro neighbours_apart) (auto simp: check_layout_def fits_entry_def split: option.splits)
  moreover obtain i j where "i < length ?qs" "j < length ?qs" "?qs ! i = p" "?qs ! j = q"
    using assms(3,4) by (metis in_set_conv_nth set_sort)
  ultimately show ?thesis using assms(5) by (metis linorder_neqE_nat sorted_wrt_nth_less)
qed

lemma layout_aligned:
  assumes "check_layout ps = None" and "p \<in> set ps"
  shows "0x9000 \<le> p_off p" "p_off p mod 0x1000 = 0" "p_size p mod 0x1000 = 0"
  using assms by (auto simp: check_layout_def check_parts_None split: option.splits)

text \<open>
  C10: whatever the layout file, if \<open>flashmap.py\<close> makes a table of it and the table is written to
  erased flash, then the bootloader reads back exactly the lines of the file, in their order, with
  the numbers and the name given there; and the partitions are whole flash sectors, clear of the
  bootloader and the table, none overlapping another.
\<close>

theorem flashmap_roundtrip:
  assumes "cmd_binary md5 rows = Inr table" and "\<And>bs. length (md5 bs) = 16"
    and "bytes_at F 0x8000 4096 = table @ replicate (4096 - length table) 0xFF"
  shows "\<exists>ps. parse_layout rows = Inr ps \<and>
    map (\<lambda>e. (uint (ptype e), uint (subtype e), uint (poffset e), uint (psize e))) (part_table F) =
      map (\<lambda>p. (p_type p, p_sub p, p_off p, p_size p)) ps \<and>
    map plabel (part_table F) =
      map (\<lambda>p. encode (p_name p) @ replicate (16 - length (encode (p_name p))) 0) ps \<and>
    (\<forall>p \<in> set ps. 0x9000 \<le> p_off p \<and> p_off p mod 0x1000 = 0 \<and> p_size p mod 0x1000 = 0) \<and>
    (\<forall>p \<in> set ps. \<forall>q \<in> set ps. p \<noteq> q \<longrightarrow> p_off p + p_size p \<le> p_off q \<or> p_off q + p_size q \<le> p_off p)"
proof -
  obtain ps where ps: "parse_layout rows = Inr ps" "check_layout ps = None" "\<forall>p \<in> set ps. fits_entry p"
    "part_table F = map part_entry ps"
    using binary_table [OF assms(1,2)] assms(3) by (auto simp: P4_PART_TABLE_OFFSET_def)
  have "uint (word_of_int x :: u8) = x" if "0 \<le> x" "x < 256" for x
    using that by (simp add: uint_word_of_int)
  moreover have "uint (word_of_int x :: u32) = x" if "0 \<le> x" "x < 2 ^ 32" for x
    using that by (simp add: uint_word_of_int)
  ultimately show ?thesis
    using ps layout_apart [OF ps(2,3)] layout_aligned [OF ps(2)]
    by (intro exI [of _ ps]) (auto simp: part_entry_def fits_entry_def ends_before_def)
qed

subsection \<open>A flashed board\<close>

text \<open>
  What \<open>espflash\<close> documents, within the 16 MB chip: \<open>erase-region\<close> erases whole sectors, and
  \<open>write-bin\<close> writes its bytes, erasing at most the rest of the last sector it touches.
\<close>

definition sectors :: "nat \<Rightarrow> nat" where
  "sectors n = (n + 4095) div 4096 * 4096"

definition espflash_ok :: "espflash \<Rightarrow> bool" where
  "espflash_ok T =
     ((\<forall>off n F a. off AND 4095 = 0 \<longrightarrow> n AND 4095 = 0 \<longrightarrow> unat off + unat n \<le> 0x1000000 \<longrightarrow>
        erase_region T off n F a = (if in_range off (unat n) a then 0xFF else F a)) \<and>
      (\<forall>off bs F a. off AND 4095 = 0 \<longrightarrow> unat off + length bs \<le> 0x1000000 \<longrightarrow>
        (if in_range off (length bs) a then write_bin T off bs F a = bs ! (unat a - unat off)
         else if in_range off (sectors (length bs)) a then write_bin T off bs F a \<in> {F a, 0xFF}
         else write_bin T off bs F a = F a)))"

lemma sectors_le: "n \<le> m \<Longrightarrow> 4096 dvd m \<Longrightarrow> sectors n \<le> m"
proof -
  assume "n \<le> m" "4096 dvd m"
  then obtain j where "m = 4096 * j" by (auto elim: dvdE)
  then show ?thesis using \<open>n \<le> m\<close> by (simp add: sectors_def)
qed

lemma and_4095: "x AND 4095 = 0 \<longleftrightarrow> 4096 dvd unat x" for x :: u32
proof -
  have "x AND 4095 = x mod 4096"
    using take_bit_eq_mask [of 12 x] by (simp add: take_bit_eq_mod mask_eq_exp_minus_1)
  then have "unat (x AND 4095) = unat x mod 4096" by (simp add: unat_mod)
  then show ?thesis by (metis dvd_eq_mod_eq_0 unat_eq_0)
qed

lemma flash_region:
  fixes F :: mem
  assumes "espflash_ok T" and "off AND 4095 = 0" and "n AND 4095 = 0" and "unat off + unat n \<le> 0x1000000"
    and "length bs \<le> unat n"
  defines "F' \<equiv> write_bin T off bs (erase_region T off n F)"
  shows "bytes_at F' off (unat n) = bs @ replicate (unat n - length bs) 0xFF"
    "\<not> in_range off (unat n) a \<Longrightarrow> F' a = F a"
proof -
  have erase: "erase_region T off n F a = (if in_range off (unat n) a then 0xFF else F a)" for a
    using assms(1-4) by (simp add: espflash_ok_def)
  have wr: "if in_range off (length bs) a then F' a = bs ! (unat a - unat off)
      else if in_range off (sectors (length bs)) a then F' a \<in> {erase_region T off n F a, 0xFF}
      else F' a = erase_region T off n F a" for a
    using assms(1,2,4,5) unfolding F'_def espflash_ok_def by (meson add_left_mono order_trans)
  have sect: "sectors (length bs) \<le> unat n" using assms(3,5) by (intro sectors_le) (simp_all add: and_4095)
  show "bytes_at F' off (unat n) = bs @ replicate (unat n - length bs) 0xFF"
  proof (rule nth_equalityI)
    fix i assume "i < length (bytes_at F' off (unat n))"
    then have i: "i < unat n" by (simp add: bytes_at_def)
    have u: "unat (off + of_nat i) = unat off + i"
      using i assms(4) by (simp add: unat_word_ariths unat_of_nat)
    have "F' (off + of_nat i) = (if i < length bs then bs ! i else 0xFF)"
      using wr [of "off + of_nat i"] erase [of "off + of_nat i"] i
      by (auto simp: in_range_def u split: if_splits)
    then show "bytes_at F' off (unat n) ! i = (bs @ replicate (unat n - length bs) 0xFF) ! i"
      using i by (simp add: bytes_at_def nth_append)
  qed (use assms(5) in \<open>simp add: bytes_at_def\<close>)
  show "F' a = F a" if "\<not> in_range off (unat n) a"
    using wr [of a] erase [of a] that assms(5) sect by (auto simp: in_range_def split: if_splits)
qed

text \<open>
  A layout a board can boot from: the lines the Makefile asks for by name are the ones the
  bootloader will find by type, both end within the chip, and the table has room for all.
\<close>

definition boot_layout :: "string list list \<Rightarrow> csv_part \<Rightarrow> csv_part \<Rightarrow> bool" where
  "boot_layout rows k d =
     (case parse_layout rows of
        Inl e \<Rightarrow> False
      | Inr ps \<Rightarrow> length ps \<le> 127 \<and>
          part_named ps ''kernel'' = Some k \<and> find (\<lambda>p. p_type p = 0x40 \<and> p_sub p = 0) ps = Some k \<and>
          part_named ps ''dtb'' = Some d \<and> find (\<lambda>p. p_type p = 0x41 \<and> p_sub p = 0) ps = Some d \<and>
          p_off k + p_size k \<le> 0x1000000 \<and> p_off d + p_size d \<le> 0x1000000)"

lemma find_entry:
  assumes "\<forall>p \<in> set ps. fits_entry p" and "0 \<le> t" and "t < 256"
  shows "find (\<lambda>e. ptype e = word_of_int t \<and> subtype e = 0) (map part_entry ps) =
    map_option part_entry (find (\<lambda>p. p_type p = t \<and> p_sub p = 0) ps)"
proof -
  have "uint (word_of_int x :: u8) = x" if "0 \<le> x" "x < 256" for x
    using that by (simp add: uint_word_of_int)
  then have byte: "(word_of_int x :: u8) = word_of_int y \<longleftrightarrow> x = y" if "0 \<le> x" "x < 256" "0 \<le> y" "y < 256" for x y
    using that by metis
  show ?thesis using assms(1)
  proof (induction ps)
    case (Cons p ps)
    then have "ptype (part_entry p) = word_of_int t \<longleftrightarrow> p_type p = t" "subtype (part_entry p) = 0 \<longleftrightarrow> p_sub p = 0"
      using byte [of "p_type p" t] byte [of "p_sub p" 0] assms(2,3) by (simp_all add: part_entry_def fits_entry_def)
    then show ?case using Cons by simp
  qed simp
qed

lemma word_of_sector:
  assumes "0 \<le> x" and "x < 2 ^ 32" and "x mod 0x1000 = 0"
  shows "unat (word_of_int x :: u32) = nat x" "(word_of_int x :: u32) AND 4095 = 0"
proof -
  show u: "unat (word_of_int x :: u32) = nat x"
    using assms(1,2) by (simp add: unat_eq_nat_uint uint_word_of_int)
  have "4096 dvd x" using assms(3) by (simp add: dvd_eq_mod_eq_0)
  then have "4096 dvd nat x" using assms(1) by (metis int_nat_eq of_nat_dvd_iff of_nat_numeral)
  then show "(word_of_int x :: u32) AND 4095 = 0" by (simp add: and_4095 u)
qed

text \<open>What is in flash after \<open>make flash-all\<close>.\<close>

definition region_holds :: "mem \<Rightarrow> csv_part \<Rightarrow> u8 list \<Rightarrow> bool" where
  "region_holds F p payload =
     (bytes_at F (word_of_int (p_off p)) (nat (p_size p)) = payload @ replicate (nat (p_size p) - length payload) 0xFF)"

lemma flash_payload_region:
  assumes "espflash_ok T" and "check_layout ps = None" and "p \<in> set ps" and "fits_entry p"
    and "p_off p + p_size p \<le> 0x1000000" and "int (length payload) \<le> p_size p"
  shows "region_holds (flash_payload T (p_off p, p_size p) payload F) p payload"
    "\<not> in_range (word_of_int (p_off p)) (nat (p_size p)) a \<Longrightarrow> flash_payload T (p_off p, p_size p) payload F a = F a"
proof -
  note al = layout_aligned [OF assms(2,3)]
  have off: "unat (word_of_int (p_off p) :: u32) = nat (p_off p)" "(word_of_int (p_off p) :: u32) AND 4095 = 0"
    using word_of_sector [OF _ _ al(2)] assms(4) by (simp_all add: fits_entry_def)
  have n: "unat (word_of_int (p_size p) :: u32) = nat (p_size p)" "(word_of_int (p_size p) :: u32) AND 4095 = 0"
    using word_of_sector [OF _ _ al(3)] assms(4) by (simp_all add: fits_entry_def)
  have "nat (p_off p) + nat (p_size p) \<le> 0x1000000" "length payload \<le> nat (p_size p)"
    using assms(4-6) by (auto simp: fits_entry_def)
  note region = flash_region [OF assms(1) off(2) n(2), unfolded off(1) n(1), OF this]
  show "region_holds (flash_payload T (p_off p, p_size p) payload F) p payload"
    using region(1) by (simp add: region_holds_def flash_payload_def)
  show "flash_payload T (p_off p, p_size p) payload F a = F a"
    if "\<not> in_range (word_of_int (p_off p)) (nat (p_size p)) a"
    using region(2) [OF that] by (simp add: flash_payload_def)
qed

lemma bytes_at_kept:
  assumes "\<And>i. i < n \<Longrightarrow> F' (a + of_nat i) = F (a + of_nat i)"
  shows "bytes_at F' a n = bytes_at F a n"
  using assms by (simp add: bytes_at_def)

lemma region_kept:
  assumes "\<And>a. \<not> in_range (word_of_int (p_off q)) (nat (p_size q)) a \<Longrightarrow> F' a = F a"
    and "p_off p + p_size p \<le> p_off q \<or> p_off q + p_size q \<le> p_off p" and "fits_entry p" and "fits_entry q"
    and "p_off p + p_size p \<le> 0x1000000"
  shows "region_holds F p payload \<Longrightarrow> region_holds F' p payload"
proof -
  have off: "unat (word_of_int (p_off p) :: u32) = nat (p_off p)" "unat (word_of_int (p_off q) :: u32) = nat (p_off q)"
    using assms(3,4) by (simp_all add: fits_entry_def unat_eq_nat_uint uint_word_of_int)
  have "bytes_at F' (word_of_int (p_off p)) (nat (p_size p)) = bytes_at F (word_of_int (p_off p)) (nat (p_size p))"
  proof (intro bytes_at_kept assms(1))
    fix i assume i: "i < nat (p_size p)"
    then have "int i < p_size p" "0 \<le> p_off p" using assms(3) by (simp_all add: fits_entry_def)
    then have "i < 0x1000000" using assms(5) by linarith
    then have "unat (word_of_int (p_off p) + of_nat i :: u32) = nat (p_off p) + i"
      using i assms(3,5) by (simp add: unat_word_ariths unat_of_nat off fits_entry_def)
    then show "\<not> in_range (word_of_int (p_off q)) (nat (p_size q)) (word_of_int (p_off p) + of_nat i)"
      using i assms(2-4) by (auto simp: in_range_def off fits_entry_def)
  qed
  then show "region_holds F p payload \<Longrightarrow> region_holds F' p payload" by (simp add: region_holds_def)
qed

lemma flash_parts_table:
  assumes "espflash_ok T" and "length table \<le> 4096"
  shows "bytes_at (flash_parts T table F) 0x8000 4096 = table @ replicate (4096 - length table) 0xFF"
  using flash_region(1) [OF assms(1), of "0x8000" "0x1000" table F] assms(2) by (simp add: flash_parts_def)

text \<open>The table lies below every partition.\<close>

lemma table_kept:
  assumes "\<And>a. \<not> in_range (word_of_int (p_off q)) (nat (p_size q)) a \<Longrightarrow> F' a = F a"
    and "fits_entry q" and "0x9000 \<le> p_off q"
  shows "bytes_at F' 0x8000 4096 = bytes_at F 0x8000 4096"
proof (intro bytes_at_kept assms(1))
  fix i :: nat assume "i < 4096"
  then have "unat (0x8000 + of_nat i :: u32) < 0x9000" by (simp add: unat_word_ariths unat_of_nat)
  moreover have "unat (word_of_int (p_off q) :: u32) = nat (p_off q)"
    using assms(2) by (simp add: fits_entry_def unat_eq_nat_uint uint_word_of_int)
  ultimately show "\<not> in_range (word_of_int (p_off q)) (nat (p_size q)) (0x8000 + of_nat i)"
    using assms(3) by (simp add: in_range_def)
qed

lemma cmd_binary_length:
  assumes "cmd_binary md5 rows = Inr table" and "parse_layout rows = Inr ps" and "\<And>bs. length (md5 bs) = 16"
  shows "length table = (length ps + 1) * 32" "check_layout ps = None" "\<forall>p \<in> set ps. fits_entry p"
proof -
  obtain blob where blob: "check_layout ps = None" "pack_entries ps = Inr blob" "table = blob @ md5_entry md5 blob"
    using assms(1,2) by (auto simp: cmd_binary_def map_sum_Inr split: option.splits)
  obtain cs where "blob = concat cs" "length cs = length ps" "\<forall>c \<in> set cs. length c = 32"
      "\<forall>p \<in> set ps. fits_entry p"
    using pack_entries_Inr [OF blob(2)] by blast
  then show "length table = (length ps + 1) * 32" "check_layout ps = None" "\<forall>p \<in> set ps. fits_entry p"
    using blob length_concat_const [of cs 32] assms(3) by (simp_all add: md5_entry_def)
qed

lemma part_named_in: "part_named ps name = Some p \<Longrightarrow> p \<in> set ps"
  by (auto simp: part_named_def find_Some_iff in_set_conv_nth rev_nth) (metis in_set_conv_nth length_rev nth_mem rev_nth set_rev)

lemma layout_loadable:
  assumes "check_layout ps = None" and "p \<in> set ps" and "fits_entry p" and "p_off p + p_size p \<le> 0x1000000"
  shows "loadable (part_entry p)"
proof -
  note al = layout_aligned [OF assms(1,2)]
  have fits: "0 \<le> p_off p" "p_off p < 2 ^ 32" "0 \<le> p_size p" "p_size p < 2 ^ 32"
    using assms(3) by (simp_all add: fits_entry_def)
  have "x AND 63 = 0" if "x AND 4095 = 0" for x :: u32
  proof -
    have "(x AND 4095) AND 63 = 0" using that by simp
    then show ?thesis by (simp add: and.assoc)
  qed
  then show ?thesis
    using word_of_sector [OF fits(1,2) al(2)] word_of_sector [OF fits(3,4) al(3)] fits assms(4) aligned_64
    by (simp add: loadable_def part_entry_def nat_add_distrib [symmetric])
qed

lemma flash_all_result:
  assumes "espflash_ok T" and "\<And>bs. length (md5 bs) = 16" and "boot_layout rows k d"
    and "flash_all T md5 rows boot kern dtb F0 = Inr F"
    and "int (length kern) \<le> p_size k" and "int (length dtb) \<le> p_size d"
  shows "find_part F P4_PART_TYPE_KERNEL = Some (part_entry k)" "find_part F P4_PART_TYPE_DTB = Some (part_entry d)"
    "loadable (part_entry k)" "loadable (part_entry d)" "region_holds F k kern" "region_holds F d dtb"
    "fits_entry k" "fits_entry d"
proof -
  obtain ps where ps: "parse_layout rows = Inr ps" "length ps \<le> 127"
    "part_named ps ''kernel'' = Some k" "find (\<lambda>p. p_type p = 0x40 \<and> p_sub p = 0) ps = Some k"
    "part_named ps ''dtb'' = Some d" "find (\<lambda>p. p_type p = 0x41 \<and> p_sub p = 0) ps = Some d"
    "p_off k + p_size k \<le> 0x1000000" "p_off d + p_size d \<le> 0x1000000"
    using assms(3) by (auto simp: boot_layout_def split: sum.splits)
  obtain table where table: "cmd_binary md5 rows = Inr table"
    and F: "F = flash_payload T (p_off d, p_size d) dtb (flash_payload T (p_off k, p_size k) kern
      (flash_parts T table (write_bin T 0x2000 boot F0)))"
    using assms(4) ps by (auto simp: flash_all_def cmd_region_def split: sum.splits)
  note ok = cmd_binary_length [OF table ps(1) assms(2)]
  have mem: "k \<in> set ps" "d \<in> set ps" using ps(3,5) by (simp_all add: part_named_in)
  then show fit: "fits_entry k" "fits_entry d" using ok(3) by blast+
  have ne: "k \<noteq> d" using ps(4,6) by (auto simp: find_Some_iff)
  have apart: "p_off k + p_size k \<le> p_off d \<or> p_off d + p_size d \<le> p_off k"
    using layout_apart [OF ok(2,3) mem ne] by (simp add: ends_before_def)
  define F1 where "F1 = flash_parts T table (write_bin T 0x2000 boot F0)"
  define F2 where "F2 = flash_payload T (p_off k, p_size k) kern F1"
  have F': "F = flash_payload T (p_off d, p_size d) dtb F2" by (simp add: F F1_def F2_def)
  note k = flash_payload_region [OF assms(1) ok(2) mem(1) fit(1) ps(7) assms(5), where F = F1, folded F2_def]
  note d = flash_payload_region [OF assms(1) ok(2) mem(2) fit(2) ps(8) assms(6), where F = F2, folded F']
  show "region_holds F d dtb" by (rule d(1))
  show "region_holds F k kern" by (rule region_kept [OF d(2) apart fit ps(7) k(1)])
  have "bytes_at F 0x8000 4096 = bytes_at F1 0x8000 4096"
    using table_kept [OF d(2) fit(2)] table_kept [OF k(2) fit(1)] layout_aligned(1) [OF ok(2)] mem by simp
  also have "\<dots> = table @ replicate (4096 - length table) 0xFF"
    unfolding F1_def using ok(1) ps(2) by (intro flash_parts_table [OF assms(1)]) simp
  finally have parts: "part_table F = map part_entry ps"
    using binary_table [OF table assms(2)] ps(1) by (simp add: P4_PART_TABLE_OFFSET_def)
  show "find_part F P4_PART_TYPE_KERNEL = Some (part_entry k)" "find_part F P4_PART_TYPE_DTB = Some (part_entry d)"
    using find_entry [OF ok(3), of "0x40"] find_entry [OF ok(3), of "0x41"] ps(4,6)
    by (simp_all add: find_part_def parts const_defs)
  show "loadable (part_entry k)" "loadable (part_entry d)"
    using layout_loadable [OF ok(2)] mem fit ps(7,8) by blast+
qed

text \<open>
  C6: a board flashed with \<open>make flash-all\<close> boots what it was flashed with, under four conditions:
  the layout is one to boot from (\<open>boot_layout\<close>: it passes the checks of the tool, has at most 127
  lines, and its lines \<open>kernel\<close> and \<open>dtb\<close> are the first with the types the bootloader looks for and
  end within the 16 MB of the chip, which the tool does not check), the kernel and the device tree
  fit their lines, flashing succeeded, and the machine is \<open>healthy\<close>, that is keeps the contracts of
  its flash, caches, PSRAM and console. Then the boot reaches Linux with the PSRAM chip holding
  exactly these bytes at the two load addresses.
\<close>

theorem flash_all_boots:
  assumes "espflash_ok T" and "\<And>bs. length (md5 bs) = 16" and "boot_layout rows k d"
    and "flash_all T md5 rows boot kern dtb F0 = Inr F"
    and "int (length kern) \<le> p_size k" and "int (length dtb) \<le> p_size d"
    and "healthy P B chip F ram crcf n"
  shows "\<exists>t. boot_main P B s = Some (Jumped, t) \<and>
    bytes_at (chip (dev t)) KERNEL_PA (length kern) = kern \<and>
    bytes_at (chip (dev t)) DTB_PA (length dtb) = dtb \<and> peek P (dev t) = chip (dev t)"
proof -
  note flash = flash_all_result [OF assms(1-6)]
  obtain t where t: "boot_main P B s = Some (Jumped, t)" "peek P (dev t) = chip (dev t)"
    "bytes_at (chip (dev t)) KERNEL_PA (unat (psize (part_entry k))) =
      bytes_at F (poffset (part_entry k)) (unat (psize (part_entry k)))"
    "bytes_at (chip (dev t)) DTB_PA (unat (psize (part_entry d))) =
      bytes_at F (poffset (part_entry d)) (unat (psize (part_entry d)))"
    using healthy_boot [OF assms(7) flash(1-4)] by blast
  have whole: "bytes_at (chip (dev t)) pa (length payload) = payload"
    if "fits_entry p" "region_holds F p payload" "int (length payload) \<le> p_size p"
      "bytes_at (chip (dev t)) pa (unat (psize (part_entry p))) = bytes_at F (poffset (part_entry p)) (unat (psize (part_entry p)))"
    for pa p payload
  proof -
    have "unat (psize (part_entry p)) = nat (p_size p)"
      using that(1) by (simp add: part_entry_def fits_entry_def unat_eq_nat_uint uint_word_of_int)
    then have "bytes_at (chip (dev t)) pa (nat (p_size p)) = payload @ replicate (nat (p_size p) - length payload) 0xFF"
      using that(2,4) by (simp add: region_holds_def part_entry_def)
    moreover have "length payload \<le> nat (p_size p)" using that(3) by linarith
    ultimately show ?thesis using bytes_at_part [of 0 "length payload" "nat (p_size p)" "chip (dev t)" pa] by simp
  qed
  show ?thesis
    using t whole [OF flash(7,5) assms(5) t(3)] whole [OF flash(8,6) assms(6) t(4)] by blast
qed

subsection \<open>The checksums of both sides\<close>

lemma crc_pad_chain:
  assumes "\<And>c xs ys. crc (crc c xs) ys = crc c (xs @ ys)" and "\<And>c. crc c [] = c" and "0 < m \<or> pad = 0"
  shows "crc_pad crc (replicate m x) pad c = crc c (replicate pad x)"
  using assms(3)
proof (induction pad arbitrary: c rule: less_induct)
  case (less pad)
  show ?case
  proof (cases "pad = 0")
    case True
    then show ?thesis using assms(2) by (simp add: crc_pad.simps)
  next
    case False
    then have m: "0 < m" using less.prems by simp
    let ?n = "min pad m"
    have "crc_pad crc (replicate m x) pad c = crc_pad crc (replicate m x) (pad - ?n) (crc c (replicate ?n x))"
      using False m by (subst crc_pad.simps) (simp add: Let_def min.commute)
    also have "\<dots> = crc c (replicate ?n x @ replicate (pad - ?n) x)"
      using less.IH [of "pad - ?n"] False m assms(1) by simp
    also have "replicate ?n x @ replicate (pad - ?n) x = replicate pad x" by (simp flip: replicate_add)
    finally show ?thesis .
  qed
qed

lemma cmd_crc_region:
  assumes "rom_crc P crcf" and "cmd_crc crcf rows name payload = Inr c" and "parse_layout rows = Inr ps"
    and "part_named ps name = Some p" and "fits_entry p" and "region_holds F p payload"
  shows "crcf 0 (bytes_at F (poffset (part_entry p)) (unat (psize (part_entry p)))) = c"
proof -
  let ?pad = "nat (p_size p) - length payload"
  have chain: "\<And>c xs ys. crcf (crcf c xs) ys = crcf c (xs @ ys)" "\<And>c. crcf c [] = c"
    using assms(1) by (simp_all add: rom_crc_def)
  have "c = crc_pad crcf (replicate (min ?pad 65536) 0xFF) ?pad (crcf 0 payload)"
    using assms(2-4) by (simp add: cmd_crc_def Let_def split: if_splits)
  also have "\<dots> = crcf 0 (payload @ replicate ?pad 0xFF)"
    by (subst crc_pad_chain [OF chain]) (auto simp: chain(1))
  finally show ?thesis
    using assms(5,6)
    by (simp add: region_holds_def part_entry_def fits_entry_def unat_eq_nat_uint uint_word_of_int)
qed

text \<open>
  C14: after \<open>make flash-all\<close>, \<open>make crc\<close> prints the very checksums the bootloader computes of the
  two partitions, padding included: whatever the payloads, the bootloader finds both partitions
  and its streaming CRC through the staging buffer gives the numbers of \<open>flashmap.py crc\<close>.
\<close>

theorem flashmap_crc_agrees:
  assumes "espflash_ok T" and "\<And>bs. length (md5 bs) = 16" and "boot_layout rows k d"
    and "flash_all T md5 rows boot kern dtb F0 = Inr F"
    and "cmd_crc crcf rows ''kernel'' kern = Inr ck" and "cmd_crc crcf rows ''dtb'' dtb = Inr cd"
    and "crc_ok P B F ram crcf" and "table_ok P B F ram"
  shows "\<exists>parts s1 s2. locate P B s = (Inr parts, s1) \<and> checksum P B parts s1 = (Inr (ck, cd), s2)"
proof -
  obtain ps where ps: "parse_layout rows = Inr ps" "part_named ps ''kernel'' = Some k" "part_named ps ''dtb'' = Some d"
    using assms(3) by (auto simp: boot_layout_def split: sum.splits)
  have len: "int (length kern) \<le> p_size k" "int (length dtb) \<le> p_size d"
    using assms(5,6) ps by (auto simp: cmd_crc_def split: if_splits)
  note flash = flash_all_result [OF assms(1-4) len]
  have rom: "rom_crc P crcf" using assms(7) by (simp add: crc_ok_def)
  obtain s1 where s1: "locate P B s = (Inr (found (part_entry k), found (part_entry d)), s1)"
    "chip_size P (dev s1) = P4_FLASH_SIZE"
    using locate_succeeds [OF assms(7,8) flash(1,2)] by blast
  show ?thesis
    using s1(1) checksum_succeeds [OF assms(7) s1(2) flash(3,4)]
      cmd_crc_region [OF rom assms(5) ps(1,2) flash(7,5)] cmd_crc_region [OF rom assms(6) ps(1,3) flash(8,6)]
    by auto
qed

text \<open>What \<open>check\<close> lets through: a partition past the end of the chip, which the bootloader refuses.\<close>

lemma check_misses_chip_end:
  "check_layout [\<lparr>p_name = ''kernel'', p_type = 0x40, p_sub = 0, p_off = 0x20000, p_size = 0x1000000\<rparr>] = None \<and>
   \<not> readable (part_entry \<lparr>p_name = ''kernel'', p_type = 0x40, p_sub = 0, p_off = 0x20000, p_size = 0x1000000\<rparr>)"
  by (simp add: check_layout_def check_part_def readable_def part_entry_def)

end
