(* ===== verification/P4Bench.thy ===== *)
theory P4Bench
  imports P4FlashOk
begin

text \<open>
  A machine on which the contracts of \<open>P4Platform\<close> hold: a register file, a UART whose update bit
  clears at once, a 32 MB PSRAM behind a cache, a flash with given contents, and the standard
  CRC-32. The witnesses run on it.
\<close>

definition crc_bit :: "u32 \<Rightarrow> u32" where
  "crc_bit x = (if bit x 0 then drop_bit 1 x XOR 0xEDB88320 else drop_bit 1 x)"

definition crc_step :: "u8 \<Rightarrow> u32 \<Rightarrow> u32" where
  "crc_step b c = (crc_bit ^^ 8) (c XOR ucast b)"

definition crc32 :: "u32 \<Rightarrow> u8 list \<Rightarrow> u32" where
  "crc32 c bs = NOT (fold crc_step bs (NOT c))"

lemma crc32_chain: "crc32 (crc32 c xs) ys = crc32 c (xs @ ys)" "crc32 c [] = c"
  by (simp_all add: crc32_def)

record bench =
  cpu_view :: mem
  chip_view :: mem
  rom_size :: u32
  reg_file :: "u32 \<Rightarrow> u32"

definition in_psram :: "u32 \<Rightarrow> bool" where
  "in_psram a = in_range 0x48000000 0x2000000 a"

definition store_le :: "u32 \<Rightarrow> u32 \<Rightarrow> mem \<Rightarrow> mem" where
  "store_le a v m = m(a := ucast v, a + 1 := ucast (drop_bit 8 v), a + 2 := ucast (drop_bit 16 v),
     a + 3 := ucast (drop_bit 24 v))"

definition bench_cpu :: cpu_freq_config where
  "bench_cpu = \<lparr>clk_source = 1, source_freq_mhz = 360, clk_div_int_den_num = (1, 0, 0), freq_mhz = 360\<rparr>"

definition bench_platform :: "mem \<Rightarrow> bench platform" where
  "bench_platform F =
    \<lparr>bus_read = (\<lambda>a d. (if in_psram a then u32_le (cpu_view d) a
       else if a = UART_REG_UPDATE_REG then 0 else reg_file d a, d)),
     bus_write = (\<lambda>a v d. if in_psram a then d\<lparr>cpu_view := store_le a v (cpu_view d)\<rparr>
       else d\<lparr>reg_file := (reg_file d)(a := v)\<rparr>),
     delay_us = (\<lambda>_ d. d), uart_tx_wait_idle = (\<lambda>d. d), fuses = plain_fuses, reset_reason = (\<lambda>_. 1),
     gpio_connect_out = (\<lambda>_ _ _ _ d. d), gpio_connect_in = (\<lambda>_ _ _ d. d),
     regi2c_write_mask = (\<lambda>_ _ _ _ _ _ d. d), enter_low_speed_mode = (\<lambda>_ d. d),
     chip_size = rom_size, set_chip_size = (\<lambda>n d. d\<lparr>rom_size := n\<rparr>),
     spiflash_read = (\<lambda>off dest len d. if unat off + unat len \<le> unat (rom_size d)
       then (0, d\<lparr>cpu_view := \<lambda>a. if in_range dest (unat len) a then F (off + (a - dest)) else cpu_view d a\<rparr>)
       else (1, d)),
     crc32_le = (\<lambda>c a n d. (crc32 c (bytes_at (cpu_view d) a (unat n)), d)),
     peek = cpu_view,
     cache_writeback_addr = (\<lambda>a n d. d\<lparr>chip_view := \<lambda>x. if in_range a (unat n) x then cpu_view d x else chip_view d x\<rparr>),
     cache_invalidate_addr = (\<lambda>a n d. d\<lparr>cpu_view := \<lambda>x. if in_range a (unat n) x then chip_view d x else cpu_view d x\<rparr>),
     cache_writeback_all = (\<lambda>d. d\<lparr>chip_view := cpu_view d\<rparr>),
     xtal_freq_update = (\<lambda>_ d. d), xtal_get_freq_mhz = (\<lambda>_. 40),
     cpu_mhz_to_config = (\<lambda>m _. if m = 360 then Some bench_cpu else None),
     cpu_set_config = (\<lambda>_ d. d), cpu_get_config = (\<lambda>_. bench_cpu),
     mpll_enable = (\<lambda>d. d), mpll_disable = (\<lambda>d. d), mpll_configure = (\<lambda>_ _ _ d. d),
     cache_hal_init = (\<lambda>_ _ _ d. d), mmu_hal_init = (\<lambda>_ _ d. d),
     mmu_map_region = (\<lambda>_ _ _ _ n d. (n, d)), l1_get_bus = (\<lambda>_ _ _. 2), l1_enable_bus = (\<lambda>_ _ d. d),
     psram_enable = (\<lambda>d. (0, d)), psram_physical_size = (\<lambda>_. (0, 0x2000000))\<rparr>"

definition bench_buffers :: buffers where
  "bench_buffers = \<lparr>s_buf = 0x4ff40000, entry_buf = 0x4ff50000\<rparr>"

lemma bench_rom: "rom_flash (bench_platform F) F UNIV"
  by (simp add: rom_flash_def bench_platform_def)

lemma bench_crc: "rom_crc (bench_platform F) crc32"
  by (simp add: rom_crc_def bench_platform_def crc32_chain)

lemma bench_cache: "cached_memory (bench_platform F) chip_view"
  by (simp add: cached_memory_def bench_platform_def evicts_def)

definition bench_start :: "bench soc" where
  "bench_start = \<lparr>dev = \<lparr>cpu_view = (\<lambda>_. 0), chip_view = (\<lambda>_. 0), rom_size = P4_FLASH_SIZE,
     reg_file = (\<lambda>_. 0)\<rparr>, log = []\<rparr>"

lemma bench_contracts:
  "crc_ok (bench_platform F) bench_buffers F UNIV crc32"
  "table_ok (bench_platform F) bench_buffers F UNIV"
  "fits dest (unat len) \<Longrightarrow> dest AND 63 = 0 \<Longrightarrow> len AND 63 = 0 \<Longrightarrow>
     copy_ok (bench_platform F) chip_view F UNIV dest len"
  using bench_rom bench_crc bench_cache
  by (simp_all add: crc_ok_def table_ok_def copy_ok_def bench_buffers_def fits_def)

lemma bench_chip: "within_chip (bench_platform F) off len bench_start \<longleftrightarrow> unat off + unat len \<le> 16777216"
  by (simp add: within_chip_def bench_platform_def bench_start_def const_defs)

lemma flash_crc32_correct_witness:
  "\<exists>crc s'. p4_flash_crc32 (bench_platform ucast) bench_buffers 0x20000 5001 bench_start = (Some crc, s') \<and>
     crc = crc32 0 (bytes_at ucast 0x20000 5001)"
proof -
  obtain res s' where run: "p4_flash_crc32 (bench_platform ucast) bench_buffers 0x20000 5001 bench_start = (res, s')"
    by fastforce
  show ?thesis using flash_crc32_correct [OF bench_contracts(1) run] run by (auto simp: bench_chip)
qed

lemma flash_copy_reaches_chip_witness:
  "\<exists>s'. p4_flash_copy (bench_platform ucast) 0x20000 0x2000 0x48000000 bench_start = (True, s') \<and>
     bytes_at (chip_view (dev s')) 0x48000000 0x2000 = bytes_at ucast 0x20000 0x2000"
proof -
  obtain ok s' where run: "p4_flash_copy (bench_platform ucast) 0x20000 0x2000 0x48000000 bench_start = (ok, s')"
    by fastforce
  have "copy_ok (bench_platform ucast) chip_view ucast UNIV 0x48000000 0x2000"
    by (rule bench_contracts) (simp_all add: fits_def)
  from flash_copy_reaches_chip [OF this run] run show ?thesis by (auto simp: bench_chip)
qed

text \<open>A flash with a kernel entry, a checksum entry and a device tree entry; the rest is erased.\<close>

definition bench_entry :: "u8 \<Rightarrow> u8 list \<Rightarrow> u8 list \<Rightarrow> u8 list" where
  "bench_entry typ off len = [0xAA, 0x50, typ, 0] @ off @ len @ replicate 20 0"

definition bench_table :: "u8 list" where
  "bench_table = bench_entry 0x40 [0, 0, 2, 0] [0, 0x20, 0, 0] @ replicate 32 0xEB @
     bench_entry 0x41 [0, 0, 3, 0] [0, 0x10, 0, 0]"

definition bench_flash :: mem where
  "bench_flash a = (if 0x8000 \<le> a \<and> a < 0x8060 then bench_table ! unat (a - 0x8000) else 0xFF)"

lemma bench_entries:
  "map (flash_entry bench_flash) [0, 1, 2, 3] =
    [\<lparr>magic = 0x50AA, ptype = 0x40, subtype = 0, poffset = 0x20000, psize = 0x2000,
       plabel = replicate 16 0, pflags = 0\<rparr>,
     \<lparr>magic = 0xEBEB, ptype = 0xEB, subtype = 0xEB, poffset = 0xEBEBEBEB, psize = 0xEBEBEBEB,
       plabel = replicate 16 0xEB, pflags = 0xEBEBEBEB\<rparr>,
     \<lparr>magic = 0x50AA, ptype = 0x41, subtype = 0, poffset = 0x30000, psize = 0x1000,
       plabel = replicate 16 0, pflags = 0\<rparr>,
     \<lparr>magic = 0xFFFF, ptype = 0xFF, subtype = 0xFF, poffset = 0xFFFFFFFF, psize = 0xFFFFFFFF,
       plabel = replicate 16 0xFF, pflags = 0xFFFFFFFF\<rparr>]"
  by code_simp

lemma part_table_start:
  "part_table F = real_entries (map (flash_entry F) [0, 1, 2, 3] @ map (flash_entry F) [4..<128])"
proof -
  have "[0..<P4_PART_MAX_ENTRIES] = [0, 1, 2, 3] @ [4..<128]" by (simp add: const_defs upt_conv_Cons)
  then show ?thesis by (simp only: part_table_def map_append)
qed

lemma bench_parts:
  "part_table bench_flash =
    [\<lparr>magic = 0x50AA, ptype = 0x40, subtype = 0, poffset = 0x20000, psize = 0x2000,
       plabel = replicate 16 0, pflags = 0\<rparr>,
     \<lparr>magic = 0x50AA, ptype = 0x41, subtype = 0, poffset = 0x30000, psize = 0x1000,
       plabel = replicate 16 0, pflags = 0\<rparr>]"
  unfolding part_table_start bench_entries by (simp add: const_defs)

lemma bench_size: "0x9000 \<le> chip_size (bench_platform F) (dev bench_start)"
  by (simp add: bench_platform_def bench_start_def const_defs)

lemma part_find_first_witness:
  "map_option part_size (fst (p4_part_find (bench_platform bench_flash) bench_buffers 0x41 0 bench_start)) = Some 0x1000"
proof -
  obtain res s' where run: "p4_part_find (bench_platform bench_flash) bench_buffers 0x41 0 bench_start = (res, s')"
    by fastforce
  from part_find_first [OF bench_contracts(2) bench_size run] run show ?thesis
    by (simp add: bench_parts)
qed

end
