(* ===== verification/BootBench.thy ===== *)
theory BootBench
  imports BootRefuse P4Bench
begin

text \<open>
  The machine of \<open>P4Bench\<close> keeps every contract, so it boots: the witnesses of the properties of
  the boot and of the board.
\<close>

lemma load_store: "u32_le (store_le a v m) a = v"
  by (rule bit_word_eqI) (auto simp: bit_u32_le store_le_def bit_simps)

lemma word_addr_bytes:
  assumes "i < 0x800000" and "k < 4"
  shows "unat (word_addr i + of_nat k) = 0x48000000 + 4 * i + k"
  using assms by (simp add: word_addr_def const_defs unat_word_ariths unat_of_nat)

lemma load_store_other:
  assumes "i < 0x800000" and "j < 0x800000" and "i \<noteq> j"
  shows "u32_le (store_le (word_addr i) v m) (word_addr j) = u32_le m (word_addr j)"
proof -
  have "word_addr i + of_nat k \<noteq> word_addr j + of_nat l" if "k < 4" "l < 4" for k l
  proof
    assume "word_addr i + of_nat k = word_addr j + of_nat l"
    then have "0x48000000 + 4 * i + k = 0x48000000 + 4 * j + l"
      using word_addr_bytes assms that by metis
    then show False using assms(3) that by presburger
  qed
  note apart = this
  have "store_le (word_addr i) v m (word_addr j + of_nat l) = m (word_addr j + of_nat l)" if "l < 4" for l
    using apart [of 0 l] apart [of 1 l] apart [of 2 l] apart [of 3 l] that by (simp add: store_le_def)
  from this [of 0] this [of 1] this [of 2] this [of 3] show ?thesis
    by (simp add: u32_le_def)
qed

lemma window_in_psram: "i < 0x800000 \<Longrightarrow> in_psram (word_addr i)"
  using word_addr_bytes [of i 0] by (simp add: in_psram_def in_range_def)

lemma bench_psram: "psram_good (bench_platform F) 0x2000000"
proof -
  let ?W = "window 0x800000"
  let ?cell = "\<lambda>(d :: bench) a. if a \<in> ?W then u32_le (cpu_view d) a else 0"
  have "decoded_memory (bench_platform F) ?cell (\<lambda>a. a) ?W"
  proof (unfold decoded_memory_def, intro ballI allI conjI)
    fix a v and d :: bench assume a: "a \<in> ?W"
    then obtain i where i: "i < 0x800000" "a = word_addr i" by (auto simp: window_def)
    have other: "u32_le (store_le a v (cpu_view d)) b = u32_le (cpu_view d) b" if b: "b \<in> ?W" "b \<noteq> a" for b
      using b i load_store_other by (auto simp: window_def)
    show "?cell (bus_write (bench_platform F) a v d) = (?cell d)(a := v)"
      using a i window_in_psram [OF i(1)] other load_store
      by (auto simp: bench_platform_def fun_eq_iff)
    have read: "bus_read (bench_platform F) a d = (u32_le (cpu_view d) a, d)"
      using i(2) window_in_psram [OF i(1)] by (simp add: bench_platform_def)
    show "fst (bus_read (bench_platform F) a d) = ?cell d a" "?cell (snd (bus_read (bench_platform F) a d)) = ?cell d"
      using a unfolding read snd_conv by simp_all
  qed
  then show ?thesis
    unfolding psram_good_def
    by (intro conjI exI [of _ ?cell] exI [of _ "\<lambda>a. a"]) (simp_all add: bench_platform_def MMU_PAGE_SIZE_def)
qed

lemma peripherals_not_psram: "a \<in> peripherals \<Longrightarrow> \<not> in_psram a"
  by (simp add: peripherals_def in_psram_def in_range_def word_le_nat_alt word_less_nat_alt)

lemma bench_quiet: "quiet (bench_platform F) (peek (bench_platform F))"
  using peripherals_not_psram by (auto simp: quiet_def bench_platform_def)

lemma bench_size_kept: "size_kept (bench_platform F)"
  by (simp add: size_kept_def bench_platform_def)

lemma bench_aimed: "stores_aimed (bench_platform F)"
  by (auto simp: stores_aimed_def bench_platform_def in_range_def)

lemma bench_uart: "uart_wait_update (bench_platform F) s \<noteq> None"
  by (subst uart_wait_update.simps)
    (simp add: bench_platform_def reg_read_def in_psram_def in_range_def const_defs)

lemma bench_healthy: "healthy (bench_platform F) bench_buffers chip_view F UNIV crc32 0x2000000"
  using bench_contracts bench_cache bench_quiet bench_size_kept bench_psram bench_uart
  by (simp add: healthy_def bench_platform_def)

lemma bench_find:
  "find_part bench_flash P4_PART_TYPE_KERNEL = Some \<lparr>magic = 0x50AA, ptype = 0x40, subtype = 0, poffset = 0x20000,
     psize = 0x2000, plabel = replicate 16 0, pflags = 0\<rparr>"
  "find_part bench_flash P4_PART_TYPE_DTB = Some \<lparr>magic = 0x50AA, ptype = 0x41, subtype = 0, poffset = 0x30000,
     psize = 0x1000, plabel = replicate 16 0, pflags = 0\<rparr>"
  by (simp_all add: find_part_def bench_parts const_defs)

abbreviation "bench_main \<equiv> boot_main (bench_platform bench_flash) bench_buffers bench_start"

lemma bench_boots: "\<exists>t. bench_main = Some (Jumped, t)"
  using healthy_boot [OF bench_healthy bench_find] by (fastforce simp: loadable_def)

lemma bench_accepts: "\<not> may_refuse (bench_platform F)"
  by (simp add: may_refuse_def bench_platform_def const_defs)

lemma bench_registers: "registers (bench_platform F) reg_file no_locks (ldo_regs 1)"
proof -
  have "\<not> in_psram a \<and> a \<noteq> UART_REG_UPDATE_REG" if "a \<in> ldo_regs 1" for a
    using that by (auto simp: ldo_regs_def in_psram_def in_range_def const_defs pmu_ext_ldo_def pmu_ext_ldo_ana_def
        index_array_def)
  then show ?thesis
    by (auto simp: registers_def bench_platform_def agree_def put_def unlocked_def no_locks_def)
qed

lemma mpll_powered_first_witness:
  "\<exists>s s1. esp_clk_tree_mpll_acquire (bench_platform ucast) bench_start = (True, s) \<and>
     s = act Ev_mpll_on (mpll_enable (bench_platform ucast)) s1 \<and> get_field 1 8 (reg_file (dev s1) (pmu_ext_ldo 1)) = 1"
proof -
  obtain ok s where run: "esp_clk_tree_mpll_acquire (bench_platform ucast) bench_start = (ok, s)" by fastforce
  from mpll_powered_first [OF bench_registers order_refl run] run show ?thesis by auto
qed

lemma boot_order_witness:
  "\<exists>t p. bench_main = Some (Jumped, t) \<and> boot_trace False bench_buffers Bringing_up (log t) p \<and> p = Running"
proof -
  obtain t where run: "bench_main = Some (Jumped, t)" using bench_boots by blast
  from boot_order [OF run] show ?thesis using run by (auto simp: bench_start_def bench_accepts)
qed

lemma boot_stores_after_raise_witness:
  "\<exists>t. bench_main = Some (Jumped, t) \<and> last (log t) = Ev_jump KERNEL_PA DTB_PA"
proof -
  obtain t where run: "bench_main = Some (Jumped, t)" using bench_boots by blast
  have "log bench_start = []" by (simp add: bench_start_def)
  from boot_stores_after_raise [OF run this] show ?thesis using run by auto
qed

lemma boot_verified_witness:
  "\<exists>t. bench_main = Some (Jumped, t) \<and>
     crc32 0 (bytes_at (cpu_view (dev t)) KERNEL_PA 0x2000) = crc32 0 (bytes_at bench_flash 0x20000 0x2000)"
proof -
  obtain t where run: "bench_main = Some (Jumped, t)" using bench_boots by blast
  have view: "peek (bench_platform bench_flash) = cpu_view" by (simp add: bench_platform_def)
  from boot_verified [OF bench_contracts(1,2) bench_aimed bench_quiet run] show ?thesis
    using run by (auto simp: bench_find view)
qed

lemma boot_delivers_witness:
  "\<exists>t. bench_main = Some (Jumped, t) \<and>
     bytes_at (chip_view (dev t)) KERNEL_PA 0x2000 = bytes_at bench_flash 0x20000 0x2000"
  using boot_delivers [OF bench_healthy bench_find, of bench_start] by (fastforce simp: loadable_def)

text \<open>A flash whose device tree partition reaches past the end of the chip.\<close>

definition past_flash :: mem where
  "past_flash a =
     (if 0x8000 \<le> a \<and> a < 0x8040 then
        (bench_entry 0x40 [0, 0, 2, 0] [0, 0x20, 0, 0] @ bench_entry 0x41 [0, 0, 0xFF, 0] [0, 0, 2, 0])
          ! unat (a - 0x8000)
      else 0xFF)"

lemma past_entries:
  "map (flash_entry past_flash) [0, 1, 2, 3] =
    [\<lparr>magic = 0x50AA, ptype = 0x40, subtype = 0, poffset = 0x20000, psize = 0x2000,
       plabel = replicate 16 0, pflags = 0\<rparr>,
     \<lparr>magic = 0x50AA, ptype = 0x41, subtype = 0, poffset = 0xFF0000, psize = 0x20000,
       plabel = replicate 16 0, pflags = 0\<rparr>,
     \<lparr>magic = 0xFFFF, ptype = 0xFF, subtype = 0xFF, poffset = 0xFFFFFFFF, psize = 0xFFFFFFFF,
       plabel = replicate 16 0xFF, pflags = 0xFFFFFFFF\<rparr>,
     \<lparr>magic = 0xFFFF, ptype = 0xFF, subtype = 0xFF, poffset = 0xFFFFFFFF, psize = 0xFFFFFFFF,
       plabel = replicate 16 0xFF, pflags = 0xFFFFFFFF\<rparr>]"
  by code_simp

lemma past_parts:
  "part_table past_flash =
    [\<lparr>magic = 0x50AA, ptype = 0x40, subtype = 0, poffset = 0x20000, psize = 0x2000,
       plabel = replicate 16 0, pflags = 0\<rparr>,
     \<lparr>magic = 0x50AA, ptype = 0x41, subtype = 0, poffset = 0xFF0000, psize = 0x20000,
       plabel = replicate 16 0, pflags = 0\<rparr>]"
  unfolding part_table_start past_entries by (simp add: const_defs)

lemma past_fault: "flash_fault past_flash = Some (Unreadable Dtb)"
  by (simp add: flash_fault_def table_verdict_def find_part_def past_parts readable_def const_defs)

lemma boot_refuses_witness:
  "\<exists>t. boot_main (bench_platform past_flash) bench_buffers bench_start = Some (Halted (Unreadable Dtb), t) \<and>
     set (log t) \<subseteq> looking bench_buffers"
  using boot_refuses [OF bench_contracts(1,2) bench_uart past_fault, of bench_start] by (auto simp: bench_start_def)

end
