(* ===== verification/FlashmapBench.thy ===== *)
theory FlashmapBench
  imports FlashmapOk BootBench
begin

text \<open>
  The layout of the repository (\<open>bootloader/partitions.csv\<close>) through the tool, onto the machine
  of \<open>P4Bench\<close>: the witnesses of the properties of the flash layout.
\<close>

text \<open>The header line and the two lines that are not comments, as \<open>csv.reader\<close> splits them.\<close>

definition shipped_rows :: "string list list" where
  "shipped_rows =
    [[''# Name'', ''   Type'', '' SubType'', '' Offset'', ''   Size''],
     [''kernel'', ''   0x40'', '' 0x00'', ''    0x20000'', ''  0xC00000''],
     [''dtb'', ''      0x41'', '' 0x00'', ''    0xC20000'', '' 0x10000'']]"

definition bench_tool :: espflash where
  "bench_tool =
    \<lparr>erase_region = (\<lambda>off n F a. if in_range off (unat n) a then 0xFF else F a),
     write_bin = (\<lambda>off bs F a. if in_range off (length bs) a then bs ! (unat a - unat off) else F a)\<rparr>"

lemma bench_tool_ok: "espflash_ok bench_tool"
  by (simp add: espflash_ok_def bench_tool_def)

definition bench_md5 :: "u8 list \<Rightarrow> u8 list" where
  "bench_md5 bs = replicate 16 0"

lemma bench_md5_length: "length (bench_md5 bs) = 16"
  by (simp add: bench_md5_def)

definition shipped_parts :: "csv_part list" where
  "shipped_parts =
    [\<lparr>p_name = ''kernel'', p_type = 0x40, p_sub = 0, p_off = 0x20000, p_size = 0xC00000\<rparr>,
     \<lparr>p_name = ''dtb'', p_type = 0x41, p_sub = 0, p_off = 0xC20000, p_size = 0x10000\<rparr>]"

text \<open>Evaluation of the tool on this layout, step by step.\<close>

lemma shipped_trimmed:
  "map trim_row shipped_rows =
    [[''# Name'', ''Type'', ''SubType'', ''Offset'', ''Size''],
     [''kernel'', ''0x40'', ''0x00'', ''0x20000'', ''0xC00000''],
     [''dtb'', ''0x41'', ''0x00'', ''0xC20000'', ''0x10000'']]"
  by (simp add: shipped_rows_def trim_row_def strip_def py_space_def)

lemma shipped_numbers:
  "py_int0 ''0x40'' = Some 0x40" "py_int0 ''0x00'' = Some 0" "py_int0 ''0x20000'' = Some 0x20000"
  "py_int0 ''0xC00000'' = Some 0xC00000" "py_int0 ''0x41'' = Some 0x41" "py_int0 ''0xC20000'' = Some 0xC20000"
  "py_int0 ''0x10000'' = Some 0x10000"
  by (simp_all add: py_int0_def strip_def py_space_def base_prefix_def py_nat_def py_digit_def hex_digit_def)

lemma shipped_parse: "parse_layout shipped_rows = Inr shipped_parts"
  using shipped_trimmed
  by (simp add: parse_layout_def shipped_rows_def parse_row_def type_code_def shipped_numbers shipped_parts_def Let_def)

lemma shipped_labels:
  "encode ''kernel'' = [107, 101, 114, 110, 101, 108]" "encode ''dtb'' = [100, 116, 98]"
  by (simp_all add: encode_def encode_char_def)

lemma shipped_binary: "\<exists>table. cmd_binary bench_md5 shipped_rows = Inr table \<and> length table \<le> 4096"
proof -
  have "check_layout shipped_parts = None"
    by (simp add: check_layout_def shipped_parts_def check_part_def)
  moreover have "\<exists>bs. pack_entries shipped_parts = Inr bs \<and> length bs = 64"
    by (simp add: shipped_parts_def pack_entry_def Let_def shipped_labels pack_B_def pack_L_def le32_def)
  ultimately show ?thesis
    by (auto simp: cmd_binary_def shipped_parse md5_entry_def bench_md5_length)
qed

lemma shipped_boots: "boot_layout shipped_rows (shipped_parts ! 0) (shipped_parts ! 1)"
  by (simp add: boot_layout_def shipped_parse shipped_parts_def part_named_def)

lemma shipped_flash: "\<exists>F. flash_all bench_tool bench_md5 shipped_rows boot kern dtb F0 = Inr F"
  using shipped_binary shipped_parse
  by (auto simp: flash_all_def cmd_region_def shipped_parts_def part_named_def split: sum.splits)

lemma flashmap_roundtrip_witness:
  "\<exists>table F. cmd_binary bench_md5 shipped_rows = Inr table \<and>
     map (\<lambda>e. (uint (ptype e), uint (subtype e), uint (poffset e), uint (psize e))) (part_table F) =
       [(0x40, 0, 0x20000, 0xC00000), (0x41, 0, 0xC20000, 0x10000)]"
proof -
  obtain table where table: "cmd_binary bench_md5 shipped_rows = Inr table" "length table \<le> 4096"
    using shipped_binary by blast
  let ?F = "flash_parts bench_tool table (\<lambda>_. 0)"
  have "bytes_at ?F 0x8000 4096 = table @ replicate (4096 - length table) 0xFF"
    using flash_parts_table [OF bench_tool_ok table(2)] .
  from flashmap_roundtrip [OF table(1) bench_md5_length this] show ?thesis
    using table(1) by (intro exI [of _ table] exI [of _ ?F]) (auto simp: shipped_parse shipped_parts_def)
qed

lemma flash_all_boots_witness:
  "\<exists>F t. flash_all bench_tool bench_md5 shipped_rows [1] [0x6F, 0x10, 0x20] [0xD0, 0x0D] (\<lambda>_. 0) = Inr F \<and>
     boot_main (bench_platform F) bench_buffers bench_start = Some (Jumped, t) \<and>
     bytes_at (chip_view (dev t)) KERNEL_PA 3 = [0x6F, 0x10, 0x20] \<and>
     bytes_at (chip_view (dev t)) DTB_PA 2 = [0xD0, 0x0D]"
proof -
  obtain F where F: "flash_all bench_tool bench_md5 shipped_rows [1] [0x6F, 0x10, 0x20] [0xD0, 0x0D] (\<lambda>_. 0) = Inr F"
    using shipped_flash by blast
  from flash_all_boots [OF bench_tool_ok bench_md5_length shipped_boots F _ _ bench_healthy, of bench_start]
  show ?thesis using F by (fastforce simp: shipped_parts_def numeral_3_eq_3 numeral_2_eq_2)
qed

lemma flashmap_crc_agrees_witness:
  "\<exists>F parts s1 s2 ck cd.
     flash_all bench_tool bench_md5 shipped_rows [1] [0x6F, 0x10, 0x20] [0xD0, 0x0D] (\<lambda>_. 0) = Inr F \<and>
     cmd_crc crc32 shipped_rows ''kernel'' [0x6F, 0x10, 0x20] = Inr ck \<and>
     locate (bench_platform F) bench_buffers bench_start = (Inr parts, s1) \<and>
     checksum (bench_platform F) bench_buffers parts s1 = (Inr (ck, cd), s2)"
proof -
  obtain F where F: "flash_all bench_tool bench_md5 shipped_rows [1] [0x6F, 0x10, 0x20] [0xD0, 0x0D] (\<lambda>_. 0) = Inr F"
    using shipped_flash by blast
  obtain ck cd where crcs: "cmd_crc crc32 shipped_rows ''kernel'' [0x6F, 0x10, 0x20] = Inr ck"
    "cmd_crc crc32 shipped_rows ''dtb'' [0xD0, 0x0D] = Inr cd"
    by (simp add: cmd_crc_def shipped_parse shipped_parts_def part_named_def Let_def)
  from flashmap_crc_agrees [OF bench_tool_ok bench_md5_length shipped_boots F crcs bench_contracts(1,2), of bench_start]
  show ?thesis using F crcs by blast
qed

end
