(* ===== verification/P4EmacOk.thy ===== *)
theory P4EmacOk
  imports P4Emac P4Bench
begin

text \<open>
  What the Ethernet bring-up leaves in the registers, the station address Linux will read, and
  that the MDIO accesses are bounded and return the register they ask for.
\<close>

definition emac_pads :: "u32 list" where
  [const_defs]: "emac_pads = [50, 49, 34, 35, 28, 29, 30, 31, 52, 51]"

definition emac_regs :: "u32 set" where
  "emac_regs = {SOC_CLK_CTRL1_REG, HP_SDMMC_EMAC_RST_CTRL_REG, GMAC_CTRL0_REG, PERI_CLK_CTRL00_REG,
     PERI_CLK_CTRL01_REG, HP_CLK_CTRL_REG, EMAC_MACADDRESS0LOW_REG, EMAC_MACADDRESS0HIGH_REG} \<union>
     IO_MUX_PAD_REG ` set emac_pads"

definition phy_w1_regs :: "u32 set" where
  "phy_w1_regs = {GPIO_ENABLE1_W1TS_REG, GPIO_OUT1_W1TC_REG, GPIO_OUT1_W1TS_REG}"

definition emac_ops :: "reg_op list" where
  "emac_ops = emac_clock_ops @ map (\<lambda>n. pad_route n EMAC_PAD_FUNC True) rmii_pads @
     [pad_route EMAC_MDC_GPIO PAD_FUNC_GPIO False] @ [pad_route EMAC_MDIO_GPIO PAD_FUNC_GPIO True] @
     phy_reset_ops"

lemma emac_within: "within emac_ops (emac_regs \<union> phy_w1_regs)"
  by (auto simp: within_def emac_ops_def emac_clock_ops_def phy_reset_ops_def pad_route_def emac_regs_def
      phy_w1_regs_def const_defs)

definition pad_value :: "u32 \<Rightarrow> bool \<Rightarrow> u32 \<Rightarrow> u32" where
  "pad_value func input x = (x AND NOT (FUN_PD OR MCU_SEL OR FUN_DRV)) OR
     ((if input then FUN_IE else 0) OR push_bit 12 func OR FUN_DRV)"

lemma eval_pad_route [bus_simps]:
  "eval_op no_locks (pad_route g func input) r = r(IO_MUX_PAD_REG g := pad_value func input (r (IO_MUX_PAD_REG g)))"
  by (simp add: pad_route_def pad_value_def IO_MUX_PAD_REG_def put_plain no_locks_def)

lemma emac_eval_clocks:
  "eval_ops no_locks emac_ops r SOC_CLK_CTRL1_REG = r SOC_CLK_CTRL1_REG OR BIT 13"
  "eval_ops no_locks emac_ops r HP_SDMMC_EMAC_RST_CTRL_REG =
     (r HP_SDMMC_EMAC_RST_CTRL_REG OR BIT 30) AND NOT (BIT 30)"
  "eval_ops no_locks emac_ops r GMAC_CTRL0_REG =
     (r GMAC_CTRL0_REG AND NOT (FIELD 3 2)) OR push_bit 2 4"
  "eval_ops no_locks emac_ops r PERI_CLK_CTRL00_REG =
     (r PERI_CLK_CTRL00_REG AND NOT (BIT 24 OR FIELD 2 25 OR BIT 28)) OR (BIT 27 OR BIT 29)"
  "eval_ops no_locks emac_ops r PERI_CLK_CTRL01_REG =
     (r PERI_CLK_CTRL01_REG AND NOT (FIELD 8 0 OR FIELD 8 10 OR BIT 8)) OR
       (push_bit 0 1 OR push_bit 10 1 OR BIT 9)"
  "eval_ops no_locks emac_ops r HP_CLK_CTRL_REG =
     (r HP_CLK_CTRL_REG AND NOT (BIT 13 OR BIT 14)) OR BIT 15"
  by (simp_all add: emac_ops_def emac_clock_ops_def phy_reset_ops_def bus_simps const_defs)

lemma emac_eval_pads:
  "n \<in> set rmii_pads \<Longrightarrow> eval_ops no_locks emac_ops r (IO_MUX_PAD_REG n) = pad_value 3 True (r (IO_MUX_PAD_REG n))"
  "eval_ops no_locks emac_ops r (IO_MUX_PAD_REG 31) = pad_value 1 False (r (IO_MUX_PAD_REG 31))"
  "eval_ops no_locks emac_ops r (IO_MUX_PAD_REG 52) = pad_value 1 True (r (IO_MUX_PAD_REG 52))"
  "eval_ops no_locks emac_ops r (IO_MUX_PAD_REG 51) = pad_value 1 False (r (IO_MUX_PAD_REG 51))"
     apply (simp add: rmii_pads_def)
     apply (elim disjE; simp add: emac_ops_def emac_clock_ops_def phy_reset_ops_def bus_simps const_defs)
  by (simp_all add: emac_ops_def emac_clock_ops_def phy_reset_ops_def bus_simps const_defs)

lemma shifted_bits: "push_bit 2 4 = BIT 4" "push_bit 0 1 = BIT 0" "push_bit 10 1 = BIT 10"
  "push_bit 12 3 = BIT 12 OR BIT 13" "push_bit 12 1 = BIT 12"
  by (simp_all add: BIT_def)

lemma emac_clock_bits:
  assumes "i < 32"
  shows "bit (eval_ops no_locks emac_ops r SOC_CLK_CTRL1_REG) i = (bit (r SOC_CLK_CTRL1_REG) i \<or> i = 13)"
    "bit (eval_ops no_locks emac_ops r HP_SDMMC_EMAC_RST_CTRL_REG) i =
       (bit (r HP_SDMMC_EMAC_RST_CTRL_REG) i \<and> i \<noteq> 30)"
    "bit (eval_ops no_locks emac_ops r GMAC_CTRL0_REG) i =
       (if 2 \<le> i \<and> i < 5 then i = 4 else bit (r GMAC_CTRL0_REG) i)"
    "bit (eval_ops no_locks emac_ops r PERI_CLK_CTRL00_REG) i =
       (if 24 \<le> i \<and> i < 30 then i \<in> {27, 29} else bit (r PERI_CLK_CTRL00_REG) i)"
    "bit (eval_ops no_locks emac_ops r PERI_CLK_CTRL01_REG) i =
       (if i < 18 then i \<in> {0, 9, 10} else bit (r PERI_CLK_CTRL01_REG) i)"
    "bit (eval_ops no_locks emac_ops r HP_CLK_CTRL_REG) i =
       (if i \<in> {13, 14} then False else bit (r HP_CLK_CTRL_REG) i \<or> i = 15)"
  unfolding emac_eval_clocks shifted_bits using assms
  by (auto simp: bit_or_iff bit_and_iff bit_not_iff bit_BIT bit_FIELD)

definition pad_bit :: "nat set \<Rightarrow> bool \<Rightarrow> nat \<Rightarrow> bool \<Rightarrow> bool" where
  "pad_bit func input i old =
     (if i \<in> {10, 11} then True else if i \<in> {7, 12, 13, 14} then i \<in> func
      else old \<or> (i = 9 \<and> input))"

lemma pad_value_bits:
  assumes "i < 32"
  shows "bit (pad_value 3 True x) i = pad_bit {12, 13} True i (bit x i)"
    "bit (pad_value 1 input x) i = pad_bit {12} input i (bit x i)"
  unfolding pad_value_def shifted_bits using assms
  by (auto simp: bit_or_iff bit_and_iff bit_not_iff pad_bits bit_BIT bit_FIELD pad_bit_def)

subsection \<open>The station address\<close>

text \<open>How stmmac reads the two registers, and the address the eFuse pair stores.\<close>

definition stmmac_addr :: "u32 \<Rightarrow> u32 \<Rightarrow> u8 list" where
  "stmmac_addr lo hi = [ucast lo, ucast (drop_bit 8 lo), ucast (drop_bit 16 lo), ucast (drop_bit 24 lo),
     ucast hi, ucast (drop_bit 8 hi)]"

lemma bytes_of_word:
  fixes a b c d :: u8
  shows "ucast (push_bit 24 (ucast d) OR push_bit 16 (ucast c) OR push_bit 8 (ucast b) OR ucast a :: u32) = a"
    "ucast (drop_bit 8 (push_bit 24 (ucast d) OR push_bit 16 (ucast c) OR push_bit 8 (ucast b) OR ucast a :: u32)) = b"
    "ucast (drop_bit 16 (push_bit 24 (ucast d) OR push_bit 16 (ucast c) OR push_bit 8 (ucast b) OR ucast a :: u32)) = c"
    "ucast (drop_bit 24 (push_bit 24 (ucast d) OR push_bit 16 (ucast c) OR push_bit 8 (ucast b) OR ucast a :: u32)) = d"
    "ucast (push_bit 8 (ucast b) OR ucast a :: u32) = a"
    "ucast (drop_bit 8 (push_bit 8 (ucast b) OR ucast a :: u32)) = b"
  by (rule bit_word_eqI; auto simp: bit_simps dest: bit_imp_le_length)+

text \<open>
  The rest of the hardware: write-one registers, the GPIO matrix and the eFuse reads leave the
  configuration registers \<open>A\<close> alone, and the eFuse always reads \<open>w0\<close> and \<open>w1\<close>.
\<close>

definition emac_env :: "'d platform \<Rightarrow> ('d \<Rightarrow> u32 \<Rightarrow> u32) \<Rightarrow> u32 set \<Rightarrow> u32 \<Rightarrow> u32 \<Rightarrow> bool" where
  "emac_env P pk A w0 w1 =
     (registers P pk no_locks A \<and> emac_regs \<subseteq> A \<and> inert P pk A phy_w1_regs \<and>
      (\<forall>g sig x y d. agree A (pk (gpio_connect_out P g sig x y d)) (pk d)) \<and>
      (\<forall>g sig x d. agree A (pk (gpio_connect_in P g sig x d)) (pk d)) \<and>
      (\<forall>d. fst (bus_read P EFUSE_RD_MAC_SYS_0_REG d) = w0 \<and>
        agree A (pk (snd (bus_read P EFUSE_RD_MAC_SYS_0_REG d))) (pk d)) \<and>
      (\<forall>d. fst (bus_read P EFUSE_RD_MAC_SYS_1_REG d) = w1 \<and>
        agree A (pk (snd (bus_read P EFUSE_RD_MAC_SYS_1_REG d))) (pk d)))"

lemma emac_run:
  assumes "emac_env P pk A w0 w1" and "agree A (pk (dev s)) r" and "within ops (emac_regs \<union> phy_w1_regs)"
  shows "agree A (pk (dev (run_ops P ops s))) (eval_ops no_locks ops r)"
proof -
  have "within ops (A \<union> phy_w1_regs)" using assms(1,3) unfolding emac_env_def within_def by blast
  then show ?thesis using assms(1,2) run_ops_inert unfolding emac_env_def by blast
qed

lemma gpio_quiet:
  assumes "emac_env P pk A w0 w1" and "agree A (pk (dev s)) r"
  shows "agree A (pk (dev (gpio_out P g sig s))) r" "agree A (pk (dev (gpio_in P g sig s))) r"
proof -
  have "agree A (pk (gpio_connect_out P g sig x y (dev s))) (pk (dev s))"
    "agree A (pk (gpio_connect_in P g sig x (dev s))) (pk (dev s))" for x y
    using assms(1) by (simp_all add: emac_env_def)
  then show "agree A (pk (dev (gpio_out P g sig s))) r" "agree A (pk (dev (gpio_in P g sig s))) r"
    unfolding gpio_out_def gpio_in_def act_simps using assms(2) by (blast intro: agree_trans)+
qed

text \<open>Everything before the station address is \<open>emac_ops\<close>, with GPIO calls in between.\<close>

lemma emac_init_regs:
  assumes "emac_env P pk A w0 w1" and "p4_emac_init P s = (ok, s')"
  shows "ok \<and> (\<exists>s1. s' = station_address P s1 \<and> agree A (pk (dev s1)) (eval_ops no_locks emac_ops (pk (dev s))))"
proof -
  have parts: "within emac_clock_ops (emac_regs \<union> phy_w1_regs)"
    "within (map (\<lambda>n. pad_route n EMAC_PAD_FUNC True) rmii_pads) (emac_regs \<union> phy_w1_regs)"
    "within [pad_route EMAC_MDC_GPIO PAD_FUNC_GPIO False] (emac_regs \<union> phy_w1_regs)"
    "within [pad_route EMAC_MDIO_GPIO PAD_FUNC_GPIO True] (emac_regs \<union> phy_w1_regs)"
    "within phy_reset_ops (emac_regs \<union> phy_w1_regs)"
    using emac_within by (simp_all only: emac_ops_def within_append)
  note run = emac_run [OF assms(1)] and quiet = gpio_quiet [OF assms(1)]
  define q1 where "q1 = eval_ops no_locks emac_clock_ops (pk (dev s))"
  define q2 where "q2 = eval_ops no_locks (map (\<lambda>n. pad_route n EMAC_PAD_FUNC True) rmii_pads) q1"
  define q3 where "q3 = eval_ops no_locks [pad_route EMAC_MDC_GPIO PAD_FUNC_GPIO False] q2"
  define q4 where "q4 = eval_ops no_locks [pad_route EMAC_MDIO_GPIO PAD_FUNC_GPIO True] q3"
  have q: "eval_ops no_locks phy_reset_ops q4 = eval_ops no_locks emac_ops (pk (dev s))"
    unfolding q4_def q3_def q2_def q1_def emac_ops_def by (simp only: eval_ops_append)
  define s1 where "s1 = run_ops P emac_clock_ops s"
  define s2 where "s2 = run_ops P (map (\<lambda>n. pad_route n EMAC_PAD_FUNC True) rmii_pads) s1"
  define s3 where "s3 = gpio_out P EMAC_MDC_GPIO MII_MDC_OUT_IDX (run_ops P [pad_route EMAC_MDC_GPIO PAD_FUNC_GPIO False] s2)"
  define s4 where "s4 = gpio_in P EMAC_MDIO_GPIO MII_MDI_IN_IDX (gpio_out P EMAC_MDIO_GPIO MII_MDO_OUT_IDX
    (run_ops P [pad_route EMAC_MDIO_GPIO PAD_FUNC_GPIO True] s3))"
  have "agree A (pk (dev s1)) q1" unfolding s1_def q1_def by (rule run [OF agree_refl parts(1)])
  then have "agree A (pk (dev s2)) q2" unfolding s2_def q2_def by (rule run [OF _ parts(2)])
  then have "agree A (pk (dev s3)) q3" unfolding s3_def q3_def by (rule quiet(1) [OF run [OF _ parts(3)]])
  then have "agree A (pk (dev s4)) q4"
    unfolding s4_def q4_def by (rule quiet(2) [OF quiet(1) [OF run [OF _ parts(4)]]])
  then have "agree A (pk (dev (run_ops P phy_reset_ops s4))) (eval_ops no_locks emac_ops (pk (dev s)))"
    unfolding q [symmetric] by (rule run [OF _ parts(5)])
  moreover have "ok \<and> s' = station_address P (run_ops P phy_reset_ops s4)"
    using assms(2) by (simp add: p4_emac_init_def Let_def s1_def s2_def s3_def s4_def)
  ultimately show ?thesis by blast
qed

lemma unlocked_write:
  assumes "registers P pk no_locks A" and "a \<in> A" and "agree A (pk d) q"
  shows "agree A (pk (bus_write P a v d)) (q(a := v))"
proof -
  have "put no_locks a v (pk d) = (pk d)(a := v)" by (simp add: put_plain no_locks_def)
  then have "agree A (pk (bus_write P a v d)) ((pk d)(a := v))"
    using registers_write [OF assms(1), of a v d] assms(2) by metis
  then show ?thesis using assms(3) by (auto simp: agree_def)
qed

text \<open>The address registers after \<open>station_address\<close>; nothing else in \<open>A\<close> changes.\<close>

lemma station_address_regs:
  fixes s :: "'d soc"
  assumes "emac_env P pk A w0 w1"
  defines "r \<equiv> pk (dev s)" and "r' \<equiv> pk (dev (station_address P s))"
  shows "(if w0 \<noteq> 0 \<or> w1 AND 0xFFFF \<noteq> 0
      then stmmac_addr (r' EMAC_MACADDRESS0LOW_REG) (r' EMAC_MACADDRESS0HIGH_REG) = mac_bytes w0 (w1 AND 0xFFFF)
      else r' EMAC_MACADDRESS0LOW_REG = r EMAC_MACADDRESS0LOW_REG \<and> r' EMAC_MACADDRESS0HIGH_REG = r EMAC_MACADDRESS0HIGH_REG) \<and>
    (\<forall>a \<in> A - {EMAC_MACADDRESS0LOW_REG, EMAC_MACADDRESS0HIGH_REG}. r' a = r a)"
proof -
  note env = assms(1) [unfolded emac_env_def]
  obtain d0 where d0: "bus_read P EFUSE_RD_MAC_SYS_0_REG (dev s) = (w0, d0)" "agree A (pk d0) (pk (dev s))"
    using env by (metis prod.collapse)
  obtain d1 where d1: "bus_read P EFUSE_RD_MAC_SYS_1_REG d0 = (w1, d1)" "agree A (pk d1) (pk d0)"
    using env by (metis prod.collapse)
  have keep: "agree A (pk d1) r" unfolding r_def using d0(2) d1(2) by (blast intro: agree_trans)
  let ?mac = "mac_bytes w0 (w1 AND 0xFFFF)"
  let ?lo = "push_bit 24 (ucast (?mac ! 3)) OR push_bit 16 (ucast (?mac ! 2)) OR push_bit 8 (ucast (?mac ! 1)) OR ucast (?mac ! 0) :: u32"
  let ?hi = "push_bit 8 (ucast (?mac ! 5)) OR ucast (?mac ! 4) :: u32"
  let ?d2 = "bus_write P EMAC_MACADDRESS0LOW_REG ?lo d1"
  let ?d3 = "bus_write P EMAC_MACADDRESS0HIGH_REG ?hi ?d2"
  have dev: "dev (station_address P s) = (if w0 \<noteq> 0 \<or> w1 AND 0xFFFF \<noteq> 0 then ?d3 else d1)"
    by (simp add: station_address_def Let_def reg_read_def reg_write_def d0(1) d1(1))
  have in_A: "EMAC_MACADDRESS0LOW_REG \<in> A" "EMAC_MACADDRESS0HIGH_REG \<in> A"
    using env by (auto simp: emac_regs_def)
  have "registers P pk no_locks A" using env by blast
  note wr = unlocked_write [OF this]
  have "agree A (pk ?d3) ((r(EMAC_MACADDRESS0LOW_REG := ?lo))(EMAC_MACADDRESS0HIGH_REG := ?hi))"
    by (rule wr [OF in_A(2) wr [OF in_A(1) keep]])
  then have written: "\<And>a. a \<in> A \<Longrightarrow> pk ?d3 a = (if a = EMAC_MACADDRESS0HIGH_REG then ?hi
      else if a = EMAC_MACADDRESS0LOW_REG then ?lo else r a)"
    by (simp add: agree_def)
  have ne: "EMAC_MACADDRESS0LOW_REG \<noteq> EMAC_MACADDRESS0HIGH_REG" by (simp add: const_defs)
  have mac: "stmmac_addr ?lo ?hi = ?mac"
    unfolding stmmac_addr_def bytes_of_word by (simp add: mac_bytes_def)
  show ?thesis
  proof (cases "w0 \<noteq> 0 \<or> w1 AND 0xFFFF \<noteq> 0")
    case True
    then have r': "r' = pk ?d3" by (simp only: r'_def dev if_True)
    have "r' EMAC_MACADDRESS0LOW_REG = ?lo" "r' EMAC_MACADDRESS0HIGH_REG = ?hi"
      "\<forall>a \<in> A - {EMAC_MACADDRESS0LOW_REG, EMAC_MACADDRESS0HIGH_REG}. r' a = r a"
      unfolding r' using written in_A ne by auto
    then show ?thesis using True mac by presburger
  next
    case False
    then have "r' = pk d1" by (simp only: r'_def dev if_False)
    then show ?thesis using False keep in_A by (auto simp: agree_def)
  qed
qed

text \<open>The registers \<open>emac_ops\<close> does not name, and what follows for every register after the bring-up.\<close>

lemma emac_untouched:
  assumes "emac_env P pk A w0 w1"
    and "a \<in> {EMAC_MACADDRESS0LOW_REG, EMAC_MACADDRESS0HIGH_REG} \<or> a \<in> A - emac_regs"
  shows "eval_ops no_locks emac_ops r a = r a"
proof (rule eval_ops_other, cases "a \<in> {EMAC_MACADDRESS0LOW_REG, EMAC_MACADDRESS0HIGH_REG}")
  case True
  then show "Some a \<notin> op_reg ` set emac_ops"
    by (auto simp: emac_ops_def emac_clock_ops_def phy_reset_ops_def pad_route_def const_defs)
next
  case False
  then have "a \<notin> emac_regs \<union> phy_w1_regs"
    using assms by (auto simp: emac_env_def inert_def phy_w1_regs_def const_defs)
  then show "Some a \<notin> op_reg ` set emac_ops"
    using emac_within unfolding within_def by (metis imageE)
qed

lemma emac_values:
  fixes s :: "'d soc"
  assumes "emac_env P pk A w0 w1" and "p4_emac_init P s = (ok, s')"
  defines "r \<equiv> pk (dev s)" and "r' \<equiv> pk (dev s')"
  shows "ok"
    "a \<in> A \<Longrightarrow> a \<notin> {EMAC_MACADDRESS0LOW_REG, EMAC_MACADDRESS0HIGH_REG} \<Longrightarrow> r' a = eval_ops no_locks emac_ops r a"
    "if w0 \<noteq> 0 \<or> w1 AND 0xFFFF \<noteq> 0
      then stmmac_addr (r' EMAC_MACADDRESS0LOW_REG) (r' EMAC_MACADDRESS0HIGH_REG) = mac_bytes w0 (w1 AND 0xFFFF)
      else r' EMAC_MACADDRESS0LOW_REG = r EMAC_MACADDRESS0LOW_REG \<and> r' EMAC_MACADDRESS0HIGH_REG = r EMAC_MACADDRESS0HIGH_REG"
proof -
  obtain s1 where s1: "ok" "s' = station_address P s1" "agree A (pk (dev s1)) (eval_ops no_locks emac_ops r)"
    using emac_init_regs [OF assms(1,2)] by (auto simp: r_def)
  note station = station_address_regs [OF assms(1), of s1, folded s1(2), folded r'_def]
  show "ok" by (rule s1(1))
  show "r' a = eval_ops no_locks emac_ops r a"
    if "a \<in> A" "a \<notin> {EMAC_MACADDRESS0LOW_REG, EMAC_MACADDRESS0HIGH_REG}"
    using station agreeD [OF s1(3) that(1)] that by simp
  have "pk (dev s1) a = r a" if "a \<in> {EMAC_MACADDRESS0LOW_REG, EMAC_MACADDRESS0HIGH_REG}" for a
  proof -
    have "a \<in> A" using assms(1) that by (auto simp: emac_env_def emac_regs_def)
    then show ?thesis using agreeD [OF s1(3), of a] emac_untouched [OF assms(1), of a r] that by auto
  qed
  then show "if w0 \<noteq> 0 \<or> w1 AND 0xFFFF \<noteq> 0
      then stmmac_addr (r' EMAC_MACADDRESS0LOW_REG) (r' EMAC_MACADDRESS0HIGH_REG) = mac_bytes w0 (w1 AND 0xFFFF)
      else r' EMAC_MACADDRESS0LOW_REG = r EMAC_MACADDRESS0LOW_REG \<and> r' EMAC_MACADDRESS0HIGH_REG = r EMAC_MACADDRESS0HIGH_REG"
    using station by simp
qed

text \<open>
  C39: on registers that keep what is written, the MAC is left clocked, out of reset, in RMII mode
  with its pads routed; every other bit of the shared registers is kept, the SD slot's among them.
  The address Linux reads from the MAC is the one in the eFuse, unless the eFuse is blank, and
  then the MAC's registers are left alone.
\<close>

theorem emac_ready:
  fixes s :: "'d soc"
  assumes "emac_env P pk A w0 w1" and "p4_emac_init P s = (ok, s')"
  defines "r \<equiv> pk (dev s)" and "r' \<equiv> pk (dev s')"
  shows "ok \<and>
    (\<forall>i < 32. bit (r' SOC_CLK_CTRL1_REG) i = (bit (r SOC_CLK_CTRL1_REG) i \<or> i = 13) \<and>
      bit (r' HP_SDMMC_EMAC_RST_CTRL_REG) i = (bit (r HP_SDMMC_EMAC_RST_CTRL_REG) i \<and> i \<noteq> 30) \<and>
      bit (r' GMAC_CTRL0_REG) i = (if 2 \<le> i \<and> i < 5 then i = 4 else bit (r GMAC_CTRL0_REG) i) \<and>
      bit (r' PERI_CLK_CTRL00_REG) i = (if 24 \<le> i \<and> i < 30 then i \<in> {27, 29} else bit (r PERI_CLK_CTRL00_REG) i) \<and>
      bit (r' PERI_CLK_CTRL01_REG) i = (if i < 18 then i \<in> {0, 9, 10} else bit (r PERI_CLK_CTRL01_REG) i) \<and>
      bit (r' HP_CLK_CTRL_REG) i = (if i \<in> {13, 14} then False else bit (r HP_CLK_CTRL_REG) i \<or> i = 15)) \<and>
    (\<forall>n \<in> set rmii_pads. \<forall>i < 32. bit (r' (IO_MUX_PAD_REG n)) i = pad_bit {12, 13} True i (bit (r (IO_MUX_PAD_REG n)) i)) \<and>
    (\<forall>n \<in> {31, 51, 52}. \<forall>i < 32. bit (r' (IO_MUX_PAD_REG n)) i = pad_bit {12} (n = 52) i (bit (r (IO_MUX_PAD_REG n)) i)) \<and>
    (if w0 \<noteq> 0 \<or> w1 AND 0xFFFF \<noteq> 0
      then stmmac_addr (r' EMAC_MACADDRESS0LOW_REG) (r' EMAC_MACADDRESS0HIGH_REG) = mac_bytes w0 (w1 AND 0xFFFF)
      else r' EMAC_MACADDRESS0LOW_REG = r EMAC_MACADDRESS0LOW_REG \<and> r' EMAC_MACADDRESS0HIGH_REG = r EMAC_MACADDRESS0HIGH_REG) \<and>
    (\<forall>a \<in> A - emac_regs. r' a = r a)"
proof -
  note vals = emac_values [OF assms(1,2), folded r_def r'_def]
  have in_A: "emac_regs \<subseteq> A" using assms(1) by (simp add: emac_env_def)
  have clock: "a \<in> {SOC_CLK_CTRL1_REG, HP_SDMMC_EMAC_RST_CTRL_REG, GMAC_CTRL0_REG, PERI_CLK_CTRL00_REG,
      PERI_CLK_CTRL01_REG, HP_CLK_CTRL_REG} \<Longrightarrow> r' a = eval_ops no_locks emac_ops r a" for a
    using in_A by (intro vals(2)) (auto simp: emac_regs_def const_defs)
  have pad: "r' (IO_MUX_PAD_REG n) = eval_ops no_locks emac_ops r (IO_MUX_PAD_REG n)" if "n \<in> set emac_pads" for n
    using in_A that by (intro vals(2)) (auto simp: emac_regs_def const_defs)
  have rmii: "bit (r' (IO_MUX_PAD_REG n)) i = pad_bit {12, 13} True i (bit (r (IO_MUX_PAD_REG n)) i)"
    if n: "n \<in> set rmii_pads" and i: "i < 32" for n i
  proof -
    have "n \<in> set emac_pads" using n by (auto simp: rmii_pads_def emac_pads_def)
    then show ?thesis using pad emac_eval_pads(1) [OF n] pad_value_bits(1) [OF i] by simp
  qed
  have pads: "31 \<in> set emac_pads" "51 \<in> set emac_pads" "52 \<in> set emac_pads"
    by (simp_all add: emac_pads_def)
  have gpio: "\<forall>n \<in> {31, 51, 52}. \<forall>i < 32. bit (r' (IO_MUX_PAD_REG n)) i = pad_bit {12} (n = 52) i (bit (r (IO_MUX_PAD_REG n)) i)"
    by (simp add: pad [OF pads(1)] pad [OF pads(2)] pad [OF pads(3)] emac_eval_pads(2-4) pad_value_bits(2))
  have rest: "r' a = r a" if "a \<in> A - emac_regs" for a
    using that vals(2) [of a] emac_untouched [OF assms(1), of a r] by (auto simp: emac_regs_def)
  have bits: "\<forall>i < 32. bit (r' SOC_CLK_CTRL1_REG) i = (bit (r SOC_CLK_CTRL1_REG) i \<or> i = 13) \<and>
      bit (r' HP_SDMMC_EMAC_RST_CTRL_REG) i = (bit (r HP_SDMMC_EMAC_RST_CTRL_REG) i \<and> i \<noteq> 30) \<and>
      bit (r' GMAC_CTRL0_REG) i = (if 2 \<le> i \<and> i < 5 then i = 4 else bit (r GMAC_CTRL0_REG) i) \<and>
      bit (r' PERI_CLK_CTRL00_REG) i = (if 24 \<le> i \<and> i < 30 then i \<in> {27, 29} else bit (r PERI_CLK_CTRL00_REG) i) \<and>
      bit (r' PERI_CLK_CTRL01_REG) i = (if i < 18 then i \<in> {0, 9, 10} else bit (r PERI_CLK_CTRL01_REG) i) \<and>
      bit (r' HP_CLK_CTRL_REG) i = (if i \<in> {13, 14} then False else bit (r HP_CLK_CTRL_REG) i \<or> i = 15)"
    using clock emac_clock_bits by simp
  show ?thesis
    using vals(1,3) bits rmii gpio rest by simp
qed

text \<open>The bench machine, with the eFuse of the board the sources describe.\<close>

definition emac_bench :: "bench platform" where
  "emac_bench = (bench_platform bench_flash)\<lparr>bus_read := \<lambda>a d.
     (if a = EFUSE_RD_MAC_SYS_0_REG then 0xf9fb0c31 else if a = EFUSE_RD_MAC_SYS_1_REG then 0x6055
      else reg_file d a, d)\<rparr>"

lemma not_in_psram: "a \<in> emac_regs \<union> phy_w1_regs \<Longrightarrow> \<not> in_psram a"
  by (auto simp: emac_regs_def phy_w1_regs_def emac_pads_def in_psram_def in_range_def const_defs)

lemma emac_bench_env: "emac_env emac_bench reg_file emac_regs 0xf9fb0c31 0x6055"
proof -
  have "EFUSE_RD_MAC_SYS_0_REG \<notin> emac_regs" "EFUSE_RD_MAC_SYS_1_REG \<notin> emac_regs"
    "EFUSE_RD_MAC_SYS_0_REG \<noteq> EFUSE_RD_MAC_SYS_1_REG"
    "emac_regs \<inter> phy_w1_regs = {}"
    by (auto simp: emac_regs_def phy_w1_regs_def emac_pads_def const_defs)
  then show ?thesis
    using not_in_psram
    by (auto simp: emac_env_def registers_def inert_def emac_bench_def bench_platform_def agree_def
        put_plain no_locks_def)
qed

lemma emac_ready_witness:
  "let r' = reg_file (dev (snd (p4_emac_init emac_bench bench_start)))
   in stmmac_addr (r' EMAC_MACADDRESS0LOW_REG) (r' EMAC_MACADDRESS0HIGH_REG) = [0x60, 0x55, 0xf9, 0xfb, 0x0c, 0x31] \<and>
     bit (r' (IO_MUX_PAD_REG 50)) 13"
proof -
  obtain ok s' where run: "p4_emac_init emac_bench bench_start = (ok, s')" by fastforce
  note ready = emac_ready [OF emac_bench_env run]
  have "stmmac_addr (reg_file (dev s') EMAC_MACADDRESS0LOW_REG) (reg_file (dev s') EMAC_MACADDRESS0HIGH_REG) =
      mac_bytes 0xf9fb0c31 (0x6055 AND 0xFFFF)"
    using ready by simp
  moreover have "mac_bytes 0xf9fb0c31 (0x6055 AND 0xFFFF) = [0x60, 0x55, 0xf9, 0xfb, 0x0c, 0x31]"
    by (simp add: mac_bytes_def)
  moreover have "bit (reg_file (dev s') (IO_MUX_PAD_REG 50)) 13"
    using ready by (simp add: rmii_pads_def pad_bit_def)
  ultimately show ?thesis using run by (simp add: Let_def)
qed

subsection \<open>MDIO\<close>

text \<open>
  A MAC whose management interface works: after a frame is written it is busy for fewer than
  200000 polls; once idle, the data register holds what the addressed PHY answers.
\<close>

definition mdio_mac :: "('d, 'm) bus_scheme \<Rightarrow> ('d \<Rightarrow> nat) \<Rightarrow> ('d \<Rightarrow> u32) \<Rightarrow> (u32 \<Rightarrow> u32 \<Rightarrow> u32 \<Rightarrow> u16) \<Rightarrow> bool" where
  "mdio_mac P busy latched ans =
     ((\<forall>d. case bus_read P EMAC_GMIIADDRESS_REG d of (v, d') \<Rightarrow>
        (v AND EMAC_GB = 0 \<longleftrightarrow> busy d = 0) \<and> busy d' = busy d - 1 \<and> latched d' = latched d) \<and>
      (\<forall>v d. latched (bus_write P EMAC_GMIIADDRESS_REG v d) = v \<and>
        busy (bus_write P EMAC_GMIIADDRESS_REG v d) < MDIO_POLLS) \<and>
      (\<forall>d. busy d = 0 \<longrightarrow> (case bus_read P EMAC_GMIIDATA_REG d of (v, d') \<Rightarrow> busy d' = 0 \<and>
        ucast v = ans (get_field 4 2 (latched d)) (get_field 5 11 (latched d)) (get_field 5 6 (latched d)))))"

lemma mdio_idle_done:
  assumes "mdio_mac P busy latched ans"
  shows "busy (dev s) < n \<Longrightarrow> \<exists>s'. mdio_idle P n s = (True, s') \<and> busy (dev s') = 0 \<and> latched (dev s') = latched (dev s)"
proof (induction n arbitrary: s)
  case (Suc n)
  obtain v d where read: "bus_read P EMAC_GMIIADDRESS_REG (dev s) = (v, d)" by fastforce
  then have "(v AND EMAC_GB = 0 \<longleftrightarrow> busy (dev s) = 0) \<and> busy d = busy (dev s) - 1 \<and> latched d = latched (dev s)"
    using assms unfolding mdio_mac_def by (metis (mono_tags, lifting) case_prod_conv)
  then show ?case
    using Suc.IH [of "s\<lparr>dev := d\<rparr>"] Suc.prems by (auto simp: reg_read_def read)
qed simp

text \<open>The frame carries PHY address, register and divider in fields that do not overlap.\<close>

lemma mdio_frame_fields:
  assumes "phy < 32" and "reg < 32" and "cr < 16"
  shows "get_field 5 11 (mdio_frame phy reg cr) = phy" "get_field 5 6 (mdio_frame phy reg cr) = reg"
    "get_field 4 2 (mdio_frame phy reg cr) = cr"
proof -
  have m: "phy AND mask 5 = phy" "reg AND mask 5 = reg" "cr AND mask 4 = cr"
    using assms of_nat_mask [of "unat phy" 5] of_nat_mask [of "unat reg" 5] of_nat_mask [of "unat cr" 4]
    by (simp_all add: word_less_nat_alt)
  have m': "0x1F = (mask 5 :: u32)" "0xF = (mask 4 :: u32)" by (simp_all add: mask_eq_exp_minus_1)
  have "get_field 5 11 (mdio_frame phy reg cr) = phy AND mask 5"
    "get_field 5 6 (mdio_frame phy reg cr) = reg AND mask 5"
    "get_field 4 2 (mdio_frame phy reg cr) = cr AND mask 4"
    unfolding mdio_frame_def m' EMAC_GB_def
    by (rule bit_word_eqI; auto simp: get_field_def bit_simps bit_BIT)+
  then show "get_field 5 11 (mdio_frame phy reg cr) = phy" "get_field 5 6 (mdio_frame phy reg cr) = reg"
    "get_field 4 2 (mdio_frame phy reg cr) = cr" using m by simp_all
qed

lemma mdio_read_ok:
  assumes "mdio_mac P busy latched ans" and "busy (dev s) < MDIO_POLLS"
    and "phy < 32" and "reg < 32" and "cr < 16"
  shows "\<exists>s'. mdio_read P phy reg cr s = (Some (ans cr phy reg), s') \<and> busy (dev s') < MDIO_POLLS"
proof -
  obtain s1 where s1: "mdio_idle P MDIO_POLLS s = (True, s1)"
    using mdio_idle_done [OF assms(1,2)] by blast
  define s2 where "s2 = reg_write P EMAC_GMIIADDRESS_REG (mdio_frame phy reg cr) s1"
  have s2: "latched (dev s2) = mdio_frame phy reg cr" "busy (dev s2) < MDIO_POLLS"
    using assms(1) by (simp_all add: s2_def reg_write_def mdio_mac_def)
  obtain s3 where s3: "mdio_idle P MDIO_POLLS s2 = (True, s3)" "busy (dev s3) = 0" "latched (dev s3) = latched (dev s2)"
    using mdio_idle_done [OF assms(1) s2(2)] by blast
  obtain v d where read: "bus_read P EMAC_GMIIDATA_REG (dev s3) = (v, d)" by fastforce
  have "busy d = 0 \<and> ucast v = ans cr phy reg"
    using assms(1) read s3(2,3) s2(1) mdio_frame_fields [OF assms(3-5)]
    unfolding mdio_mac_def by (metis (mono_tags, lifting) case_prod_conv)
  moreover have low: "(0xFFFF :: u32) = mask 16" by (simp add: mask_eq_exp_minus_1)
  have "(ucast (v AND 0xFFFF) :: u16) = ucast v"
    unfolding low by (rule bit_word_eqI) (auto simp: bit_simps)
  moreover have "0 < MDIO_POLLS" by (simp add: MDIO_POLLS_def)
  ultimately show ?thesis
    by (simp add: mdio_read_def s1 Let_def s2_def [symmetric] s3(1) reg_read_def read)
qed

text \<open>What the scan should report: the PHYs that answer at the first divider at which any does.\<close>

definition phy_present :: "(u32 \<Rightarrow> u32 \<Rightarrow> u32 \<Rightarrow> u16) \<Rightarrow> u32 \<Rightarrow> nat \<Rightarrow> bool" where
  "phy_present ans cr phy = (ans cr (of_nat phy) MII_PHYSID1 \<notin> {0, 0xFFFF})"

definition phy_report_of :: "(u32 \<Rightarrow> u32 \<Rightarrow> u32 \<Rightarrow> u16) \<Rightarrow> u32 \<Rightarrow> nat \<Rightarrow> phy_report" where
  "phy_report_of ans cr phy = \<lparr>phy_addr = of_nat phy, phy_id1 = ans cr (of_nat phy) MII_PHYSID1,
     phy_id2 = ans cr (of_nat phy) MII_PHYSID2, phy_bmsr = ans cr (of_nat phy) MII_BMSR, phy_cr = cr\<rparr>"

lemma scan_phys_ok:
  assumes "mdio_mac P busy latched ans" and "cr < 16"
  shows "busy (dev s) < MDIO_POLLS \<Longrightarrow> \<forall>phy \<in> set phys. phy < 32 \<Longrightarrow>
    \<exists>s'. scan_phys P cr phys s = (map (phy_report_of ans cr) (filter (phy_present ans cr) phys), s') \<and>
      busy (dev s') < MDIO_POLLS"
proof (induction phys arbitrary: s)
  case (Cons phy phys)
  let ?p = "of_nat phy :: u32"
  have p: "?p < 32" using Cons.prems(2) by (simp add: word_less_nat_alt unat_of_nat)
  have regs: "MII_PHYSID1 < 32" "MII_PHYSID2 < 32" "MII_BMSR < 32" by (simp_all add: const_defs)
  note rd = mdio_read_ok [OF assms(1) _ p _ assms(2)]
  obtain s1 where s1: "mdio_read P ?p MII_PHYSID1 cr s = (Some (ans cr ?p MII_PHYSID1), s1)" "busy (dev s1) < MDIO_POLLS"
    using rd [OF Cons.prems(1) regs(1)] by blast
  obtain s2 where s2: "mdio_read P ?p MII_PHYSID2 cr s1 = (Some (ans cr ?p MII_PHYSID2), s2)" "busy (dev s2) < MDIO_POLLS"
    using rd [OF s1(2) regs(2)] by blast
  obtain s3 where s3: "mdio_read P ?p MII_BMSR cr s2 = (Some (ans cr ?p MII_BMSR), s3)" "busy (dev s3) < MDIO_POLLS"
    using rd [OF s2(2) regs(3)] by blast
  have phys: "\<forall>phy \<in> set phys. phy < 32" using Cons.prems(2) by simp
  show ?case
    using Cons.IH [OF s1(2) phys] Cons.IH [OF s3(2) phys]
    by (auto simp: s1(1) s2(1) s3(1) phy_present_def phy_report_of_def)
qed simp

lemma scan_dividers_ok:
  assumes "mdio_mac P busy latched ans"
  shows "busy (dev s) < MDIO_POLLS \<Longrightarrow> \<forall>cr \<in> set cs. cr < 16 \<Longrightarrow>
    fst (scan_dividers P cs s) = (case find (\<lambda>cr. \<exists>phy < 32. phy_present ans cr phy) cs of
      None \<Rightarrow> [] | Some cr \<Rightarrow> map (phy_report_of ans cr) (filter (phy_present ans cr) [0..<32]))"
proof (induction cs arbitrary: s)
  case (Cons cr cs)
  obtain s' where s': "scan_phys P cr [0..<32] s =
      (map (phy_report_of ans cr) (filter (phy_present ans cr) [0..<32]), s')" "busy (dev s') < MDIO_POLLS"
    using scan_phys_ok [OF assms, of cr s "[0..<32]"] Cons.prems by auto
  have empty: "filter (phy_present ans cr) [0..<32] = [] \<longleftrightarrow> \<not> (\<exists>phy < 32. phy_present ans cr phy)"
    by (auto simp: filter_empty_conv)
  show ?case
  proof (cases "\<exists>phy < 32. phy_present ans cr phy")
    case True
    then show ?thesis by (simp add: s'(1) empty del: upt_Suc)
  next
    case False
    then have "filter (phy_present ans cr) [0..<32] = []" using empty by blast
    then show ?thesis using Cons.IH [OF s'(2)] Cons.prems(2) False s'(1) by auto
  qed
qed simp

text \<open>An interface that never goes idle: every access gives up, and the scan with it.\<close>

lemma mdio_dead:
  assumes "\<forall>d. fst (bus_read P EMAC_GMIIADDRESS_REG d) AND EMAC_GB \<noteq> 0"
  shows "fst (p4_emac_mdio_scan P s) = []"
proof -
  have idle: "\<not> fst (mdio_idle P n t)" for n t
  proof (induction n arbitrary: t)
    case (Suc n)
    obtain v d where "bus_read P EMAC_GMIIADDRESS_REG (dev t) = (v, d)" by fastforce
    moreover from this have "v AND EMAC_GB \<noteq> 0" using assms by (metis fst_conv)
    ultimately show ?case using Suc.IH by (simp add: reg_read_def)
  qed simp
  have rd: "fst (mdio_read P phy reg cr t) = None" for phy reg cr t
    using idle [of MDIO_POLLS t] by (auto simp: mdio_read_def split: prod.splits bool.splits)
  have scan: "fst (scan_phys P cr phys t) = []" for cr phys t
    using rd [of "of_nat (hd phys)" MII_PHYSID1 cr t]
    by (cases phys) (auto split: prod.splits option.splits)
  have "fst (scan_dividers P cs t) = []" for cs t
  proof (induction cs arbitrary: t)
    case (Cons cr cs)
    obtain found t' where "scan_phys P cr [0..<32] t = (found, t')" by fastforce
    moreover from this have "found = []" using scan [of cr "[0..<32]" t] by simp
    ultimately show ?case using Cons.IH by (simp del: upt_Suc)
  qed simp
  then show ?thesis by (simp add: p4_emac_mdio_scan_def)
qed

text \<open>
  C40: with a working management interface the scan reports exactly the PHYs that answer, with
  the registers they hold, at the first divider in the code's order at which any PHY answers;
  with one that never goes idle the scan still ends, and reports nothing.
\<close>

theorem mdio_scan_reports:
  assumes "mdio_mac P busy latched ans" and "busy (dev s) < 200000"
  shows "fst (p4_emac_mdio_scan P s) =
    (case find (\<lambda>cr. \<exists>phy < 32. phy_present ans cr phy) [5, 4, 1, 0, 3, 2] of
      None \<Rightarrow> [] | Some cr \<Rightarrow> map (phy_report_of ans cr) (filter (phy_present ans cr) [0..<32])) \<and>
    (\<forall>Q t. (\<forall>d. fst (bus_read Q EMAC_GMIIADDRESS_REG d) AND EMAC_GB \<noteq> 0) \<longrightarrow>
      fst (p4_emac_mdio_scan (Q :: 'q bus) t) = [])"
proof -
  have "\<forall>cr \<in> set crs. cr < 16" by (simp add: crs_def word_less_nat_alt)
  then have "fst (p4_emac_mdio_scan P s) = (case find (\<lambda>cr. \<exists>phy < 32. phy_present ans cr phy) crs of
      None \<Rightarrow> [] | Some cr \<Rightarrow> map (phy_report_of ans cr) (filter (phy_present ans cr) [0..<32]))"
    unfolding p4_emac_mdio_scan_def
    using assms(2) by (intro scan_dividers_ok [OF assms(1)]) (simp_all add: MDIO_POLLS_def)
  then show ?thesis unfolding crs_def using mdio_dead by blast
qed

text \<open>A MAC with one PHY, at address 1, that answers at the divider 4 and the slower ones only.\<close>

definition one_phy :: "u32 \<Rightarrow> u32 \<Rightarrow> u32 \<Rightarrow> u16" where
  "one_phy cr phy reg = (if phy = 1 \<and> (cr = 4 \<or> cr = 5) then (if reg = 2 then 0x243 else 0xC54) else 0xFFFF)"

definition mdio_bench :: "(nat \<times> u32) bus" where
  "mdio_bench = \<lparr>bus_read = (\<lambda>a (b, f). if a = EMAC_GMIIADDRESS_REG then (if b = 0 then 0 else 1, (b - 1, f))
       else (ucast (one_phy (get_field 4 2 f) (get_field 5 11 f) (get_field 5 6 f)), (b, f))),
     bus_write = (\<lambda>a v (b, f). (12, v)), delay_us = (\<lambda>_ d. d)\<rparr>"

lemma mdio_scan_reports_witness:
  "fst (p4_emac_mdio_scan mdio_bench \<lparr>dev = (3, 0), log = []\<rparr>) = [phy_report_of one_phy 5 1]"
proof -
  have "ucast (ucast x :: u32) = x" for x :: u16
    by (rule bit_word_eqI) (auto simp: bit_simps)
  then have "mdio_mac mdio_bench fst snd one_phy"
    by (auto simp: mdio_mac_def mdio_bench_def EMAC_GB_def BIT_def MDIO_POLLS_def const_defs split: prod.splits)
  note scan = mdio_scan_reports [OF this, of "\<lparr>dev = (3, 0), log = []\<rparr>"]
  have present: "phy_present one_phy 5 n \<longleftrightarrow> n = 1" if "n < 32" for n
    using that by (simp add: phy_present_def one_phy_def MII_PHYSID1_def word_unat_eq_iff unat_of_nat)
  then have "filter (phy_present one_phy 5) [0..<32] = filter (\<lambda>n. n = 1) [0..<32]"
    by (intro filter_cong) auto
  also have "\<dots> = [1]" by code_simp
  finally have one: "filter (phy_present one_phy 5) [0..<32] = [1]" .
  have "\<exists>phy < 32. phy_present one_phy 5 phy" using present [of 1] by (intro exI [of _ 1]) simp
  then show ?thesis using scan [THEN conjunct1] one by (simp del: upt_Suc)
qed

end
