(* ===== verification/Spec2Isabelle.thy ===== *)
theory Spec2Isabelle
  imports HgetRedirect HgetSay FlashmapBench P4EmacOk
begin

text \<open>
  The C programs of native Linux on the ESP32-P4: the HTTP client \<open>hget\<close> that runs on the board
  (\<open>board/hget/hget.c\<close>) and the second-stage bootloader that brings the board up and enters the
  kernel (\<open>bootloader/main.c\<close> and \<open>bootloader/p4/\<close>). The two share no code and no state; the
  development has one half for each, over a common prelude. Definitions carry the names of the C
  functions and are executable, except for the contracts of foreign code.

  \<^bold>\<open>How the programs are put together.\<close> The boot ROM loads the bootloader, whose \<open>main\<close> silences the
  watchdogs (\<open>p4_wdt.c\<close>), sets up the analog domain (\<open>p4_analog.c\<close>) and the console
  (\<open>p4_uart.c\<close>), finds and checksums the kernel and the device tree in flash (\<open>p4_flash.c\<close>), sets
  up clocks and caches (\<open>p4_clk.c\<close>, \<open>p4_cache.c\<close>), trains, maps and tests PSRAM (\<open>p4_psram.c\<close>,
  which calls back into \<open>p4_clk.c\<close> and \<open>p4_ldo.c\<close> for the memory's clock and supply), copies both
  payloads there and compares the checksums, prepares the SD slot and the Ethernet MAC for Linux
  (\<open>p4_sdmmc.c\<close>, \<open>p4_emac.c\<close>) and jumps. Any failure before that stops the board for good.
  In \<open>hget\<close>, \<open>main\<close> parses the command line and calls \<open>fetch\<close>, which parses the URL, races TCP
  connects to the resolved addresses, does the TLS handshake if asked to, sends one request, reads
  the header block, and then either calls itself for a redirect or writes the body to a file.

  \<^bold>\<open>The state.\<close> In \<open>hget\<close>, a connection (\<open>conn\<close>, \<open>session\<close>) carries the scripts of what the kernel
  and mbedTLS will answer, call by call, and what has been sent, opened and closed; \<open>fetch\<close> returns
  the exit code, the connections in order and the output file. A result \<open>None\<close> is undefined
  behaviour (a buffer overrun) or a loop that does not end; both are proved not to happen, on
  scripts of any finite length. In the bootloader, the state \<open>soc\<close> is the device behind an arbitrary bus and a log of events (register
  writes, delays, calls into the ROM and ESP-IDF, the jump); every foreign routine is a field of
  the record \<open>platform\<close>.

  \<^bold>\<open>Shared theories.\<close>
  \<^item> \<open>Prelude\<close>: widths of the C types, rule collections, lemmas on lists and words.
  \<^item> \<open>Cstring\<close>, \<open>Numerals\<close>: the \<open>string.h\<close> and \<open>stdlib.h\<close> functions the sources call; printing
    numbers and reading them back.

  \<^bold>\<open>The client\<close> (\<open>board/hget/hget.c\<close>).
  \<^item> \<open>HgetBase\<close>: exit codes, buffer sizes, options. \<open>HgetUrl\<close>: \<open>url_parse\<close>; it never overruns a
    field, its results are well-formed, and it inverts printing.
  \<^item> \<open>HgetIO\<close>: \<open>conn_read\<close>, \<open>conn_write\<close>, \<open>write_all\<close>, and the locales \<open>byte_source\<close> and
    \<open>byte_sink\<close> that say what their callers rely on, interpreted there on these functions.
  \<^item> \<open>HgetHttp\<close>: \<open>read_headers\<close>, \<open>body_plain\<close>, \<open>body_chunked\<close>. \<open>HgetHeaders\<close> proves that no byte
    is lost between header and body and that the header walk is a fold over the lines.
    \<open>HgetTransfer\<close> (locale \<open>transfer\<close>) and \<open>HgetChunked\<close> prove the body loops against the two
    contracts; \<open>HgetBody\<close> interprets them on the real transport, pending bytes included.
  \<^item> \<open>HgetRace\<close>: \<open>tcp_connect\<close>; fairness of the candidate list, descriptors, the deadline, and that
    a reachable address wins. \<open>HgetConn\<close>: \<open>conn_open\<close>, \<open>conn_close\<close> and the TLS policy.
  \<^item> \<open>HgetFetch\<close>: \<open>fetch\<close> and \<open>main\<close>; they end, leak nothing, and send nothing to an
    unauthenticated TLS peer. \<open>HgetRedirect\<close>: chains of redirects, their limit, and that a
    \<open>Location\<close> cannot add lines that end in CRLF to a request (a bare line feed it can). \<open>HgetSay\<close>: what a run prints on standard error, by
    stage, and that failures and only failures are reported there.

  \<^bold>\<open>The bootloader\<close>.
  \<^item> \<open>P4Bus\<close>: register access and sequences of it, with a meaning on hardware that stores what is
    written (\<open>registers\<close>), write protection included. On it \<open>P4Wdt\<close>, \<open>P4Uart\<close>, \<open>P4Ldo\<close> (with the
    inlined part of \<open>vendor/include/hal/ldo_ll.h\<close>) and \<open>P4Sdmmc\<close>: the sequences of these files,
    what they leave in each register, and the divider and voltage arithmetic in its C widths.
  \<^item> \<open>P4String\<close>: \<open>memcpy\<close>, \<open>memmove\<close>, \<open>memset\<close>, \<open>memcmp\<close>. \<open>P4Panic\<close>: \<open>p4_panic.c\<close>, with the text
    that the functions that stop the board print.
  \<^item> \<open>P4Platform\<close>: the foreign routines and their contracts. \<open>P4Flash\<close>, \<open>P4Psram\<close>, \<open>P4Board\<close>
    (\<open>p4_clk.c\<close>, \<open>p4_cache.c\<close>, \<open>p4_flashcache.c\<close>, \<open>p4_analog.c\<close>) and \<open>P4Emac\<close>: the files that
    call them. \<open>P4FlashOk\<close> and \<open>P4EmacOk\<close> hold their correctness: the chunked loops (locales
    \<open>chunk_walk\<close> and \<open>total_chunk_walk\<close>, one interpretation per loop), the table walk, and what
    Linux will find in the MAC.
  \<^item> \<open>BootMain\<close>: \<open>main\<close> whole. \<open>BootEffects\<close> (locales \<open>device_effects\<close> and \<open>board_effects\<close>) bounds
    what each stage may do, once for the log and once for memory. \<open>BootOrder\<close>: an abstract boot,
    as a step relation on phases, which every run refines whatever the hardware does. \<open>BootOk\<close>:
    what a boot that jumps has verified, and that a healthy machine boots. \<open>BootRefuse\<close>: which
    flash contents halt it.
  \<^item> \<open>Flashmap\<close>: the tool that writes the flash the bootloader reads (\<open>flashmap.py\<close>: the layout
    file, its checks, the binary table, the expected checksums) and the flashing recipes of the
    \<open>Makefile\<close>. \<open>FlashmapOk\<close>: the table walk reads back what the tool wrote, both sides agree on
    the checksums, and a board flashed by \<open>make flash-all\<close> boots the payloads it was given, the
    composition of the tool, \<open>p4_flash.c\<close> and \<open>main\<close>. \<open>FlashmapBench\<close>: the shipped layout.
  \<^item> \<open>P4Bench\<close>, \<open>BootBench\<close>: a machine that keeps all the contracts at once; the witnesses run on it.

  \<^bold>\<open>Contracts\<close>, all of them documented behaviour of code that is not in the repository's own
  sources: \<open>rom_flash\<close> (the ROM's flash reader), \<open>rom_crc\<close>, \<open>cached_memory\<close> and the weaker
  \<open>stores_aimed\<close> (write-back cache), \<open>quiet\<close> (device registers are not memory), \<open>size_kept\<close>,
  \<open>psram_good\<close> (training succeeds and the words are distinct cells), \<open>registers\<close>; \<open>healthy\<close>
  collects them. \<open>espflash_ok\<close> says what \<open>espflash\<close> erases and
  writes. The properties of the order of the boot need none of them.

  \<^bold>\<open>Loops.\<close> Loops over a script or a list are structural. \<open>tcp_connect\<close>'s race is bounded by its
  deadline, \<open>fetch\<close> by \<open>MAX_REDIRECTS\<close>, the chunk loop by the bytes left; the MDIO wait (200000
  polls) and the clock probe (4000 samples) recurse on the bound in the code. The HTTP loops are partial
  functions that are proved to return on every finite script. The retries of a call that answers
  \<open>EINTR\<close>, \<open>WANT_READ\<close> or \<open>WANT_WRITE\<close> (or, in \<open>write_all\<close>, 0) have no bound in the code: a peer
  can keep a TLS connection waiting for ever. \<open>HgetIO\<close> has the read and the write loop over endless
  scripts too (\<open>ssl_read_stream\<close>, \<open>write_stream\<close>): they agree with the finite ones whenever they
  return, and when they do not is stated there. The wait for the UART's update bit has no
  bound in the code and is a partial function; that it returns is a hypothesis where it matters.

  \<^bold>\<open>Not modelled.\<close> The bootloader's console messages, except those of \<open>p4_panic.c\<close>: they go through
  the ROM's \<open>ets_printf\<close>, and no code depends on them. Of mbedTLS only which calls are made and
  what they return; a program built without it (\<open>HGET_TLS\<close>) is covered. The assembly (\<open>start.S\<close>, \<open>trap.S\<close>, \<open>jump.S\<close>): the jump is the last
  event of the log. The ESP-IDF sources under \<open>bootloader/vendor\<close>, except register addresses and
  \<open>ldo_ll.h\<close>: third-party code. \<open>sdkconfig.h\<close>, except the three values \<open>p4_cache.c\<close> passes on: it
  configures vendored code. Of \<open>flashmap.py\<close>, \<open>csv.reader\<close> (its rows are the input) and the printed
  listings. The rules that compile the bootloader, device trees, kernel patches, scripts and images
  around the two programs.
\<close>

end
